(* ===== verification/Polku_Prelude.thy ===== *)
theory Polku_Prelude
  imports Main "HOL-Library.Word" "HOL-Library.AList" "HOL-Library.Multiset"
begin

unbundle bit_operations_syntax

text \<open>
  Shared vocabulary of the development: the machine integers of the Rust sources, the
  operations of Rust's standard library that the sources use, and the generic lemmas that
  the component theories share.

  Conventions. \<open>usize\<close> lengths and counts of in-memory collections are \<open>nat\<close>; \<open>u64\<close>,
  \<open>u32\<close> and \<open>i64\<close> values are words, whose \<open>+\<close> and \<open>*\<close> wrap as in a release build (the
  workspace keeps Cargo's default of no overflow checks there) and as \<open>fetch_add\<close> does in
  every build. Integer division by zero and \<open>assert!\<close> panic in every build: an operation
  that can panic returns \<open>panic + 'a\<close>. An \<open>Instant\<close> is the number of nanoseconds on the
  monotonic clock and a \<open>Duration\<close> a number of nanoseconds, both \<open>nat\<close>, so that
  \<open>duration_since\<close> and \<open>elapsed\<close>, which saturate at zero, are subtraction on \<open>nat\<close>.
  A \<open>String\<close> is the list of its UTF-8 bytes. A \<open>HashMap\<close> is a map \<open>'k \<rightharpoonup> 'v\<close> where only
  lookups matter, and an association list with distinct keys where its length or an
  iteration over it matters.
\<close>

section \<open>Collections of simplification rules\<close>

named_theorems word_nat "facts that move u64 and u32 arithmetic to the natural numbers"
named_theorems frame "fields and cells that an operation leaves alone"

section \<open>Machine integers\<close>

type_synonym u64 = "64 word"
type_synonym u32 = "32 word"
type_synonym u8 = "8 word"
type_synonym i64 = "64 word"

abbreviation u64_MAX :: u64 where
  "u64_MAX \<equiv> 18446744073709551615"

text \<open>\<open>u64::saturating_add\<close>, \<open>saturating_sub\<close> and \<open>saturating_mul\<close>.\<close>

definition saturating_add :: "u64 \<Rightarrow> u64 \<Rightarrow> u64" where
  "saturating_add a b = (if unat a + unat b < 2 ^ 64 then a + b else u64_MAX)"

definition saturating_sub :: "u64 \<Rightarrow> u64 \<Rightarrow> u64" where
  "saturating_sub a b = (if b \<le> a then a - b else 0)"

definition saturating_mul :: "u64 \<Rightarrow> u64 \<Rightarrow> u64" where
  "saturating_mul a b = (if unat a * unat b < 2 ^ 64 then a * b else u64_MAX)"

lemma unat_less_u64 [simp]: "unat (x :: u64) < 18446744073709551616"
  by (rule order_less_le_trans [OF unsigned_less]) simp

lemma unat_le_u64 [simp]: "unat (x :: u64) \<le> 18446744073709551615"
  using unat_less_u64 [of x] by linarith

lemma unat_saturating_add [word_nat]:
  "unat (saturating_add a b) = min (unat a + unat b) (2 ^ 64 - 1)"
  by (auto simp: saturating_add_def unat_word_ariths min_def)

lemma unat_saturating_sub [word_nat]: "unat (saturating_sub a b) = unat a - unat b"
  by (auto simp: saturating_sub_def word_le_nat_alt unat_sub)

lemma unat_saturating_mul [word_nat]:
  "unat (saturating_mul a b) = min (unat a * unat b) (2 ^ 64 - 1)"
  by (auto simp: saturating_mul_def unat_word_ariths min_def)

lemma unat_of_nat_u64 [word_nat]: "unat (of_nat n :: u64) = n mod 2 ^ 64"
  by (simp add: unat_of_nat)

lemma unat_add_u64: "unat a + unat b < 2 ^ 64 \<Longrightarrow> unat (a + b :: u64) = unat a + unat b"
  by (simp add: unat_word_ariths)

lemma unat_mult_u64: "unat a * unat b < 2 ^ 64 \<Longrightarrow> unat (a * b :: u64) = unat a * unat b"
  by (simp add: unat_word_ariths)

lemma unat_min_word [word_nat]: "unat (min a b :: 'a::len word) = min (unat a) (unat b)"
  by (simp add: min_def word_le_nat_alt)

lemma unat_inc_le: "unat (x + 1 :: 'a::len word) \<le> Suc (unat x)"
  by (simp add: unat_word_ariths)

lemma unat_Suc_less: "(x :: 'a::len word) < y \<Longrightarrow> unat (x + 1) = Suc (unat x)"
proof -
  assume "x < y"
  then have "unat x < unat y" by (simp add: word_less_nat_alt)
  moreover have "unat y < 2 ^ LENGTH('a)" by (rule unsigned_less)
  ultimately have "unat x + 1 < 2 ^ LENGTH('a)" by linarith
  then show ?thesis by (simp add: unat_word_ariths)
qed

section \<open>Panics\<close>

datatype panic = DivideByZero | AssertFailed string | IndexOutOfBounds

text \<open>\<open>u64\<close> division: it panics on a zero divisor in every build profile.\<close>

definition div_u64 :: "u64 \<Rightarrow> u64 \<Rightarrow> panic + u64" where
  "div_u64 a b = (if b = 0 then Inl DivideByZero else Inr (a div b))"

section \<open>Decimal rendering\<close>

text \<open>\<open>to_string\<close> and \<open>{}\<close> on unsigned integers.\<close>

fun show_nat :: "nat \<Rightarrow> string" where
  "show_nat n = (if n < 10 then [char_of (48 + n)]
                 else show_nat (n div 10) @ [char_of (48 + n mod 10)])"

declare show_nat.simps [simp del]

text \<open>Reading the digits back, the inverse of \<open>show_nat\<close>.\<close>

definition read_nat :: "string \<Rightarrow> nat" where
  "read_nat s = foldl (\<lambda>a c. 10 * a + (of_char c - 48)) 0 s"

lemma read_nat_snoc: "read_nat (s @ [c]) = 10 * read_nat s + (of_char c - 48)"
  by (simp add: read_nat_def)

lemma read_show_nat [simp]: "read_nat (show_nat n) = n"
proof (induction n rule: show_nat.induct)
  case (1 n)
  show ?case
  proof (cases "n < 10")
    case True
    then show ?thesis
      by (subst show_nat.simps) (simp add: read_nat_def)
  next
    case False
    with 1 have "read_nat (show_nat (n div 10)) = n div 10" by simp
    with False show ?thesis
      by (subst show_nat.simps) (simp add: read_nat_snoc)
  qed
qed

lemma show_nat_eq_iff [simp]: "show_nat m = show_nat n \<longleftrightarrow> m = n"
  by (metis read_show_nat)

section \<open>Hash maps as association lists\<close>

type_synonym ('k, 'v) hashmap = "('k \<times> 'v) list"

text \<open>Keys are distinct: what \<open>HashMap\<close> guarantees of its entries.\<close>

definition hm_wf :: "('k, 'v) hashmap \<Rightarrow> bool" where
  "hm_wf m \<longleftrightarrow> distinct (map fst m)"

lemma hm_wf_Nil [simp]: "hm_wf []"
  by (simp add: hm_wf_def)

lemma hm_wf_update [simp]: "hm_wf m \<Longrightarrow> hm_wf (AList.update k v m)"
  by (simp add: hm_wf_def distinct_update)

lemma hm_wf_delete [simp]: "hm_wf m \<Longrightarrow> hm_wf (AList.delete k m)"
  by (simp add: hm_wf_def distinct_delete)

lemma hm_wf_filter [simp]: "hm_wf m \<Longrightarrow> hm_wf (filter P m)"
  by (auto simp: hm_wf_def distinct_map intro: inj_on_subset)

lemma map_of_hm_update [simp]:
  "map_of (AList.update k v m) k' = (if k' = k then Some v else map_of m k')"
  by (simp add: update_conv')

lemma map_of_hm_delete [simp]:
  "map_of (AList.delete k m) k' = (if k' = k then None else map_of m k')"
  by (auto simp: delete_conv')

lemma length_hm_update:
  "length (AList.update k v m) = (if map_of m k = None then Suc (length m) else length m)"
  by (induction m) auto

lemma map_of_filter_hm:
  "hm_wf m \<Longrightarrow> map_of (filter (\<lambda>(k, v). P k v) m) k =
     (case map_of m k of None \<Rightarrow> None | Some v \<Rightarrow> if P k v then Some v else None)"
  by (induction m) (auto simp: hm_wf_def map_of_eq_None_iff split: option.splits dest: map_of_SomeD)

lemma map_of_rev_hm: "hm_wf m \<Longrightarrow> map_of (rev m) = map_of m"
  by (subst map_of_inject_set) (simp_all add: hm_wf_def flip: rev_map)

end
