(* ===== verification/Errors.thy ===== *)
theory Errors
  imports Polku_Prelude
begin

text \<open>
  The error types of \<open>gateway/src/error.rs\<close> and the conversions between them. A gRPC
  status is what \<open>tonic::Status\<close> carries in this code: a code and a message. The payloads
  of \<open>PolkuError::Transport\<close> and \<open>PolkuError::Io\<close> are errors of other libraries of which the code
  uses only their \<open>to_string()\<close>: the constructors hold that text. The rendering of a status
  is not in the sources and is the parameter \<open>show_status\<close>.
\<close>

datatype status_code =
    Ok_code | Cancelled | Unknown | InvalidArgument | DeadlineExceeded | NotFound
  | AlreadyExists | PermissionDenied | ResourceExhausted | FailedPrecondition | Aborted
  | OutOfRange | Unimplemented | Internal | Unavailable | DataLoss | Unauthenticated

record status =
  code :: status_code
  status_message :: string

definition mk_status :: "status_code \<Rightarrow> string \<Rightarrow> status" where
  "mk_status c m = \<lparr>code = c, status_message = m\<rparr>"

datatype PolkuError =
    Config_error string
  | Transport string
  | Grpc status
  | Plugin string string
  | BufferFull nat
  | Io string
  | Serialization string
  | Metrics_error string
  | Shutdown_requested

datatype PluginError =
    Init string
  | Transform_failed string
  | Send string
  | Connection string
  | NotReady
  | Shutdown_error string

fun plugin_error_to_string :: "PluginError \<Rightarrow> string" where
  "plugin_error_to_string (Init m) = ''initialization failed: '' @ m"
| "plugin_error_to_string (Transform_failed m) = ''transform failed: '' @ m"
| "plugin_error_to_string (Send m) = ''send failed: '' @ m"
| "plugin_error_to_string (Connection m) = ''connection error: '' @ m"
| "plugin_error_to_string NotReady = ''plugin not ready''"
| "plugin_error_to_string (Shutdown_error m) = ''shutdown error: '' @ m"

fun polku_error_to_string :: "(status \<Rightarrow> string) \<Rightarrow> PolkuError \<Rightarrow> string" where
  "polku_error_to_string show_status (Config_error m) = ''configuration error: '' @ m"
| "polku_error_to_string show_status (Transport m) = ''transport error: '' @ m"
| "polku_error_to_string show_status (Grpc s) = ''gRPC error: '' @ show_status s"
| "polku_error_to_string show_status (Plugin p m) =
     ''plugin '' @ [CHR 0x27] @ p @ [CHR 0x27] @ '' error: '' @ m"
| "polku_error_to_string show_status (BufferFull n) =
     ''buffer full, dropped '' @ show_nat n @ '' events''"
| "polku_error_to_string show_status (Io m) = ''IO error: '' @ m"
| "polku_error_to_string show_status (Serialization m) = ''serialization error: '' @ m"
| "polku_error_to_string show_status (Metrics_error m) = ''metrics error: '' @ m"
| "polku_error_to_string show_status Shutdown_requested = ''shutdown requested''"

definition polku_error_from_plugin_error :: "PluginError \<Rightarrow> PolkuError" where
  "polku_error_from_plugin_error err = Plugin ''unknown'' (plugin_error_to_string err)"

fun status_from_polku_error :: "PolkuError \<Rightarrow> status" where
  "status_from_polku_error (Config_error msg) = mk_status InvalidArgument msg"
| "status_from_polku_error (Transport e) = mk_status Unavailable e"
| "status_from_polku_error (Grpc status) = status"
| "status_from_polku_error (Plugin plugin message) =
     mk_status Internal (''plugin '' @ [CHR 0x27] @ plugin @ [CHR 0x27] @ '': '' @ message)"
| "status_from_polku_error (BufferFull n) =
     mk_status ResourceExhausted (''buffer full, dropped '' @ show_nat n @ '' events'')"
| "status_from_polku_error (Io e) = mk_status Internal e"
| "status_from_polku_error (Serialization msg) = mk_status InvalidArgument msg"
| "status_from_polku_error (Metrics_error msg) = mk_status Internal (''metrics: '' @ msg)"
| "status_from_polku_error Shutdown_requested = mk_status Unavailable ''shutting down''"

text \<open>
  The results of fallible operations: \<open>Inl\<close> is \<open>Err\<close> and \<open>Inr\<close> is \<open>Ok\<close>.
\<close>

type_synonym plugin_result = "PluginError + unit"

abbreviation Ok_unit :: plugin_result where
  "Ok_unit \<equiv> Inr ()"

definition is_ok :: "'e + 'a \<Rightarrow> bool" where
  "is_ok r = (case r of Inl _ \<Rightarrow> False | Inr _ \<Rightarrow> True)"

lemma is_ok_simps [simp]: "is_ok (Inr x)" "\<not> is_ok (Inl e)"
  by (simp_all add: is_ok_def)

lemma is_ok_unit_iff: "is_ok (r :: plugin_result) \<longleftrightarrow> r = Ok_unit"
  by (cases r) simp_all

lemma not_is_ok_iff: "\<not> is_ok r \<longleftrightarrow> (\<exists>e. r = Inl e)"
  by (cases r) simp_all

end
