(* ===== verification/Messages.thy ===== *)
theory Messages
  imports Errors
begin

text \<open>
  The message envelope of \<open>gateway/src/message.rs\<close> and the wire types of
  \<open>gateway/src/proto/polku.v1.rs\<close>, with the conversions between \<open>Message\<close> and \<open>Event\<close>.
  Payloads are lists of bytes; a HOL \<open>char\<close> is a byte. The identifier that \<open>ulid\<close> makes
  and the wall clock that \<open>chrono\<close> reads are arguments.
\<close>

type_synonym bytes = "char list"

section \<open>Wire types\<close>

record Event =
  ev_id :: string
  timestamp_unix_ns :: i64
  ev_source :: string
  event_type :: string
  ev_metadata :: "string \<rightharpoonup> string"
  ev_payload :: bytes
  ev_route_to :: "string list"

record RawPayload =
  raw_data :: bytes
  raw_format :: string

record EventPayload =
  payload_events :: "Event list"

datatype batch_payload = Batch_Raw RawPayload | Batch_Events EventPayload

record IngestBatch =
  batch_source :: string
  batch_cluster :: string
  batch_body :: "batch_payload option"

datatype event_payload = Event_Raw bytes | Event_Event Event

record IngestEvent =
  ie_source :: string
  ie_cluster :: string
  ie_format :: string
  ie_payload :: "event_payload option"

record AckError =
  ack_error_event_id :: string
  ack_error_code :: string
  ack_error_message :: string

record Ack =
  event_ids :: "string list"
  errors :: "AckError list"
  ack_buffer_size :: i64
  ack_buffer_capacity :: i64

record ComponentHealth =
  component_healthy :: bool
  component_message :: string

record HealthResponse =
  resp_healthy :: bool
  components :: "string \<rightharpoonup> ComponentHealth"
  uptime_seconds :: i64
  resp_events_processed :: u64

section \<open>The message envelope\<close>

record Message =
  msg_id :: string
  timestamp :: i64
  source :: string
  message_type :: string
  metadata :: "string \<rightharpoonup> string"
  payload :: bytes
  route_to :: "string list"

definition message_new :: "string \<Rightarrow> i64 option \<Rightarrow> string \<Rightarrow> string \<Rightarrow> bytes \<Rightarrow> Message" where
  "message_new ulid now_nanos src ty p =
     \<lparr>msg_id = ulid,
      timestamp = (case now_nanos of None \<Rightarrow> 0 | Some t \<Rightarrow> t),
      source = src, message_type = ty, metadata = Map.empty, payload = p, route_to = []\<rparr>"

definition message_with_id :: "string \<Rightarrow> i64 \<Rightarrow> string \<Rightarrow> string \<Rightarrow> bytes \<Rightarrow> Message" where
  "message_with_id i ts src ty p =
     \<lparr>msg_id = i, timestamp = ts, source = src, message_type = ty,
      metadata = Map.empty, payload = p, route_to = []\<rparr>"

definition with_metadata :: "Message \<Rightarrow> string \<Rightarrow> string \<Rightarrow> Message" where
  "with_metadata m k v = m\<lparr>metadata := (metadata m)(k \<mapsto> v)\<rparr>"

definition with_routes :: "Message \<Rightarrow> string list \<Rightarrow> Message" where
  "with_routes m routes = m\<lparr>route_to := routes\<rparr>"

definition should_route_to :: "Message \<Rightarrow> string \<Rightarrow> bool" where
  "should_route_to m output_name \<longleftrightarrow>
     route_to m = [] \<or> list_ex (\<lambda>r. r = output_name) (route_to m)"

text \<open>
  \<open>std::str::from_utf8\<close>: the well-formed byte sequences of UTF-8, with overlong forms,
  surrogates and values above \<open>10FFFF\<close> excluded.
\<close>

definition in_range :: "nat \<Rightarrow> nat \<Rightarrow> char \<Rightarrow> bool" where
  "in_range lo hi c \<longleftrightarrow> lo \<le> (of_char c :: nat) \<and> (of_char c :: nat) \<le> hi"

definition continuation :: "char \<Rightarrow> bool" where
  "continuation = in_range 0x80 0xBF"

fun utf8_valid :: "bytes \<Rightarrow> bool" where
  "utf8_valid [] = True"
| "utf8_valid (a # as) =
     (if in_range 0 0x7F a then utf8_valid as
      else (case as of
         [] \<Rightarrow> False
       | b # bs \<Rightarrow>
           if in_range 0xC2 0xDF a then continuation b \<and> utf8_valid bs
           else (case bs of
              [] \<Rightarrow> False
            | c # cs \<Rightarrow>
                if in_range 0xE0 0xE0 a then in_range 0xA0 0xBF b \<and> continuation c \<and> utf8_valid cs
                else if in_range 0xED 0xED a then in_range 0x80 0x9F b \<and> continuation c \<and> utf8_valid cs
                else if in_range 0xE1 0xEF a then continuation b \<and> continuation c \<and> utf8_valid cs
                else (case cs of
                   [] \<Rightarrow> False
                 | d # ds \<Rightarrow>
                     (if in_range 0xF0 0xF0 a then in_range 0x90 0xBF b
                      else if in_range 0xF1 0xF3 a then continuation b
                      else in_range 0xF4 0xF4 a \<and> in_range 0x80 0x8F b)
                     \<and> continuation c \<and> continuation d \<and> utf8_valid ds))))"

definition payload_str :: "Message \<Rightarrow> string option" where
  "payload_str m = (if utf8_valid (payload m) then Some (payload m) else None)"

definition payload_len :: "Message \<Rightarrow> nat" where
  "payload_len m = length (payload m)"

section \<open>Conversions\<close>

definition message_from_event :: "Event \<Rightarrow> Message" where
  "message_from_event event =
     \<lparr>msg_id = ev_id event, timestamp = timestamp_unix_ns event, source = ev_source event,
      message_type = event_type event, metadata = ev_metadata event,
      payload = ev_payload event, route_to = ev_route_to event\<rparr>"

definition event_from_message :: "Message \<Rightarrow> Event" where
  "event_from_message msg =
     \<lparr>ev_id = msg_id msg, timestamp_unix_ns = timestamp msg, ev_source = source msg,
      event_type = message_type msg, ev_metadata = metadata msg,
      ev_payload = payload msg, ev_route_to = route_to msg\<rparr>"

lemma message_of_event_of_message [simp]: "message_from_event (event_from_message m) = m"
  by (simp add: message_from_event_def event_from_message_def)

lemma event_of_message_of_event [simp]: "event_from_message (message_from_event e) = e"
  by (simp add: message_from_event_def event_from_message_def)

lemma inj_event_from_message [simp]: "event_from_message m = event_from_message m' \<longleftrightarrow> m = m'"
  by (metis message_of_event_of_message)

lemma ev_route_to_from_message [simp]: "ev_route_to (event_from_message m) = route_to m"
  by (simp add: event_from_message_def)

lemma ev_id_from_message [simp]: "ev_id (event_from_message m) = msg_id m"
  by (simp add: event_from_message_def)

lemma msg_id_from_event [simp]: "msg_id (message_from_event e) = ev_id e"
  by (simp add: message_from_event_def)

text \<open>
  The routing test that the delivery loops apply to an event, and its agreement with
  \<open>Message::should_route_to\<close>.
\<close>

definition event_routed_to :: "string \<Rightarrow> Event \<Rightarrow> bool" where
  "event_routed_to name e \<longleftrightarrow> ev_route_to e = [] \<or> list_ex (\<lambda>r. r = name) (ev_route_to e)"

lemma event_routed_to_iff: "event_routed_to name e \<longleftrightarrow> ev_route_to e = [] \<or> name \<in> set (ev_route_to e)"
  by (auto simp: event_routed_to_def list_ex_iff)

lemma should_route_to_iff: "should_route_to m name \<longleftrightarrow> route_to m = [] \<or> name \<in> set (route_to m)"
  by (auto simp: should_route_to_def list_ex_iff)

lemma event_routed_to_from_message [simp]:
  "event_routed_to name (event_from_message m) = should_route_to m name"
  by (simp add: event_routed_to_iff should_route_to_iff)

text \<open>Small concrete messages, for the examples of the component theories.\<close>

abbreviation sample_message :: "string \<Rightarrow> Message" where
  "sample_message i \<equiv> message_with_id i 0 ''svc'' ''evt'' []"

lemma utf8_valid_ascii: "list_all (in_range 0 0x7F) p \<Longrightarrow> utf8_valid p"
  by (induction p) auto

end
