(* ===== verification/Fifo.thy ===== *)
theory Fifo
  imports Polku_Prelude "HOL-Library.Sublist"
begin

text \<open>
  Bounded queues that evict their oldest element when they are full. The loop of
  \<open>RingBuffer::push\<close>, which \<open>FailureBuffer::push\<close> repeats, is \<open>evict_push\<close>. The locale
  \<open>evicting_fifo\<close> is the interface the clients of the two buffers rely on; its abstract
  specification is a log of everything ever pushed with a mark below which the elements
  are gone (\<open>log_push\<close>, \<open>log_drain\<close>).
\<close>

section \<open>The eviction loop\<close>

text \<open>\<open>VecDeque::pop_front\<close> on an empty queue removes nothing, as \<open>tl []\<close> does.\<close>

fun evict_push :: "nat \<Rightarrow> 'a list \<Rightarrow> nat \<Rightarrow> 'a list \<Rightarrow> 'a list \<times> nat" where
  "evict_push capacity buffer dropped [] = (buffer, dropped)"
| "evict_push capacity buffer dropped (msg # messages) =
     (if capacity \<le> length buffer
      then evict_push capacity (tl buffer @ [msg]) (dropped + 1) messages
      else evict_push capacity (buffer @ [msg]) dropped messages)"

lemma evict_push_eq:
  assumes "0 < c" and "length q \<le> c"
  shows "evict_push c q d xs =
    (drop (length q + length xs - c) (q @ xs), d + (length q + length xs - c))"
  using assms
proof (induction xs arbitrary: q d)
  case Nil
  then show ?case by simp
next
  case (Cons x xs)
  show ?case
  proof (cases "c \<le> length q")
    case True
    with Cons.prems obtain y ys where q: "q = y # ys" and c: "c = Suc (length ys)"
      by (cases q) auto
    have "evict_push c (ys @ [x]) (d + 1) xs = (drop (length xs) (ys @ x # xs), d + 1 + length xs)"
      using Cons.IH [of "ys @ [x]" "d + 1"] unfolding c by (simp del: drop_append)
    then show ?thesis unfolding q c by (simp del: drop_append)
  next
    case False
    with Cons.IH [of "q @ [x]" d] Cons.prems show ?thesis by (simp del: drop_append)
  qed
qed

text \<open>With capacity zero the loop still keeps the last element.\<close>

lemma evict_push_zero:
  "length q \<le> 1 \<Longrightarrow> xs \<noteq> [] \<Longrightarrow> evict_push 0 q d xs = ([last xs], d + length xs)"
proof (induction xs arbitrary: q d)
  case Nil
  then show ?case by simp
next
  case (Cons x xs)
  then have "tl q = []" by (cases q) auto
  with Cons show ?case by (cases "xs = []") auto
qed

section \<open>Runs of a queue and its specification as a log\<close>

datatype 'a fifo_op = Fifo_Push "'a list" | Fifo_Drain nat

text \<open>A run returns everything that was drained, in order, and the final queue.\<close>

fun fifo_run ::
    "('a list \<Rightarrow> 'q \<Rightarrow> 'q) \<Rightarrow> (nat \<Rightarrow> 'q \<Rightarrow> 'a list \<times> 'q) \<Rightarrow> 'q \<Rightarrow> 'a fifo_op list \<Rightarrow> 'a list \<times> 'q"
  where
  "fifo_run push drain q [] = ([], q)"
| "fifo_run push drain q (Fifo_Push xs # ops) = fifo_run push drain (push xs q) ops"
| "fifo_run push drain q (Fifo_Drain n # ops) =
     (let (out, q1) = drain n q; (outs, q2) = fifo_run push drain q1 ops in (out @ outs, q2))"

fun pushed :: "'a fifo_op list \<Rightarrow> 'a list" where
  "pushed [] = []"
| "pushed (Fifo_Push xs # ops) = xs @ pushed ops"
| "pushed (Fifo_Drain n # ops) = pushed ops"

text \<open>
  The specification: \<open>log\<close> holds every element ever pushed; the elements from position
  \<open>k\<close> on are in the queue.
\<close>

fun log_push :: "nat \<Rightarrow> 'a list \<Rightarrow> 'a list \<times> nat \<Rightarrow> 'a list \<times> nat" where
  "log_push c xs (log, k) = (log @ xs, max k (length log + length xs - c))"

fun log_drain :: "nat \<Rightarrow> 'a list \<times> nat \<Rightarrow> 'a list \<times> ('a list \<times> nat)" where
  "log_drain n (log, k) = (take n (drop k log), (log, min (k + n) (length log)))"

lemma log_run_log:
  "fst (snd (fifo_run (log_push c) log_drain (log, k) ops)) = log @ pushed ops"
  by (induction ops arbitrary: log k rule: pushed.induct) (simp_all add: case_prod_beta Let_def)

lemma subseq_drop_mono: "k \<le> k' \<Longrightarrow> subseq (drop k' xs) (drop k xs)"
  by (metis drop_drop le_add_diff_inverse2 suffix_drop suffix_imp_subseq)

lemma drop_take_split:
  assumes "k \<le> length log"
  shows "drop k (log @ ys) = take n (drop k log) @ drop (min (k + n) (length log)) (log @ ys)"
proof -
  have "drop k (log @ ys) = drop k log @ ys" using assms by simp
  also have "\<dots> = take n (drop k log) @ drop n (drop k log) @ ys"
    by (metis append.assoc append_take_drop_id)
  also have "drop n (drop k log) @ ys = drop (min (k + n) (length log)) (log @ ys)"
    by (auto simp: min_def add.commute)
  finally show ?thesis .
qed

lemma log_run_subseq:
  "k \<le> length log \<Longrightarrow>
   subseq (fst (fifo_run (log_push c) log_drain (log, k) ops)) (drop k (log @ pushed ops))"
proof (induction ops arbitrary: log k rule: pushed.induct)
  case 1
  then show ?case by simp
next
  case (2 xs ops)
  let ?k = "max k (length log + length xs - c)"
  have "subseq (fst (fifo_run (log_push c) log_drain (log @ xs, ?k) ops))
               (drop ?k ((log @ xs) @ pushed ops))"
    using 2 by (intro "2.IH") simp
  also have "subseq \<dots> (drop k ((log @ xs) @ pushed ops))"
    by (rule subseq_drop_mono) simp
  finally show ?case by (simp del: drop_append)
next
  case (3 n ops)
  let ?k = "min (k + n) (length log)"
  have "subseq (fst (fifo_run (log_push c) log_drain (log, ?k) ops)) (drop ?k (log @ pushed ops))"
    by (intro "3.IH") simp
  then have "subseq (take n (drop k log) @ fst (fifo_run (log_push c) log_drain (log, ?k) ops))
                    (take n (drop k log) @ drop ?k (log @ pushed ops))"
    by (simp add: list_emb_append_mono del: drop_append)
  with drop_take_split [OF "3.prems"] show ?case
    by (simp add: case_prod_beta Let_def del: drop_append)
qed

text \<open>Nothing is lost as long as everything pushed fits.\<close>

lemma log_run_lossless:
  assumes "k \<le> length log" and "length log - k + length (pushed ops) \<le> c"
    and "fifo_run (log_push c) log_drain (log, k) ops = (outs, log', k')"
  shows "outs @ drop k' log' = drop k log @ pushed ops"
  using assms
proof (induction ops arbitrary: log k outs rule: pushed.induct)
  case 1
  then show ?case by simp
next
  case (2 xs ops)
  then have "max k (length log + length xs - c) = k" by simp
  with 2 have "outs @ drop k' log' = drop k (log @ xs) @ pushed ops"
    by (intro "2.IH") (auto simp del: drop_append)
  with "2.prems" show ?case by simp
next
  case (3 n ops)
  let ?k = "min (k + n) (length log)"
  from "3.prems" obtain outs' where
      run: "fifo_run (log_push c) log_drain (log, ?k) ops = (outs', log', k')"
    and outs: "outs = take n (drop k log) @ outs'"
    by (auto split: prod.splits)
  from "3.prems" have "outs' @ drop k' log' = drop ?k log @ pushed ops"
    by (intro "3.IH" [OF _ _ run]) auto
  moreover have "drop ?k log = drop n (drop k log)"
    by (auto simp: min_def add.commute)
  moreover have "take n (drop k log) @ drop n (drop k log) = drop k log"
    by (rule append_take_drop_id)
  ultimately show ?case
    by (simp only: outs pushed.simps append.assoc) (simp only: append.assoc [symmetric])
qed

section \<open>The interface\<close>

locale evicting_fifo =
  fixes contents :: "'q \<Rightarrow> 'a list"
    and cap :: "'q \<Rightarrow> nat"
    and push :: "'a list \<Rightarrow> 'q \<Rightarrow> 'q"
    and drain :: "nat \<Rightarrow> 'q \<Rightarrow> 'a list \<times> 'q"
  assumes cap_push: "cap (push xs q) = cap q"
    and cap_drain: "cap (snd (drain n q)) = cap q"
    and contents_push: "0 < cap q \<Longrightarrow> length (contents q) \<le> cap q \<Longrightarrow>
      contents (push xs q) = drop (length (contents q) + length xs - cap q) (contents q @ xs)"
    and drained: "fst (drain n q) = take n (contents q)"
    and contents_drain: "contents (snd (drain n q)) = drop n (contents q)"
begin

lemma bounded_push:
  "0 < cap q \<Longrightarrow> length (contents q) \<le> cap q \<Longrightarrow> length (contents (push xs q)) \<le> cap q"
  by (simp add: contents_push del: drop_append)

lemma bounded_drain: "length (contents q) \<le> cap q \<Longrightarrow> length (contents (snd (drain n q))) \<le> cap q"
  by (simp add: contents_drain)

text \<open>Simulation by the log: same outputs, and the queue is the live part of the log.\<close>

lemma refines_log:
  assumes "0 < cap q" and "length (contents q) \<le> cap q"
    and "k \<le> length log" and "contents q = drop k log"
  shows "\<exists>log' k'. fifo_run (log_push (cap q)) log_drain (log, k) ops =
           (fst (fifo_run push drain q ops), log', k') \<and>
         contents (snd (fifo_run push drain q ops)) = drop k' log' \<and>
         cap (snd (fifo_run push drain q ops)) = cap q \<and>
         k' \<le> length log' \<and> length log' - k' \<le> cap q"
  using assms
proof (induction ops arbitrary: q log k rule: pushed.induct)
  case 1
  then show ?case by auto
next
  case (2 xs ops)
  let ?k = "max k (length log + length xs - cap q)"
  have "drop (length (contents q) + length xs - cap q) (drop k (log @ xs)) = drop ?k (log @ xs)"
    unfolding drop_drop using "2.prems"
    by (intro arg_cong [where f = "\<lambda>m. drop m (log @ xs)"]) (auto simp: max_def)
  then have "contents (push xs q) = drop ?k (log @ xs)"
    using "2.prems" contents_push [of q xs] by simp
  moreover have "?k \<le> length (log @ xs)" using "2.prems" by simp
  ultimately show ?case
    using "2.IH" [of "push xs q" ?k "log @ xs"] "2.prems" bounded_push [of q xs]
    by (simp add: cap_push)
next
  case (3 n ops)
  let ?k = "min (k + n) (length log)"
  have "contents (snd (drain n q)) = drop ?k log"
    using "3.prems" by (auto simp: contents_drain min_def add.commute)
  then obtain log' k' where
    "fifo_run (log_push (cap q)) log_drain (log, ?k) ops =
       (fst (fifo_run push drain (snd (drain n q)) ops), log', k') \<and>
     contents (snd (fifo_run push drain (snd (drain n q)) ops)) = drop k' log' \<and>
     cap (snd (fifo_run push drain (snd (drain n q)) ops)) = cap q \<and>
     k' \<le> length log' \<and> length log' - k' \<le> cap q"
    using "3.IH" [of "snd (drain n q)" ?k log] "3.prems" bounded_drain [of q n]
    by (auto simp: cap_drain)
  with "3.prems" drained [of n q] show ?case
    by (auto simp: case_prod_beta Let_def)
qed

text \<open>What comes out of a run is what went in, in order, with gaps only at evictions.\<close>

lemma run_subseq:
  assumes "0 < cap q" and "length (contents q) \<le> cap q"
  shows "subseq (fst (fifo_run push drain q ops)) (contents q @ pushed ops)"
proof -
  obtain log' k' where "fifo_run (log_push (cap q)) log_drain (contents q, 0) ops =
      (fst (fifo_run push drain q ops), log', k')"
    using refines_log [OF assms, of 0 "contents q" ops] by auto
  with log_run_subseq [of 0 "contents q" "cap q" ops] show ?thesis by simp
qed

lemma run_lossless:
  assumes "0 < cap q" and "length (contents q) + length (pushed ops) \<le> cap q"
  shows "fst (fifo_run push drain q ops) @ contents (snd (fifo_run push drain q ops)) =
         contents q @ pushed ops"
proof -
  have bound: "length (contents q) \<le> cap q" using assms(2) by simp
  from refines_log [OF assms(1) bound, of 0 "contents q" ops]
  obtain log' k' where run: "fifo_run (log_push (cap q)) log_drain (contents q, 0) ops =
      (fst (fifo_run push drain q ops), log', k')"
    and "contents (snd (fifo_run push drain q ops)) = drop k' log'" by auto
  with log_run_lossless [OF _ _ run] assms(2) show ?thesis by simp
qed

lemma run_bounded:
  assumes "0 < cap q" and "length (contents q) \<le> cap q"
  shows "length (contents (snd (fifo_run push drain q ops))) \<le> cap q"
  using refines_log [OF assms, of 0 "contents q" ops] by auto

end

end
