(* ===== verification/Ring_Buffer.thy ===== *)
theory Ring_Buffer
  imports Messages Fifo Complex_Main
begin

text \<open>
  The message buffer of \<open>gateway/src/buffer.rs\<close>. Each method holds the mutex for its whole
  body, so each is one state transformer on the record. The counters are \<open>AtomicU64\<close>
  values, whose \<open>fetch_add\<close> wraps. The rounding of \<open>f64\<close> operations in \<open>fill_ratio\<close> is its argument \<open>fl\<close>.
\<close>

record BufferMetrics =
  bm_pushed :: u64
  bm_dropped :: u64
  bm_drained :: u64

definition buffer_metrics_default :: BufferMetrics where
  "buffer_metrics_default = \<lparr>bm_pushed = 0, bm_dropped = 0, bm_drained = 0\<rparr>"

record RingBuffer =
  messages :: "Message list"
  rb_capacity :: nat
  rb_metrics :: BufferMetrics

definition ring_buffer_new :: "nat \<Rightarrow> RingBuffer" where
  "ring_buffer_new capacity =
     \<lparr>messages = [], rb_capacity = capacity, rb_metrics = buffer_metrics_default\<rparr>"

definition ring_buffer_push :: "Message list \<Rightarrow> RingBuffer \<Rightarrow> nat \<times> RingBuffer" where
  "ring_buffer_push msgs b =
     (let (buffer, dropped) = evict_push (rb_capacity b) (messages b) 0 msgs;
          m = rb_metrics b;
          m1 = m\<lparr>bm_pushed := bm_pushed m + of_nat (length buffer + dropped)\<rparr>;
          m2 = m1\<lparr>bm_dropped := bm_dropped m1 + of_nat dropped\<rparr>
      in (dropped, b\<lparr>messages := buffer, rb_metrics := m2\<rparr>))"

definition ring_buffer_drain :: "nat \<Rightarrow> RingBuffer \<Rightarrow> Message list \<times> RingBuffer" where
  "ring_buffer_drain n b =
     (let drain_count = min n (length (messages b));
          msgs = take drain_count (messages b);
          m = rb_metrics b
      in (msgs, b\<lparr>messages := drop drain_count (messages b),
                  rb_metrics := m\<lparr>bm_drained := bm_drained m + of_nat (length msgs)\<rparr>\<rparr>))"

definition ring_buffer_len :: "RingBuffer \<Rightarrow> nat" where
  "ring_buffer_len b = length (messages b)"

definition ring_buffer_is_empty :: "RingBuffer \<Rightarrow> bool" where
  "ring_buffer_is_empty b \<longleftrightarrow> messages b = []"

definition ring_buffer_is_full :: "RingBuffer \<Rightarrow> bool" where
  "ring_buffer_is_full b \<longleftrightarrow> rb_capacity b \<le> length (messages b)"

definition fill_ratio :: "(real \<Rightarrow> real) \<Rightarrow> RingBuffer \<Rightarrow> real" where
  "fill_ratio fl b = fl (fl (real (length (messages b))) / fl (real (rb_capacity b)))"

definition total_pushed :: "RingBuffer \<Rightarrow> u64" where
  "total_pushed b = bm_pushed (rb_metrics b)"

definition total_dropped :: "RingBuffer \<Rightarrow> u64" where
  "total_dropped b = bm_dropped (rb_metrics b)"

definition total_drained :: "RingBuffer \<Rightarrow> u64" where
  "total_drained b = bm_drained (rb_metrics b)"

section \<open>The buffer as an evicting queue\<close>

text \<open>The well-formedness of a buffer with a positive capacity.\<close>

definition rb_wf :: "RingBuffer \<Rightarrow> bool" where
  "rb_wf b \<longleftrightarrow> 0 < rb_capacity b \<and> length (messages b) \<le> rb_capacity b"

abbreviation rb_put :: "Message list \<Rightarrow> RingBuffer \<Rightarrow> RingBuffer" where
  "rb_put msgs b \<equiv> snd (ring_buffer_push msgs b)"

lemma rb_capacity_push [simp, frame]: "rb_capacity (rb_put ms b) = rb_capacity b"
  by (simp add: ring_buffer_push_def case_prod_beta Let_def)

lemma rb_capacity_drain [simp, frame]: "rb_capacity (snd (ring_buffer_drain n b)) = rb_capacity b"
  by (simp add: ring_buffer_drain_def Let_def)

text \<open>The fill ratio of a well-formed buffer lies between 0 and 1 for every monotone rounding that keeps 0 and 1.\<close>

lemma fill_ratio_bounds:
  assumes "rb_wf b" and "mono fl" and "fl 0 = 0" and "fl 1 = 1"
  shows "0 \<le> fill_ratio fl b" and "fill_ratio fl b \<le> 1"
proof -
  have "fl 1 \<le> fl (real (rb_capacity b))" "fl (real (length (messages b))) \<le> fl (real (rb_capacity b))"
    "fl 0 \<le> fl (real (length (messages b)))"
    using assms(1) by (auto simp: rb_wf_def intro!: monoD [OF assms(2)])
  then have "0 \<le> fl (real (length (messages b))) / fl (real (rb_capacity b))"
    "fl (real (length (messages b))) / fl (real (rb_capacity b)) \<le> 1"
    using assms(3,4) by simp_all
  from this [THEN monoD [OF assms(2)]] assms(3,4)
  show "0 \<le> fill_ratio fl b" "fill_ratio fl b \<le> 1" by (simp_all add: fill_ratio_def)
qed

lemma messages_push:
  "rb_wf b \<Longrightarrow>
   messages (rb_put ms b) = drop (length (messages b) + length ms - rb_capacity b) (messages b @ ms)"
  by (simp add: ring_buffer_push_def rb_wf_def evict_push_eq Let_def)

lemma dropped_push:
  "rb_wf b \<Longrightarrow> fst (ring_buffer_push ms b) = length (messages b) + length ms - rb_capacity b"
  by (simp add: ring_buffer_push_def rb_wf_def evict_push_eq Let_def)

lemma messages_drain [simp]: "messages (snd (ring_buffer_drain n b)) = drop n (messages b)"
  by (simp add: ring_buffer_drain_def Let_def min_def)

lemma drained_messages [simp]: "fst (ring_buffer_drain n b) = take n (messages b)"
  by (simp add: ring_buffer_drain_def Let_def min_def)

lemma rb_wf_new [simp]: "rb_wf (ring_buffer_new c) \<longleftrightarrow> 0 < c"
  by (simp add: rb_wf_def ring_buffer_new_def)

lemma rb_wf_push [simp]: "rb_wf b \<Longrightarrow> rb_wf (rb_put ms b)"
  using messages_push [of b ms] by (simp add: rb_wf_def del: drop_append)

lemma rb_wf_drain [simp]: "rb_wf b \<Longrightarrow> rb_wf (snd (ring_buffer_drain n b))"
  by (auto simp: rb_wf_def)

text \<open>Pushing in two parts is pushing at once, as far as the messages are concerned.\<close>

lemma messages_push_push:
  assumes "rb_wf b"
  shows "messages (rb_put ys (rb_put xs b)) = messages (rb_put (xs @ ys) b)"
proof -
  let ?k = "length (messages b) + length xs - rb_capacity b"
  have "messages (rb_put ys (rb_put xs b)) =
      drop (length (messages b) + length xs - ?k + length ys - rb_capacity b) (drop ?k ((messages b @ xs) @ ys))"
  proof -
    have "drop ?k (messages b @ xs) @ ys = drop ?k ((messages b @ xs) @ ys)" by simp
    then show ?thesis
      using messages_push [OF rb_wf_push [OF assms], of ys xs] messages_push [OF assms, of xs]
      by (simp del: drop_append)
  qed
  also have "\<dots> = drop (length (messages b) + length (xs @ ys) - rb_capacity b) ((messages b @ xs) @ ys)"
    unfolding drop_drop
    by (intro arg_cong [where f = "\<lambda>m. drop m ((messages b @ xs) @ ys)"]) auto
  also have "\<dots> = messages (rb_put (xs @ ys) b)"
    using messages_push [OF assms, of "xs @ ys"] by (simp del: drop_append)
  finally show ?thesis .
qed

lemma messages_push_one:
  assumes "rb_wf b"
  shows "messages (rb_put [m] b) = (if ring_buffer_is_full b then tl (messages b) else messages b) @ [m]"
  using messages_push [OF assms, of "[m]"] assms
  by (cases "messages b") (auto simp: ring_buffer_is_full_def rb_wf_def)

interpretation ring: evicting_fifo messages rb_capacity rb_put ring_buffer_drain
  by unfold_locales (simp_all add: messages_push rb_wf_def del: drop_append)

section \<open>Counters\<close>

lemma total_dropped_push:
  "total_dropped (rb_put ms b) = total_dropped b + of_nat (fst (ring_buffer_push ms b))"
  by (simp add: total_dropped_def ring_buffer_push_def case_prod_beta Let_def)

lemma total_drained_push: "total_drained (rb_put ms b) = total_drained b"
  by (simp add: total_drained_def ring_buffer_push_def case_prod_beta Let_def)

lemma total_dropped_drain: "total_dropped (snd (ring_buffer_drain n b)) = total_dropped b"
  by (simp add: total_dropped_def ring_buffer_drain_def Let_def)

lemma total_drained_drain:
  "total_drained (snd (ring_buffer_drain n b)) =
   total_drained b + of_nat (length (fst (ring_buffer_drain n b)))"
  by (simp add: total_drained_def ring_buffer_drain_def Let_def)

lemmas counter_steps = total_dropped_push total_drained_push total_dropped_drain total_drained_drain

lemma push_balance:
  "rb_wf b \<Longrightarrow> length (messages b) + length ms =
     length (messages (rb_put ms b)) + fst (ring_buffer_push ms b)"
  by (simp add: messages_push dropped_push rb_wf_def del: drop_append)

lemma drain_balance:
  "length (messages b) =
     length (messages (snd (ring_buffer_drain n b))) + length (fst (ring_buffer_drain n b))"
  by simp

text \<open>
  Every message that a run pushed is, at its end, in the buffer or counted once as dropped
  or once as drained.
\<close>

definition rb_balance :: "RingBuffer \<Rightarrow> u64" where
  "rb_balance b = total_dropped b + total_drained b + of_nat (length (messages b))"

lemma rb_balance_push: "rb_wf b \<Longrightarrow> rb_balance (rb_put ms b) = rb_balance b + of_nat (length ms)"
  using arg_cong [OF push_balance [of b ms], of "of_nat :: nat \<Rightarrow> u64"]
  by (simp add: rb_balance_def counter_steps algebra_simps)

lemma rb_balance_drain: "rb_balance (snd (ring_buffer_drain n b)) = rb_balance b"
  using arg_cong [OF drain_balance [of b n], of "of_nat :: nat \<Rightarrow> u64"]
  by (simp add: rb_balance_def counter_steps algebra_simps del: drained_messages messages_drain)

lemma rb_balance_run:
  "rb_wf b \<Longrightarrow> rb_balance (snd (fifo_run rb_put ring_buffer_drain b ops)) =
     rb_balance b + of_nat (length (pushed ops))"
  by (induction ops arbitrary: b rule: pushed.induct)
    (simp_all add: case_prod_beta Let_def rb_balance_push rb_balance_drain algebra_simps)

section \<open>Properties\<close>

text \<open>C5. For every sequence of pushes and drains on a new buffer of positive capacity, the
  buffer behaves as a log of all pushed messages with a moving mark: the drained messages are
  those the log delivers, in order, what is buffered is the part of the log above the mark,
  and the buffer never holds more than its capacity.\<close>

theorem ring_buffer_refines_log:
  assumes "0 < c"
  shows "\<exists>log k. fifo_run (log_push c) log_drain ([], 0) ops =
           (fst (fifo_run rb_put ring_buffer_drain (ring_buffer_new c) ops), log, k) \<and>
         messages (snd (fifo_run rb_put ring_buffer_drain (ring_buffer_new c) ops)) = drop k log \<and>
         ring_buffer_len (snd (fifo_run rb_put ring_buffer_drain (ring_buffer_new c) ops)) \<le> c"
  using ring.refines_log [of "ring_buffer_new c" 0 "[]" ops] assms
  by (auto simp: ring_buffer_new_def ring_buffer_len_def)

theorem ring_buffer_refines_log_witness:
  "\<exists>log k. fifo_run (log_push 2) log_drain ([], 0)
             [Fifo_Push [sample_message ''a'', sample_message ''b'', sample_message ''c''], Fifo_Drain 1] =
           ([sample_message ''b''], log, k) \<and> [sample_message ''c''] = drop k log"
  using ring_buffer_refines_log [of 2
      "[Fifo_Push [sample_message ''a'', sample_message ''b'', sample_message ''c''], Fifo_Drain 1]"]
  by (auto simp: ring_buffer_push_def ring_buffer_drain_def ring_buffer_new_def Let_def
      simp del: log_push.simps log_drain.simps)

text \<open>A push of any batch into a well-formed buffer keeps the newest messages up to the
  capacity, in order, and returns the number of messages it evicted; the counter of dropped
  messages grows by exactly that number and the buffer stays well-formed.\<close>

theorem ring_buffer_push_correct:
  assumes "rb_wf b"
  shows "let k = length (messages b) + length ms - rb_capacity b;
             (dropped, b') = ring_buffer_push ms b
         in dropped = k \<and> messages b' = drop k (messages b @ ms) \<and>
            total_dropped b' = total_dropped b + of_nat k \<and>
            rb_capacity b' = rb_capacity b \<and> rb_wf b'"
  using assms rb_wf_push [OF assms, of ms] messages_push [OF assms, of ms]
    dropped_push [OF assms, of ms] total_dropped_push [of ms b]
  by (simp add: case_prod_beta Let_def del: drop_append)

theorem ring_buffer_push_correct_witness:
  "let (dropped, b') = ring_buffer_push [sample_message ''a'', sample_message ''b''] (ring_buffer_new 1)
   in dropped = 1 \<and> messages b' = [sample_message ''b''] \<and> total_dropped b' = 1"
  using ring_buffer_push_correct [of "ring_buffer_new 1" "[sample_message ''a'', sample_message ''b'']"]
  by (simp add: case_prod_beta Let_def)
    (simp add: ring_buffer_new_def total_dropped_def buffer_metrics_default_def)

text \<open>Over any run of pushes and drains from a new buffer, every pushed message is
  accounted for exactly once: the dropped counter, the drained counter and the number of
  messages still buffered add up (modulo \<open>2 ^ 64\<close>, the width of the counters) to the number
  of messages pushed.\<close>

theorem ring_buffer_accounting:
  assumes "0 < c"
  shows "total_dropped (snd (fifo_run rb_put ring_buffer_drain (ring_buffer_new c) ops)) +
         total_drained (snd (fifo_run rb_put ring_buffer_drain (ring_buffer_new c) ops)) +
         of_nat (ring_buffer_len (snd (fifo_run rb_put ring_buffer_drain (ring_buffer_new c) ops))) =
         of_nat (length (pushed ops))"
  using rb_balance_run [of "ring_buffer_new c" ops] assms
  by (simp add: rb_balance_def ring_buffer_len_def)
    (simp add: ring_buffer_new_def total_dropped_def total_drained_def buffer_metrics_default_def)

theorem ring_buffer_accounting_witness:
  "total_dropped (snd (fifo_run rb_put ring_buffer_drain (ring_buffer_new 1)
       [Fifo_Push [sample_message ''a'', sample_message ''b''], Fifo_Drain 1])) +
   total_drained (snd (fifo_run rb_put ring_buffer_drain (ring_buffer_new 1)
       [Fifo_Push [sample_message ''a'', sample_message ''b''], Fifo_Drain 1])) +
   of_nat (ring_buffer_len (snd (fifo_run rb_put ring_buffer_drain (ring_buffer_new 1)
       [Fifo_Push [sample_message ''a'', sample_message ''b''], Fifo_Drain 1]))) = 2"
  using ring_buffer_accounting [of 1 "[Fifo_Push [sample_message ''a'', sample_message ''b''], Fifo_Drain 1]"]
  by (simp del: fifo_run.simps)

text \<open>The counter behind \<open>total_pushed\<close> does not count pushed messages: each push adds the
  number of messages that were already buffered on top of the number it pushed.\<close>

theorem total_pushed_recounts_buffer:
  assumes "rb_wf b"
  shows "total_pushed (rb_put ms b) =
         total_pushed b + of_nat (length ms) + of_nat (ring_buffer_len b)"
proof -
  have "total_pushed (rb_put ms b) = total_pushed b +
      of_nat (length (messages (rb_put ms b)) + fst (ring_buffer_push ms b))"
    by (simp add: total_pushed_def ring_buffer_push_def case_prod_beta Let_def)
  with push_balance [OF assms, of ms] show ?thesis
    by (simp add: ring_buffer_len_def algebra_simps flip: of_nat_add)
qed

theorem total_pushed_recounts_buffer_witness:
  "total_pushed (rb_put [sample_message ''b''] (rb_put [sample_message ''a''] (ring_buffer_new 10))) = 3"
  using total_pushed_recounts_buffer [of "rb_put [sample_message ''a''] (ring_buffer_new 10)" "[sample_message ''b'']"]
  by (simp add: total_pushed_def ring_buffer_len_def ring_buffer_push_def ring_buffer_new_def
      buffer_metrics_default_def)

end
