(* ===== verification/Circuit_Breaker.thy ===== *)
theory Circuit_Breaker
  imports Errors
begin

text \<open>
  The circuit breaker of \<open>gateway/src/emit/resilience/circuit_breaker.rs\<close>. The cell is what
  a \<open>CircuitBreakerEmitter\<close> owns beside its inner emitter: the state behind the \<open>RwLock\<close>
  and the two counters. The three functions that take the write lock,
  \<open>should_allow_request\<close>, \<open>record_success\<close> and \<open>record_failure\<close>, are each atomic; the
  relation \<open>cb_step\<close> interleaves them for any number of concurrent emissions. The emission
  itself, which runs the inner emitter between them, is in the theory of the wrappers.
\<close>

section \<open>State and configuration\<close>

datatype CircuitState = Closed | Open | HalfOpen

record CircuitBreakerConfig =
  failure_threshold :: u32
  success_threshold :: u32
  reset_timeout :: nat
  half_open_max_requests :: u32

definition circuit_breaker_config_default :: CircuitBreakerConfig where
  "circuit_breaker_config_default =
     \<lparr>failure_threshold = 5, success_threshold = 2, reset_timeout = 30 * 10 ^ 9,
      half_open_max_requests = 1\<rparr>"

record CircuitBreakerState =
  cb_state :: CircuitState
  consecutive_failures :: u32
  consecutive_successes :: u32
  last_failure_time :: "nat option"
  half_open_requests :: u32

definition circuit_breaker_state_new :: CircuitBreakerState where
  "circuit_breaker_state_new =
     \<lparr>cb_state = Closed, consecutive_failures = 0, consecutive_successes = 0,
      last_failure_time = None, half_open_requests = 0\<rparr>"

record BreakerCell =
  breaker :: CircuitBreakerState
  open_count :: u64
  rejected_count :: u64

definition breaker_cell_new :: BreakerCell where
  "breaker_cell_new = \<lparr>breaker = circuit_breaker_state_new, open_count = 0, rejected_count = 0\<rparr>"

definition current_state :: "BreakerCell \<Rightarrow> CircuitState" where
  "current_state c = cb_state (breaker c)"

section \<open>The critical sections\<close>

definition reject :: "BreakerCell \<Rightarrow> bool \<times> BreakerCell" where
  "reject c = (False, c\<lparr>rejected_count := rejected_count c + 1\<rparr>)"

text \<open>\<open>now\<close> is the reading of the monotonic clock inside the critical section.\<close>

definition should_allow_request ::
    "CircuitBreakerConfig \<Rightarrow> nat \<Rightarrow> BreakerCell \<Rightarrow> bool \<times> BreakerCell" where
  "should_allow_request cfg now c =
     (let s = breaker c in
      case cb_state s of
        Closed \<Rightarrow> (True, c)
      | Open \<Rightarrow>
          (case last_failure_time s of
             Some last_failure \<Rightarrow>
               if reset_timeout cfg \<le> now - last_failure
               then (True, c\<lparr>breaker := s\<lparr>cb_state := HalfOpen, half_open_requests := 1,
                                           consecutive_successes := 0\<rparr>\<rparr>)
               else reject c
           | None \<Rightarrow> reject c)
      | HalfOpen \<Rightarrow>
          if half_open_requests s < half_open_max_requests cfg
          then (True, c\<lparr>breaker := s\<lparr>half_open_requests := half_open_requests s + 1\<rparr>\<rparr>)
          else reject c)"

definition record_success :: "CircuitBreakerConfig \<Rightarrow> BreakerCell \<Rightarrow> BreakerCell" where
  "record_success cfg c =
     (let s = (breaker c)\<lparr>consecutive_failures := 0\<rparr> in
      if cb_state s = HalfOpen
      then (let s1 = s\<lparr>consecutive_successes := consecutive_successes s + 1\<rparr> in
            if success_threshold cfg \<le> consecutive_successes s1
            then c\<lparr>breaker := s1\<lparr>cb_state := Closed, half_open_requests := 0\<rparr>\<rparr>
            else c\<lparr>breaker := s1\<rparr>)
      else c\<lparr>breaker := s\<rparr>)"

definition record_failure :: "CircuitBreakerConfig \<Rightarrow> nat \<Rightarrow> BreakerCell \<Rightarrow> BreakerCell" where
  "record_failure cfg now c =
     (let s = (breaker c)\<lparr>consecutive_successes := 0,
                          consecutive_failures := consecutive_failures (breaker c) + 1,
                          last_failure_time := Some now\<rparr> in
      case cb_state s of
        Closed \<Rightarrow>
          if failure_threshold cfg \<le> consecutive_failures s
          then c\<lparr>breaker := s\<lparr>cb_state := Open\<rparr>, open_count := open_count c + 1\<rparr>
          else c\<lparr>breaker := s\<rparr>
      | HalfOpen \<Rightarrow>
          c\<lparr>breaker := s\<lparr>cb_state := Open, half_open_requests := 0\<rparr>, open_count := open_count c + 1\<rparr>
      | Open \<Rightarrow> c\<lparr>breaker := s\<rparr>)"

lemmas breaker_ops =
  should_allow_request_def record_success_def record_failure_def reject_def Let_def

section \<open>Invariant\<close>

text \<open>
  What the critical sections keep true of a cell: an open circuit knows when it failed last
  (so it can time out), probes are counted only in the half-open state and never beyond the
  configured number (or the single probe of the transition), and the two consecutive
  counters stay below the thresholds that end their state.
\<close>

definition breaker_inv :: "CircuitBreakerConfig \<Rightarrow> BreakerCell \<Rightarrow> bool" where
  "breaker_inv cfg c \<longleftrightarrow>
     (let s = breaker c in
      case cb_state s of
        Closed \<Rightarrow> half_open_requests s = 0 \<and>
                  (consecutive_failures s = 0 \<or> consecutive_failures s < failure_threshold cfg)
      | Open \<Rightarrow> half_open_requests s = 0 \<and> last_failure_time s \<noteq> None
      | HalfOpen \<Rightarrow> 1 \<le> half_open_requests s \<and>
                    (half_open_requests s = 1 \<or> half_open_requests s \<le> half_open_max_requests cfg) \<and>
                    (consecutive_successes s = 0 \<or> consecutive_successes s < success_threshold cfg))"

lemma breaker_inv_new [simp]: "breaker_inv cfg breaker_cell_new"
  by (simp add: breaker_inv_def breaker_cell_new_def circuit_breaker_state_new_def)

lemma breaker_inv_counters [simp]:
  "breaker_inv cfg (c\<lparr>rejected_count := r\<rparr>) = breaker_inv cfg c"
  "breaker_inv cfg (c\<lparr>open_count := n\<rparr>) = breaker_inv cfg c"
  by (simp_all add: breaker_inv_def)

lemma breaker_inv_allow:
  "breaker_inv cfg c \<Longrightarrow> breaker_inv cfg (snd (should_allow_request cfg now c))"
  by (cases "cb_state (breaker c)")
    (auto simp: breaker_inv_def breaker_ops inc_le inc_i split: option.splits)

lemma breaker_inv_success: "breaker_inv cfg c \<Longrightarrow> breaker_inv cfg (record_success cfg c)"
  by (cases "cb_state (breaker c)") (auto simp: breaker_inv_def breaker_ops not_le)

lemma breaker_inv_failure: "breaker_inv cfg c \<Longrightarrow> breaker_inv cfg (record_failure cfg now c)"
  by (cases "cb_state (breaker c)") (auto simp: breaker_inv_def breaker_ops not_le)

lemmas breaker_inv_steps = breaker_inv_allow breaker_inv_success breaker_inv_failure

section \<open>Interleaved emissions\<close>

text \<open>
  Any number of emissions run at once. Each passes \<open>should_allow_request\<close> (a step
  \<open>Admit\<close> or \<open>Reject\<close>), runs the inner emitter outside the lock, and then records the
  outcome (\<open>Success\<close> or \<open>Failure\<close>). \<open>in_flight\<close> is the number of admitted emissions that
  have not recorded their outcome; time passes with \<open>Tick\<close>.
\<close>

record cb_sys =
  cell :: BreakerCell
  clock :: nat
  in_flight :: nat

datatype cb_event = Tick nat | Admit | Reject | Success | Failure

definition cb_init :: cb_sys where
  "cb_init = \<lparr>cell = breaker_cell_new, clock = 0, in_flight = 0\<rparr>"

inductive cb_step :: "CircuitBreakerConfig \<Rightarrow> cb_sys \<Rightarrow> cb_event \<Rightarrow> cb_sys \<Rightarrow> bool"
  for cfg :: CircuitBreakerConfig where
  tick: "cb_step cfg s (Tick d) (s\<lparr>clock := clock s + d\<rparr>)"
| admit: "should_allow_request cfg (clock s) (cell s) = (True, c) \<Longrightarrow>
     cb_step cfg s Admit (s\<lparr>cell := c, in_flight := in_flight s + 1\<rparr>)"
| reject: "should_allow_request cfg (clock s) (cell s) = (False, c) \<Longrightarrow>
     cb_step cfg s Reject (s\<lparr>cell := c\<rparr>)"
| success: "0 < in_flight s \<Longrightarrow>
     cb_step cfg s Success (s\<lparr>cell := record_success cfg (cell s), in_flight := in_flight s - 1\<rparr>)"
| failure: "0 < in_flight s \<Longrightarrow>
     cb_step cfg s Failure
       (s\<lparr>cell := record_failure cfg (clock s) (cell s), in_flight := in_flight s - 1\<rparr>)"

inductive_cases tickE: "cb_step cfg s (Tick d) t"
inductive_cases admitE: "cb_step cfg s Admit t"
inductive_cases rejectE: "cb_step cfg s Reject t"
inductive_cases successE: "cb_step cfg s Success t"
inductive_cases failureE: "cb_step cfg s Failure t"

inductive cb_reachable :: "CircuitBreakerConfig \<Rightarrow> cb_sys \<Rightarrow> bool"
  for cfg :: CircuitBreakerConfig where
  start: "cb_reachable cfg cb_init"
| step: "cb_reachable cfg s \<Longrightarrow> cb_step cfg s e t \<Longrightarrow> cb_reachable cfg t"

lemma cb_step_inv: "cb_step cfg s e t \<Longrightarrow> breaker_inv cfg (cell s) \<Longrightarrow> breaker_inv cfg (cell t)"
proof (induction rule: cb_step.induct)
  case (admit s c)
  then show ?case using breaker_inv_allow [of cfg "cell s" "clock s"] by simp
next
  case (reject s c)
  then show ?case using breaker_inv_allow [of cfg "cell s" "clock s"] by simp
qed (simp_all add: breaker_inv_success breaker_inv_failure)

lemma cb_reachable_inv: "cb_reachable cfg s \<Longrightarrow> breaker_inv cfg (cell s)"
proof (induction rule: cb_reachable.induct)
  case start
  show ?case by (simp add: cb_init_def)
next
  case (step s e t)
  then show ?case by (blast intro: cb_step_inv)
qed

text \<open>The edges of the state machine, each with the event and the condition that takes it.\<close>

inductive edge :: "CircuitBreakerConfig \<Rightarrow> nat \<Rightarrow> CircuitBreakerState \<Rightarrow> cb_event \<Rightarrow> CircuitState \<Rightarrow> bool"
  for cfg :: CircuitBreakerConfig and now :: nat and s :: CircuitBreakerState where
  stay: "edge cfg now s e (cb_state s)"
| opens: "cb_state s = Closed \<Longrightarrow> failure_threshold cfg \<le> consecutive_failures s + 1 \<Longrightarrow>
     edge cfg now s Failure Open"
| probes: "cb_state s = Open \<Longrightarrow> last_failure_time s = Some t \<Longrightarrow> reset_timeout cfg \<le> now - t \<Longrightarrow>
     edge cfg now s Admit HalfOpen"
| closes: "cb_state s = HalfOpen \<Longrightarrow> success_threshold cfg \<le> consecutive_successes s + 1 \<Longrightarrow>
     edge cfg now s Success Closed"
| reopens: "cb_state s = HalfOpen \<Longrightarrow> edge cfg now s Failure Open"

lemma edge_same: "q = cb_state s \<Longrightarrow> edge cfg now s e q"
  by (simp add: edge.stay)

lemma allow_edge:
  assumes "should_allow_request cfg now c = (ok, c')"
  shows "cb_state (breaker c') = cb_state (breaker c) \<or>
         ok \<and> cb_state (breaker c) = Open \<and> cb_state (breaker c') = HalfOpen \<and>
           (\<exists>t. last_failure_time (breaker c) = Some t \<and> reset_timeout cfg \<le> now - t)"
  using assms
  by (cases "cb_state (breaker c)") (auto simp: breaker_ops split: option.splits if_splits)

lemma success_edge:
  "cb_state (breaker (record_success cfg c)) = cb_state (breaker c) \<or>
   cb_state (breaker c) = HalfOpen \<and> cb_state (breaker (record_success cfg c)) = Closed \<and>
     success_threshold cfg \<le> consecutive_successes (breaker c) + 1"
  by (auto simp: breaker_ops)

lemma failure_edge:
  "cb_state (breaker (record_failure cfg now c)) = cb_state (breaker c) \<or>
   cb_state (breaker c) = Closed \<and> cb_state (breaker (record_failure cfg now c)) = Open \<and>
     failure_threshold cfg \<le> consecutive_failures (breaker c) + 1 \<or>
   cb_state (breaker c) = HalfOpen \<and> cb_state (breaker (record_failure cfg now c)) = Open"
  by (cases "cb_state (breaker c)") (auto simp: breaker_ops)

lemma cb_step_edge:
  "cb_step cfg s e t \<Longrightarrow> edge cfg (clock s) (breaker (cell s)) e (cb_state (breaker (cell t)))"
proof (induction rule: cb_step.induct)
  case (admit s c)
  from allow_edge [OF this] show ?case by (auto intro: edge_same edge.intros)
next
  case (reject s c)
  from allow_edge [OF this] show ?case by (auto intro: edge_same)
next
  case (success s)
  from success_edge [of cfg "cell s"] show ?case by (auto intro: edge_same edge.intros)
next
  case (failure s)
  from failure_edge [of cfg "clock s" "cell s"] show ?case by (auto intro: edge_same edge.intros)
qed (simp add: edge.stay)

section \<open>Sequential use\<close>

text \<open>
  Facts about single critical sections that the theory of the wrappers uses to follow one
  caller who emits again and again.
\<close>

lemma allow_closed [simp]: "cb_state (breaker c) = Closed \<Longrightarrow> should_allow_request cfg now c = (True, c)"
  by (simp add: breaker_ops)

lemma allow_open_early:
  "cb_state (breaker c) = Open \<Longrightarrow> last_failure_time (breaker c) = Some t \<Longrightarrow>
   now - t < reset_timeout cfg \<Longrightarrow> should_allow_request cfg now c = reject c"
  by (simp add: breaker_ops)

lemma allow_open_late:
  "cb_state (breaker c) = Open \<Longrightarrow> last_failure_time (breaker c) = Some t \<Longrightarrow>
   reset_timeout cfg \<le> now - t \<Longrightarrow>
   should_allow_request cfg now c =
     (True, c\<lparr>breaker := (breaker c)\<lparr>cb_state := HalfOpen, half_open_requests := 1,
                                   consecutive_successes := 0\<rparr>\<rparr>)"
  by (simp add: breaker_ops)

lemma allow_half_open_exhausted:
  "cb_state (breaker c) = HalfOpen \<Longrightarrow> half_open_max_requests cfg \<le> half_open_requests (breaker c) \<Longrightarrow>
   should_allow_request cfg now c = reject c"
  by (simp add: breaker_ops)

section \<open>Properties\<close>

text \<open>C16. Under every interleaving of concurrent emissions and every passage of time, the
  circuit breaker keeps its invariant: an open circuit always has a last failure time, so its
  timeout can expire; probes are admitted only while half-open and never more than
  \<open>half_open_max_requests\<close> of them (or the one of the transition) per half-open period; the
  failure and success counters stay below the thresholds that end their states.\<close>

theorem breaker_invariant: "cb_reachable cfg s \<Longrightarrow> breaker_inv cfg (cell s)"
  by (rule cb_reachable_inv)

theorem breaker_invariant_witness:
  "breaker_inv circuit_breaker_config_default (cell (cb_init\<lparr>in_flight := 1\<rparr>))"
proof (rule breaker_invariant)
  have "cb_step circuit_breaker_config_default cb_init Admit
          (cb_init\<lparr>cell := cell cb_init, in_flight := in_flight cb_init + 1\<rparr>)"
    by (rule cb_step.admit) (simp add: cb_init_def breaker_cell_new_def circuit_breaker_state_new_def)
  with cb_reachable.start
  have "cb_reachable circuit_breaker_config_default
          (cb_init\<lparr>cell := cell cb_init, in_flight := in_flight cb_init + 1\<rparr>)"
    by (rule cb_reachable.step)
  then show "cb_reachable circuit_breaker_config_default (cb_init\<lparr>in_flight := 1\<rparr>)"
    by (simp add: cb_init_def)
qed

text \<open>C17. The circuit moves only along the edges of the pattern, each for its reason: it opens
  only on a failure that brings the consecutive failures to the threshold, starts probing only
  when a request arrives after the reset timeout since the last failure, closes only on a
  success that brings the consecutive successes to the threshold, and re-opens only on a
  failed probe; every other step leaves the state as it is.\<close>

theorem breaker_edges:
  "cb_step cfg s e t \<Longrightarrow> edge cfg (clock s) (breaker (cell s)) e (cb_state (breaker (cell t)))"
  by (rule cb_step_edge)

theorem breaker_edges_witness:
  "edge (circuit_breaker_config_default\<lparr>failure_threshold := 1\<rparr>) 7 circuit_breaker_state_new Failure Open"
proof -
  let ?cfg = "circuit_breaker_config_default\<lparr>failure_threshold := 1\<rparr>"
  let ?s = "cb_init\<lparr>clock := 7, in_flight := 1\<rparr>"
  have "cb_step ?cfg ?s Failure
          (?s\<lparr>cell := record_failure ?cfg (clock ?s) (cell ?s), in_flight := in_flight ?s - 1\<rparr>)"
    by (rule cb_step.failure) simp
  from breaker_edges [OF this] show ?thesis
    by (simp add: cb_init_def breaker_cell_new_def circuit_breaker_state_new_def
        circuit_breaker_config_default_def breaker_ops)
qed

end
