(* ===== verification/Failure_Buffer.thy ===== *)
theory Failure_Buffer
  imports Messages Fifo
begin

text \<open>
  The failure buffer of \<open>gateway/src/emit/resilience/failure_buffer.rs\<close>: the captured
  events, the bounded queue that holds them and its counters. The emitter that fills it is
  in the theory of the resilience wrappers.
\<close>

record FailedEvent =
  failed_event :: Event
  failed_error :: string
  emitter_name :: string
  failed_at :: nat
  attempts :: u32

record FailureCaptureConfig =
  fc_capacity :: nat
  store_full_batch :: bool

definition failure_capture_config_default :: FailureCaptureConfig where
  "failure_capture_config_default = \<lparr>fc_capacity = 1000, store_full_batch = True\<rparr>"

record FailureBuffer =
  fb_events :: "FailedEvent list"
  fb_capacity :: nat
  total_captured :: u64
  fb_total_dropped :: u64

definition failure_buffer_new :: "nat \<Rightarrow> FailureBuffer" where
  "failure_buffer_new capacity =
     \<lparr>fb_events = [], fb_capacity = capacity, total_captured = 0, fb_total_dropped = 0\<rparr>"

definition failure_buffer_push :: "FailedEvent list \<Rightarrow> FailureBuffer \<Rightarrow> FailureBuffer" where
  "failure_buffer_push events b =
     (let n = (of_nat (length events) :: u64);
          (queue, dropped) = evict_push (fb_capacity b) (fb_events b) 0 events;
          b1 = b\<lparr>fb_events := queue, total_captured := total_captured b + n\<rparr>
      in if 0 < dropped
         then b1\<lparr>fb_total_dropped := fb_total_dropped b1 + of_nat dropped\<rparr>
         else b1)"

definition failure_buffer_drain :: "nat \<Rightarrow> FailureBuffer \<Rightarrow> FailedEvent list \<times> FailureBuffer" where
  "failure_buffer_drain n b =
     (let drain_count = min n (length (fb_events b))
      in (take drain_count (fb_events b), b\<lparr>fb_events := drop drain_count (fb_events b)\<rparr>))"

definition failure_buffer_peek :: "nat \<Rightarrow> FailureBuffer \<Rightarrow> FailedEvent list" where
  "failure_buffer_peek n b = take n (fb_events b)"

definition failure_buffer_len :: "FailureBuffer \<Rightarrow> nat" where
  "failure_buffer_len b = length (fb_events b)"

definition failure_buffer_is_empty :: "FailureBuffer \<Rightarrow> bool" where
  "failure_buffer_is_empty b \<longleftrightarrow> fb_events b = []"

definition failure_buffer_clear :: "FailureBuffer \<Rightarrow> FailureBuffer" where
  "failure_buffer_clear b = b\<lparr>fb_events := []\<rparr>"

section \<open>The buffer as an evicting queue\<close>

definition fb_wf :: "FailureBuffer \<Rightarrow> bool" where
  "fb_wf b \<longleftrightarrow> 0 < fb_capacity b \<and> length (fb_events b) \<le> fb_capacity b"

lemma fb_capacity_push [simp, frame]: "fb_capacity (failure_buffer_push es b) = fb_capacity b"
  by (simp add: failure_buffer_push_def case_prod_beta Let_def)

lemma fb_capacity_drain [simp, frame]: "fb_capacity (snd (failure_buffer_drain n b)) = fb_capacity b"
  by (simp add: failure_buffer_drain_def Let_def)

lemma fb_events_push:
  "fb_wf b \<Longrightarrow> fb_events (failure_buffer_push es b) =
     drop (length (fb_events b) + length es - fb_capacity b) (fb_events b @ es)"
  by (simp add: failure_buffer_push_def fb_wf_def evict_push_eq Let_def)

lemma fb_events_drain [simp]: "fb_events (snd (failure_buffer_drain n b)) = drop n (fb_events b)"
  by (simp add: failure_buffer_drain_def Let_def min_def)

lemma drained_failed_events [simp]: "fst (failure_buffer_drain n b) = take n (fb_events b)"
  by (simp add: failure_buffer_drain_def Let_def min_def)

lemma total_captured_push [simp]:
  "total_captured (failure_buffer_push es b) = total_captured b + of_nat (length es)"
  by (simp add: failure_buffer_push_def case_prod_beta Let_def)

lemma total_captured_drain [simp, frame]: "total_captured (snd (failure_buffer_drain n b)) = total_captured b"
  by (simp add: failure_buffer_drain_def Let_def)

lemma fb_total_dropped_push:
  "fb_wf b \<Longrightarrow> fb_total_dropped (failure_buffer_push es b) =
     fb_total_dropped b + of_nat (length (fb_events b) + length es - fb_capacity b)"
  by (simp add: failure_buffer_push_def fb_wf_def evict_push_eq Let_def)

lemma fb_wf_push [simp]: "fb_wf b \<Longrightarrow> fb_wf (failure_buffer_push es b)"
  using fb_events_push [of b es] by (simp add: fb_wf_def del: drop_append)

lemma fb_wf_drain [simp]: "fb_wf b \<Longrightarrow> fb_wf (snd (failure_buffer_drain n b))"
  by (auto simp: fb_wf_def)

interpretation failures: evicting_fifo fb_events fb_capacity failure_buffer_push failure_buffer_drain
  by unfold_locales (simp_all add: fb_events_push fb_wf_def del: drop_append)

lemma captured_run:
  "total_captured (snd (fifo_run failure_buffer_push failure_buffer_drain b ops)) =
     total_captured b + of_nat (length (pushed ops))"
  by (induction ops arbitrary: b rule: pushed.induct)
    (simp_all add: case_prod_beta Let_def algebra_simps)

section \<open>Properties\<close>

text \<open>The failure buffer keeps captured events in order of capture and hands them back in
  that order: as long as no more events are captured than fit, what a run of captures and
  drains returned followed by what is still held is exactly what was captured; in every run
  what comes out is a subsequence of what was captured, the buffer stays within its capacity
  and \<open>total_captured\<close> counts every captured event (modulo \<open>2 ^ 64\<close>).\<close>

theorem failure_buffer_run:
  assumes "0 < c"
  shows "let (out, b) = fifo_run failure_buffer_push failure_buffer_drain (failure_buffer_new c) ops
         in (length (pushed ops) \<le> c \<longrightarrow> out @ fb_events b = pushed ops) \<and>
            subseq out (pushed ops) \<and> failure_buffer_len b \<le> c \<and>
            total_captured b = of_nat (length (pushed ops))"
proof -
  let ?b = "failure_buffer_new c"
  have init: "fb_events ?b = []" "fb_capacity ?b = c" "total_captured ?b = 0"
    by (simp_all add: failure_buffer_new_def)
  show ?thesis
    using failures.run_lossless [of ?b ops] failures.run_subseq [of ?b ops]
      failures.run_bounded [of ?b ops] captured_run [of ?b ops] assms init
    by (simp add: case_prod_beta Let_def failure_buffer_len_def)
qed

definition sample_failed :: "string \<Rightarrow> FailedEvent" where
  "sample_failed i =
     \<lparr>failed_event = event_from_message (sample_message i), failed_error = ''e'',
      emitter_name = ''n'', failed_at = 0, attempts = 1\<rparr>"

theorem failure_buffer_run_witness:
  "let (out, b) = fifo_run failure_buffer_push failure_buffer_drain (failure_buffer_new 2)
                    [Fifo_Push [sample_failed ''a'', sample_failed ''b''], Fifo_Drain 1]
   in out @ fb_events b = [sample_failed ''a'', sample_failed ''b''] \<and> total_captured b = 2"
  using failure_buffer_run [of 2 "[Fifo_Push [sample_failed ''a'', sample_failed ''b''], Fifo_Drain 1]"]
  by (simp add: case_prod_beta Let_def del: fifo_run.simps)

end
