(* ===== verification/Xorshift.thy ===== *)
theory Xorshift
  imports Polku_Prelude
begin

text \<open>
  The lock-free xorshift64 generator that \<open>gateway/src/emit/resilience/retry.rs\<close> uses for
  jitter and that \<open>gateway/src/middleware/sampler.rs\<close> repeats. \<open>xorshift64\<close> is the update
  the loop computes from the value it loaded. The relation \<open>rng_step\<close> interleaves the loads
  and compare-exchanges of any number of threads, with spurious failures of
  \<open>compare_exchange_weak\<close>.
\<close>

definition xorshift64 :: "u64 \<Rightarrow> u64" where
  "xorshift64 old =
     (let x = old;
          x = x XOR push_bit 13 x;
          x = x XOR drop_bit 7 x;
          x = x XOR push_bit 17 x
      in x)"

definition fallback_seed :: u64 where
  "fallback_seed = 0x853c49e6748fea9b"

text \<open>The argument is the number of nanoseconds since the epoch, \<open>None\<close> for a clock before it.\<close>

definition xorshift_new :: "nat option \<Rightarrow> u64" where
  "xorshift_new since_epoch =
     (let seed = (case since_epoch of Some d \<Rightarrow> of_nat d | None \<Rightarrow> fallback_seed)
      in if seed = 0 then fallback_seed else seed)"

lemma xorshift_new_nonzero [simp]: "xorshift_new t \<noteq> 0"
  by (simp add: xorshift_new_def fallback_seed_def Let_def)

section \<open>The update is a bijection\<close>

text \<open>
  Each of the three lines is the map \<open>x XOR shift k x\<close> for a left or right shift. Applying it
  twice is the same map with twice the shift, so some power of it is the identity.
\<close>

definition left_mix :: "nat \<Rightarrow> u64 \<Rightarrow> u64" where
  "left_mix k x = x XOR push_bit k x"

definition right_mix :: "nat \<Rightarrow> u64 \<Rightarrow> u64" where
  "right_mix k x = x XOR drop_bit k x"

lemma left_mix_twice: "left_mix k (left_mix k x) = left_mix (k + k) x"
  by (simp add: left_mix_def push_bit_xor push_bit_push_bit xor.assoc)

lemma right_mix_twice: "right_mix k (right_mix k x) = right_mix (k + k) x"
  by (simp add: right_mix_def drop_bit_xor drop_bit_drop_bit xor.assoc)

lemma left_mix_id: "64 \<le> k \<Longrightarrow> left_mix k x = x"
  by (simp add: left_mix_def push_bit_word_beyond)

lemma right_mix_id: "64 \<le> k \<Longrightarrow> right_mix k x = x"
  by (simp add: right_mix_def drop_bit_word_beyond)

lemma inj_left_mix: "0 < k \<Longrightarrow> inj (left_mix k)"
proof (induction "64 - k" arbitrary: k rule: less_induct)
  case less
  show ?case
  proof (cases "64 \<le> k")
    case True
    then show ?thesis by (simp add: inj_def left_mix_id)
  next
    case False
    with less have "inj (left_mix (k + k))" by simp
    then show ?thesis unfolding inj_def by (metis left_mix_twice)
  qed
qed

lemma inj_right_mix: "0 < k \<Longrightarrow> inj (right_mix k)"
proof (induction "64 - k" arbitrary: k rule: less_induct)
  case less
  show ?case
  proof (cases "64 \<le> k")
    case True
    then show ?thesis by (simp add: inj_def right_mix_id)
  next
    case False
    with less have "inj (right_mix (k + k))" by simp
    then show ?thesis unfolding inj_def by (metis right_mix_twice)
  qed
qed

lemma xorshift64_mix: "xorshift64 = left_mix 17 \<circ> right_mix 7 \<circ> left_mix 13"
  by (simp add: fun_eq_iff xorshift64_def left_mix_def right_mix_def Let_def)

lemma inj_xorshift64: "inj xorshift64"
  unfolding xorshift64_mix by (intro inj_compose inj_left_mix inj_right_mix) simp_all

lemma bij_xorshift64: "bij xorshift64"
  using inj_xorshift64 by (simp add: bij_def finite_UNIV_inj_surj)

lemma xorshift64_eq_iff [simp]: "xorshift64 x = xorshift64 y \<longleftrightarrow> x = y"
  using inj_xorshift64 by (simp add: inj_def) blast

lemma xorshift64_0 [simp]: "xorshift64 0 = 0"
  by (simp add: xorshift64_def)

lemma xorshift64_nonzero [simp]: "xorshift64 x = 0 \<longleftrightarrow> x = 0"
  using xorshift64_eq_iff [of x 0] by simp

lemma xorshift64_iter_nonzero: "(xorshift64 ^^ n) x = 0 \<longleftrightarrow> x = 0"
  by (induction n) simp_all

section \<open>Concurrent draws\<close>

record rng_sys =
  rng_state :: u64
  loaded :: "nat \<Rightarrow> u64 option"
  drawn :: "(nat \<times> u64) list"

definition rng_init :: "u64 \<Rightarrow> rng_sys" where
  "rng_init seed = \<lparr>rng_state = seed, loaded = (\<lambda>_. None), drawn = []\<rparr>"

text \<open>
  \<open>load\<close>: a thread reads the shared state. \<open>exchange\<close>: the compare-exchange finds the value
  it loaded and stores the update, which the call returns. \<open>retry\<close>: it fails, because
  another thread stored in between or spuriously, and the loop starts again.
\<close>

inductive rng_step :: "rng_sys \<Rightarrow> rng_sys \<Rightarrow> bool" where
  load: "loaded s t = None \<Longrightarrow> rng_step s (s\<lparr>loaded := (loaded s)(t \<mapsto> rng_state s)\<rparr>)"
| exchange: "loaded s t = Some old \<Longrightarrow> rng_state s = old \<Longrightarrow>
     rng_step s (s\<lparr>rng_state := xorshift64 old, loaded := (loaded s)(t := None),
                   drawn := drawn s @ [(t, xorshift64 old)]\<rparr>)"
| retry: "loaded s t = Some old \<Longrightarrow> rng_step s (s\<lparr>loaded := (loaded s)(t := None)\<rparr>)"

inductive rng_reachable :: "u64 \<Rightarrow> rng_sys \<Rightarrow> bool" for seed :: u64 where
  start: "rng_reachable seed (rng_init seed)"
| step: "rng_reachable seed s \<Longrightarrow> rng_step s s' \<Longrightarrow> rng_reachable seed s'"

definition rng_inv :: "u64 \<Rightarrow> rng_sys \<Rightarrow> bool" where
  "rng_inv seed s \<longleftrightarrow>
     map snd (drawn s) = map (\<lambda>i. (xorshift64 ^^ Suc i) seed) [0..<length (drawn s)] \<and>
     rng_state s = (xorshift64 ^^ length (drawn s)) seed"

lemma rng_step_inv: "rng_step s s' \<Longrightarrow> rng_inv seed s \<Longrightarrow> rng_inv seed s'"
  by (induction rule: rng_step.induct) (auto simp: rng_inv_def)

lemma rng_reachable_inv: "rng_reachable seed s \<Longrightarrow> rng_inv seed s"
proof (induction rule: rng_reachable.induct)
  case start
  show ?case by (simp add: rng_inv_def rng_init_def)
next
  case (step s s')
  then show ?case by (blast intro: rng_step_inv)
qed

section \<open>Properties\<close>

text \<open>The xorshift64 update is a bijection of the 64-bit words that fixes zero: a generator
  with a non-zero seed, which both constructors guarantee, never reaches zero and never merges
  two states.\<close>

theorem xorshift64_bijective: "bij xorshift64 \<and> (\<forall>n t. (xorshift64 ^^ n) (xorshift_new t) \<noteq> 0)"
  by (simp add: bij_xorshift64 xorshift64_iter_nonzero)

text \<open>However the threads' loads and compare-exchanges interleave, and however often a
  compare-exchange fails spuriously, the values the generator hands out are, in the order of
  the successful exchanges, exactly the successive iterates of the seed: no value is lost,
  repeated or handed out twice for one step.\<close>

theorem rng_linearizable:
  assumes "rng_reachable seed s"
  shows "map snd (drawn s) = map (\<lambda>i. (xorshift64 ^^ Suc i) seed) [0..<length (drawn s)]"
  using rng_reachable_inv [OF assms] by (simp add: rng_inv_def)

theorem rng_linearizable_witness:
  "map snd [(0 :: nat, xorshift64 1)] = map (\<lambda>i. (xorshift64 ^^ Suc i) 1) [0..<1]"
proof -
  let ?s0 = "rng_init 1"
  let ?s1 = "?s0\<lparr>loaded := (loaded ?s0)(0 \<mapsto> rng_state ?s0)\<rparr>"
  let ?s2 = "?s1\<lparr>rng_state := xorshift64 1, loaded := (loaded ?s1)(0 := None),
                 drawn := drawn ?s1 @ [(0, xorshift64 1)]\<rparr>"
  have "rng_reachable 1 ?s1"
    by (rule rng_reachable.step [OF rng_reachable.start]) (rule rng_step.load, simp add: rng_init_def)
  then have "rng_reachable 1 ?s2"
    by (rule rng_reachable.step) (rule rng_step.exchange, simp_all add: rng_init_def)
  from rng_linearizable [OF this] show ?thesis by (simp add: rng_init_def)
qed

end
