(* ===== verification/Backoff.thy ===== *)
theory Backoff
  imports Xorshift Complex_Main
begin

text \<open>
  The exponential backoff of \<open>gateway/src/emit/resilience/retry.rs\<close>. A finite \<open>f64\<close> is a
  real number and each operation of the source is followed by the rounding \<open>fl\<close>, an
  argument; \<open>powi\<close>, whose rounding the language leaves open, is the argument \<open>pwi\<close>. What is
  used of them is stated where it is used (\<open>ieee_rounding\<close>). An overflow of \<open>powi\<close> to
  infinity shows here as any value above the cap that \<open>min\<close> applies next.
\<close>

type_synonym f64 = real

text \<open>The cast \<open>as u64\<close> truncates and saturates.\<close>

definition f64_as_u64 :: "f64 \<Rightarrow> nat" where
  "f64_as_u64 x = min (nat \<lfloor>x\<rfloor>) (2 ^ 64 - 1)"

lemma f64_as_u64_mono: "x \<le> y \<Longrightarrow> f64_as_u64 x \<le> f64_as_u64 y"
  unfolding f64_as_u64_def by (intro min.mono nat_mono floor_mono) simp_all

lemma f64_as_u64_1 [simp]: "f64_as_u64 1 = 1"
  by (simp add: f64_as_u64_def)

lemma f64_as_u64_ge_1: "1 \<le> x \<Longrightarrow> Suc 0 \<le> f64_as_u64 x"
  using f64_as_u64_mono [of 1 x] by simp

section \<open>The generator of jitter\<close>

text \<open>\<open>next_f64\<close>: the next 64-bit value scaled by \<open>u64::MAX as f64\<close>.\<close>

definition next_f64 :: "(real \<Rightarrow> real) \<Rightarrow> u64 \<Rightarrow> f64 \<times> u64" where
  "next_f64 fl rng =
     (let x = xorshift64 rng
      in (fl (fl (real (unat x)) / fl (real (unat u64_MAX))), x))"

section \<open>Delays\<close>

record BackoffConfig =
  initial_delay :: nat
  max_delay :: nat
  multiplier :: f64
  max_attempts :: u32
  jitter_factor :: f64

definition backoff_config_default :: BackoffConfig where
  "backoff_config_default =
     \<lparr>initial_delay = 100 * 10 ^ 6, max_delay = 30 * 10 ^ 9, multiplier = 2,
      max_attempts = 3, jitter_factor = 1 / 4\<rparr>"

definition as_micros :: "nat \<Rightarrow> nat" where
  "as_micros d = d div 1000"

definition from_micros :: "nat \<Rightarrow> nat" where
  "from_micros us = 1000 * us"

definition backoff_base_us ::
    "(real \<Rightarrow> real) \<Rightarrow> (f64 \<Rightarrow> int \<Rightarrow> f64) \<Rightarrow> BackoffConfig \<Rightarrow> u32 \<Rightarrow> f64" where
  "backoff_base_us fl pwi cfg attempt =
     (let base_us = fl (fl (real (as_micros (initial_delay cfg))) *
                        pwi (multiplier cfg) (sint (attempt - 1)))
      in min base_us (fl (real (as_micros (max_delay cfg)))))"

definition delay_for_attempt_with_jitter ::
    "(real \<Rightarrow> real) \<Rightarrow> (f64 \<Rightarrow> int \<Rightarrow> f64) \<Rightarrow> BackoffConfig \<Rightarrow> u32 \<Rightarrow> f64 \<Rightarrow> nat" where
  "delay_for_attempt_with_jitter fl pwi cfg attempt jitter =
     (if attempt = 0 then 0
      else (let base_us = backoff_base_us fl pwi cfg attempt;
                jitter_range = fl (base_us * jitter_factor cfg);
                jitter_offset = fl (fl (fl (jitter * 2) - 1) * jitter_range);
                final_us = max (fl (base_us + jitter_offset)) 1
            in from_micros (f64_as_u64 final_us)))"

text \<open>\<open>delay_for_attempt\<close> draws the jitter from the shared generator, whose state it advances.\<close>

definition delay_for_attempt ::
    "(real \<Rightarrow> real) \<Rightarrow> (f64 \<Rightarrow> int \<Rightarrow> f64) \<Rightarrow> BackoffConfig \<Rightarrow> u32 \<Rightarrow> u64 \<Rightarrow> nat \<times> u64" where
  "delay_for_attempt fl pwi cfg attempt rng =
     (let (jitter, rng') = next_f64 fl rng
      in (delay_for_attempt_with_jitter fl pwi cfg attempt jitter, rng'))"

lemma delay_zero_iff [simp]:
  "delay_for_attempt_with_jitter fl pwi cfg attempt jitter = 0 \<longleftrightarrow> attempt = 0"
proof -
  have "f64_as_u64 (max x 1) \<noteq> 0" for x
    using f64_as_u64_ge_1 [of "max x 1"] by simp
  then show ?thesis
    by (simp add: delay_for_attempt_with_jitter_def from_micros_def Let_def)
qed

lemma delay_for_attempt_zero_iff [simp]:
  "fst (delay_for_attempt fl pwi cfg attempt rng) = 0 \<longleftrightarrow> attempt = 0"
  by (simp add: delay_for_attempt_def case_prod_beta Let_def)

lemma delay_for_attempt_pos_iff [simp]:
  "0 < fst (delay_for_attempt fl pwi cfg attempt rng) \<longleftrightarrow> attempt \<noteq> 0"
  using delay_for_attempt_zero_iff [of fl pwi cfg attempt rng] by linarith

lemma delay_for_attempt_rng [simp]: "snd (delay_for_attempt fl pwi cfg attempt rng) = xorshift64 rng"
  by (simp add: delay_for_attempt_def next_f64_def case_prod_beta Let_def)

section \<open>Bounds\<close>

text \<open>What IEEE 754 promises of rounding to nearest, as far as it is used here.\<close>

definition ieee_rounding :: "(real \<Rightarrow> real) \<Rightarrow> bool" where
  "ieee_rounding fl \<longleftrightarrow>
     mono fl \<and> (\<forall>x. fl (fl x) = fl x) \<and> (\<forall>x. fl (- x) = - fl x) \<and> fl 1 = 1 \<and> fl 2 = 2"

lemma ieee_rounding_id [simp]: "ieee_rounding (\<lambda>x. x)"
  by (simp add: ieee_rounding_def mono_def)

lemma ieee_mono: "ieee_rounding fl \<Longrightarrow> x \<le> y \<Longrightarrow> fl x \<le> fl y"
  by (simp add: ieee_rounding_def monoD)

lemma ieee_simps:
  assumes "ieee_rounding fl"
  shows "fl (fl x) = fl x" "fl (- x) = - fl x" "fl 1 = 1" "fl 2 = 2" "fl 0 = 0"
proof -
  have "fl (- 0) = - fl 0" using assms unfolding ieee_rounding_def by blast
  then show "fl 0 = 0" by simp
qed (use assms in \<open>simp_all add: ieee_rounding_def\<close>)

text \<open>The generator's values lie in the closed unit interval, and the right end is reached: some state of the generator, not
  zero, is followed by the largest word, whose quotient is exactly one.\<close>

lemma next_f64_closed:
  assumes "ieee_rounding fl"
  shows "0 \<le> fst (next_f64 fl rng)" and "fst (next_f64 fl rng) \<le> 1"
    and "\<exists>rng. rng \<noteq> 0 \<and> fst (next_f64 fl rng) = 1"
proof -
  let ?M = "fl (real (unat u64_MAX))" and ?x = "fl (real (unat (xorshift64 rng)))"
  have max: "real (unat x) \<le> real (unat u64_MAX)" for x :: u64
  proof -
    have "unat x < 2 ^ 64" using unsigned_less [of x] by simp
    then have "unat x \<le> unat u64_MAX" by simp
    then show ?thesis by linarith
  qed
  have M: "1 \<le> ?M" using ieee_mono [OF assms, of 1 "real (unat u64_MAX)"] by (simp add: ieee_simps [OF assms])
  have "fl 0 \<le> ?x" "?x \<le> ?M" by (rule ieee_mono [OF assms], rule of_nat_0_le_iff) (rule ieee_mono [OF assms max])
  then have x: "0 \<le> ?x" "?x \<le> ?M" by (simp_all only: ieee_simps(5) [OF assms])
  have ge: "0 \<le> ?x / ?M" using x(1) M by (intro divide_nonneg_nonneg) linarith+
  have le: "?x / ?M \<le> 1" using x(2) divide_le_eq_1_pos [of ?M ?x] M by linarith
  have val: "fst (next_f64 fl rng) = fl (?x / ?M)" unfolding next_f64_def Let_def by (rule fst_conv)
  show "0 \<le> fst (next_f64 fl rng)" and "fst (next_f64 fl rng) \<le> 1"
    unfolding val using ieee_mono [OF assms ge] ieee_mono [OF assms le] by (simp_all only: ieee_simps(3,5) [OF assms])
  obtain r where r: "xorshift64 r = u64_MAX" using bij_xorshift64 by (metis bij_pointE)
  moreover have "r \<noteq> 0"
  proof
    assume "r = 0"
    with r show False by simp
  qed
  moreover have "?M / ?M = 1" using M by simp
  ultimately show "\<exists>rng. rng \<noteq> 0 \<and> fst (next_f64 fl rng) = 1"
    by (intro exI [of _ r]) (simp add: next_f64_def ieee_simps [OF assms])
qed

text \<open>The jitter, mapped to the interval from minus one to one, keeps the offset within the range.\<close>

lemma unit_interval_map:
  assumes fl: "ieee_rounding fl" and j: "0 \<le> j" "j \<le> 1"
  shows "\<bar>fl (fl (j * 2) - 1)\<bar> \<le> 1"
proof -
  have "0 \<le> fl (j * 2)" "fl (j * 2) \<le> 2"
    using ieee_mono [OF fl, of 0 "j * 2"] ieee_mono [OF fl, of "j * 2" 2] j ieee_simps [OF fl] by auto
  then have "fl (- 1) \<le> fl (fl (j * 2) - 1)" "fl (fl (j * 2) - 1) \<le> fl 1"
    by (auto intro!: ieee_mono [OF fl])
  then show ?thesis using ieee_simps [OF fl] by auto
qed

lemma offset_within_range:
  assumes fl: "ieee_rounding fl" and j: "0 \<le> j" "j \<le> 1" and "0 \<le> x"
  shows "\<bar>fl (fl (fl (j * 2) - 1) * fl x)\<bar> \<le> fl x"
proof -
  let ?t = "fl (fl (j * 2) - 1)"
  have r: "0 \<le> fl x" using ieee_mono [OF fl, of 0 x] assms(4) ieee_simps [OF fl] by simp
  have "\<bar>?t * fl x\<bar> \<le> fl x"
    using mult_right_mono [OF unit_interval_map [OF fl j] r] r by (simp add: abs_mult)
  then have "fl (- fl x) \<le> fl (?t * fl x)" "fl (?t * fl x) \<le> fl (fl x)"
    by (auto intro!: ieee_mono [OF fl])
  then show ?thesis using ieee_simps [OF fl] by auto
qed

lemma backoff_base_le_cap: "backoff_base_us fl pwi cfg attempt \<le> fl (real (as_micros (max_delay cfg)))"
  by (simp add: backoff_base_us_def Let_def)

lemma backoff_base_nonneg:
  assumes fl: "ieee_rounding fl" and "0 \<le> pwi (multiplier cfg) (sint (attempt - 1))"
  shows "0 \<le> backoff_base_us fl pwi cfg attempt"
proof -
  have nonneg: "0 \<le> fl x" if "0 \<le> x" for x
    using ieee_mono [OF fl that] ieee_simps [OF fl] by simp
  show ?thesis using assms(2) by (auto simp: backoff_base_us_def Let_def intro!: nonneg mult_nonneg_nonneg)
qed

section \<open>Properties\<close>

text \<open>C35. The delay before the first attempt is zero and every later delay is at least one
  microsecond; it lies within the jitter range around the capped exponential base. The cap
  applies before the jitter: the delay is bounded by \<open>max_delay\<close> plus its jitter range, not by
  \<open>max_delay\<close>.\<close>

theorem backoff_delay_bounds:
  assumes fl: "ieee_rounding fl" and j: "0 \<le> jitter" "jitter \<le> 1"
    and "0 \<le> jitter_factor cfg" and "0 \<le> pwi (multiplier cfg) (sint (attempt - 1))"
  shows "let base = backoff_base_us fl pwi cfg attempt;
             range = fl (base * jitter_factor cfg);
             cap = fl (real (as_micros (max_delay cfg)));
             d = delay_for_attempt_with_jitter fl pwi cfg attempt jitter
         in if attempt = 0 then d = 0
            else from_micros 1 \<le> d \<and>
                 from_micros (f64_as_u64 (max (fl (base - range)) 1)) \<le> d \<and>
                 d \<le> from_micros (f64_as_u64 (max (fl (base + range)) 1)) \<and>
                 d \<le> from_micros (f64_as_u64 (max (fl (cap + fl (cap * jitter_factor cfg))) 1))"
proof -
  define base where "base = backoff_base_us fl pwi cfg attempt"
  define range where "range = fl (base * jitter_factor cfg)"
  define cap where "cap = fl (real (as_micros (max_delay cfg)))"
  define off where "off = fl (fl (fl (jitter * 2) - 1) * range)"
  have base: "0 \<le> base" "base \<le> cap"
    using backoff_base_nonneg [of fl pwi cfg attempt] backoff_base_le_cap [of fl pwi cfg attempt] fl assms(5)
    by (auto simp: base_def cap_def)
  have off: "\<bar>off\<bar> \<le> range"
    unfolding off_def range_def using offset_within_range [OF fl j] base(1) assms(4) by simp
  have "range \<le> fl (cap * jitter_factor cfg)"
    unfolding range_def using base(2) assms(4) by (intro ieee_mono [OF fl] mult_right_mono)
  with off base have "base - range \<le> base + off" "base + off \<le> base + range"
      "base + off \<le> cap + fl (cap * jitter_factor cfg)"
    by auto
  then have "fl (base - range) \<le> fl (base + off)" "fl (base + off) \<le> fl (base + range)"
      "fl (base + off) \<le> fl (cap + fl (cap * jitter_factor cfg))"
    by (auto intro!: ieee_mono [OF fl])
  moreover have "delay_for_attempt_with_jitter fl pwi cfg attempt jitter =
      (if attempt = 0 then 0 else from_micros (f64_as_u64 (max (fl (base + off)) 1)))"
    by (simp add: delay_for_attempt_with_jitter_def base_def range_def off_def Let_def)
  ultimately show ?thesis
    unfolding base_def [symmetric] range_def [symmetric] cap_def [symmetric] Let_def
    by (auto simp: from_micros_def intro!: f64_as_u64_mono f64_as_u64_ge_1)
qed

text \<open>
  The witness uses exact arithmetic and the largest jitter. With the base already at the cap
  of 100 ms, the delay is 125 ms: above \<open>max_delay\<close>.
\<close>

theorem backoff_delay_bounds_witness:
  "let cfg = backoff_config_default\<lparr>max_delay := 100 * 10 ^ 6\<rparr>;
       d = delay_for_attempt_with_jitter (\<lambda>x. x) (\<lambda>x i. x ^ nat i) cfg 1 1
   in max_delay cfg < d \<and> d \<le> 125 * 10 ^ 6"
proof -
  let ?cfg = "backoff_config_default\<lparr>max_delay := 100 * 10 ^ 6\<rparr>"
  have "d \<le> from_micros (f64_as_u64 (max (100000 + 100000 * (1 / 4)) 1))"
    if "d = delay_for_attempt_with_jitter (\<lambda>x. x) (\<lambda>x i. x ^ nat i) ?cfg 1 1" for d
    using backoff_delay_bounds [of "\<lambda>x. x" 1 ?cfg "\<lambda>x i. x ^ nat i" 1] that
    by (simp add: Let_def backoff_config_default_def as_micros_def)
  moreover have "delay_for_attempt_with_jitter (\<lambda>x. x) (\<lambda>x i. x ^ nat i) ?cfg 1 1 = 125 * 10 ^ 6"
    by (simp add: delay_for_attempt_with_jitter_def backoff_base_us_def backoff_config_default_def
        as_micros_def from_micros_def f64_as_u64_def Let_def)
  ultimately show ?thesis
    by (simp add: Let_def backoff_config_default_def)
qed

end
