(* ===== verification/Emitters.thy ===== *)
theory Emitters
  imports Circuit_Breaker Failure_Buffer Backoff
begin

text \<open>
  The \<open>Emitter\<close> trait of \<open>gateway/src/emit/mod.rs\<close> and the resilience wrappers of
  \<open>gateway/src/emit/resilience\<close>. An \<open>Arc<dyn Emitter>\<close> is a value of the datatype
  \<open>Emitter\<close>: a leaf, which is an implementation outside this theory, or a wrapper around
  another emitter. What the objects mutate lives in a store, the record \<open>World\<close>: each
  wrapper refers to its cell by an address, so that two handles on one object, such as the
  \<open>Arc<FailureBuffer>\<close> that a capturing emitter shares with its owner, see the same state.
  The world also holds the monotonic clock, the state of the global jitter generator and the
  state of the destinations behind the leaves. Each wrapper's \<open>emit\<close> is a function of its
  inner emitter's \<open>emit\<close>, and the dispatch \<open>emit\<close> composes them as the objects are nested.
\<close>

section \<open>Leaves and the world\<close>

text \<open>
  An implementation of the trait outside the wrappers: from the events, the clock and the
  state of its destination it gives the result, the time it took and the new state.
\<close>

record 'x leaf =
  leaf_name :: string
  leaf_emit :: "Event list \<Rightarrow> nat \<Rightarrow> 'x \<Rightarrow> plugin_result \<times> nat \<times> 'x"
  leaf_health :: "nat \<Rightarrow> 'x \<Rightarrow> bool \<times> nat \<times> 'x"
  leaf_shutdown :: "nat \<Rightarrow> 'x \<Rightarrow> plugin_result \<times> nat \<times> 'x"

record RetryCell =
  retry_count :: u64
  recovered_count :: u64

definition retry_cell_new :: RetryCell where
  "retry_cell_new = \<lparr>retry_count = 0, recovered_count = 0\<rparr>"

record 'x World =
  time_now :: nat
  jitter_rng :: u64
  breakers :: "nat \<Rightarrow> BreakerCell"
  retries :: "nat \<Rightarrow> RetryCell"
  failure_buffers :: "nat \<Rightarrow> FailureBuffer"
  backend :: 'x

text \<open>What the model takes from outside: rounding, \<open>powi\<close> and the leaves by their number.\<close>

record 'x Env =
  round_f64 :: "real \<Rightarrow> real"
  powi_f64 :: "f64 \<Rightarrow> int \<Rightarrow> f64"
  leaves :: "nat \<Rightarrow> 'x leaf"

type_synonym 'x emit_fn = "Event list \<Rightarrow> 'x World \<Rightarrow> plugin_result \<times> 'x World"

datatype Emitter =
    Leaf nat
  | RetryEmitter nat BackoffConfig Emitter
  | CircuitBreakerEmitter nat CircuitBreakerConfig Emitter
  | FailureCaptureEmitter nat FailureCaptureConfig Emitter

fun name_of :: "'x Env \<Rightarrow> Emitter \<Rightarrow> string" where
  "name_of E (Leaf n) = leaf_name (leaves E n)"
| "name_of E (RetryEmitter a cfg inner) = ''retry''"
| "name_of E (CircuitBreakerEmitter a cfg inner) = ''circuit_breaker''"
| "name_of E (FailureCaptureEmitter a cfg inner) = ''failure_capture''"

section \<open>Retry\<close>

definition bump_retry :: "nat \<Rightarrow> 'x World \<Rightarrow> 'x World" where
  "bump_retry a w =
     w\<lparr>retries := (retries w)(a := (retries w a)\<lparr>retry_count := retry_count (retries w a) + 1\<rparr>)\<rparr>"

definition bump_recovered :: "nat \<Rightarrow> 'x World \<Rightarrow> 'x World" where
  "bump_recovered a w =
     w\<lparr>retries := (retries w)(a := (retries w a)\<lparr>recovered_count := recovered_count (retries w a) + 1\<rparr>)\<rparr>"

text \<open>Before an attempt: the delay is drawn, counted when it is not zero, and slept.\<close>

definition retry_wait :: "'x Env \<Rightarrow> nat \<Rightarrow> BackoffConfig \<Rightarrow> nat \<Rightarrow> 'x World \<Rightarrow> 'x World" where
  "retry_wait E a cfg attempt w =
     (let (delay, rng) = delay_for_attempt (round_f64 E) (powi_f64 E) cfg (of_nat attempt) (jitter_rng w);
          w1 = w\<lparr>jitter_rng := rng\<rparr>
      in if delay \<noteq> 0 then (bump_retry a w1)\<lparr>time_now := time_now w1 + delay\<rparr> else w1)"

text \<open>The loop over the attempts \<open>0..=max_attempts\<close>: \<open>n\<close> of them are left.\<close>

fun retry_loop ::
    "'x Env \<Rightarrow> nat \<Rightarrow> BackoffConfig \<Rightarrow> 'x emit_fn \<Rightarrow> nat \<Rightarrow> nat \<Rightarrow> PluginError option \<Rightarrow> 'x emit_fn"
  where
  "retry_loop E a cfg inner attempt 0 last_error events w =
     (Inl (case last_error of Some e \<Rightarrow> e | None \<Rightarrow> Send ''all retries exhausted''), w)"
| "retry_loop E a cfg inner attempt (Suc n) last_error events w =
     (case inner events (retry_wait E a cfg attempt w) of
        (Inr _, w1) \<Rightarrow> (Inr (), if 0 < attempt then bump_recovered a w1 else w1)
      | (Inl e, w1) \<Rightarrow> retry_loop E a cfg inner (attempt + 1) n (Some e) events w1)"

definition retry_emit :: "'x Env \<Rightarrow> nat \<Rightarrow> BackoffConfig \<Rightarrow> 'x emit_fn \<Rightarrow> 'x emit_fn" where
  "retry_emit E a cfg inner = retry_loop E a cfg inner 0 (unat (max_attempts cfg) + 1) None"

section \<open>Circuit breaker\<close>

definition put_breaker :: "nat \<Rightarrow> BreakerCell \<Rightarrow> 'x World \<Rightarrow> 'x World" where
  "put_breaker a c w = w\<lparr>breakers := (breakers w)(a := c)\<rparr>"

definition breaker_emit :: "nat \<Rightarrow> CircuitBreakerConfig \<Rightarrow> 'x emit_fn \<Rightarrow> 'x emit_fn" where
  "breaker_emit a cfg inner events w =
     (let (allowed, c) = should_allow_request cfg (time_now w) (breakers w a);
          w1 = put_breaker a c w
      in if \<not> allowed then (Inl NotReady, w1)
         else (case inner events w1 of
                 (Inr _, w2) \<Rightarrow> (Inr (), put_breaker a (record_success cfg (breakers w2 a)) w2)
               | (Inl e, w2) \<Rightarrow> (Inl e, put_breaker a (record_failure cfg (time_now w2) (breakers w2 a)) w2)))"

section \<open>Failure capture\<close>

definition failed_events ::
    "FailureCaptureConfig \<Rightarrow> string \<Rightarrow> nat \<Rightarrow> PluginError \<Rightarrow> Event list \<Rightarrow> FailedEvent list" where
  "failed_events cfg inner_name t e events =
     (if store_full_batch cfg
      then map (\<lambda>event. \<lparr>failed_event = event, failed_error = plugin_error_to_string e,
                          emitter_name = inner_name, failed_at = t, attempts = 1\<rparr>) events
      else (case events of
              [] \<Rightarrow> []
            | event # _ \<Rightarrow>
                [\<lparr>failed_event = event,
                  failed_error = plugin_error_to_string e @ '' (batch of '' @ show_nat (length events) @ '')'',
                  emitter_name = inner_name, failed_at = t, attempts = 1\<rparr>]))"

definition capture_emit ::
    "nat \<Rightarrow> FailureCaptureConfig \<Rightarrow> string \<Rightarrow> 'x emit_fn \<Rightarrow> 'x emit_fn" where
  "capture_emit a cfg inner_name inner events w =
     (case inner events w of
        (Inr _, w1) \<Rightarrow> (Inr (), w1)
      | (Inl e, w1) \<Rightarrow>
          (Inl e, w1\<lparr>failure_buffers := (failure_buffers w1)
                       (a := failure_buffer_push (failed_events cfg inner_name (time_now w1) e events)
                               (failure_buffers w1 a))\<rparr>))"

section \<open>Dispatch\<close>

fun emit :: "'x Env \<Rightarrow> Emitter \<Rightarrow> 'x emit_fn" where
  "emit E (Leaf n) events w =
     (let (r, dt, x) = leaf_emit (leaves E n) events (time_now w) (backend w)
      in (r, w\<lparr>time_now := time_now w + dt, backend := x\<rparr>))"
| "emit E (RetryEmitter a cfg inner) events w = retry_emit E a cfg (emit E inner) events w"
| "emit E (CircuitBreakerEmitter a cfg inner) events w = breaker_emit a cfg (emit E inner) events w"
| "emit E (FailureCaptureEmitter a cfg inner) events w =
     capture_emit a cfg (name_of E inner) (emit E inner) events w"

fun health :: "'x Env \<Rightarrow> Emitter \<Rightarrow> 'x World \<Rightarrow> bool \<times> 'x World" where
  "health E (Leaf n) w =
     (let (r, dt, x) = leaf_health (leaves E n) (time_now w) (backend w)
      in (r, w\<lparr>time_now := time_now w + dt, backend := x\<rparr>))"
| "health E (RetryEmitter a cfg inner) w = health E inner w"
| "health E (CircuitBreakerEmitter a cfg inner) w =
     (case current_state (breakers w a) of
        Open \<Rightarrow> (False, w)
      | _ \<Rightarrow> health E inner w)"
| "health E (FailureCaptureEmitter a cfg inner) w = health E inner w"

fun shutdown :: "'x Env \<Rightarrow> Emitter \<Rightarrow> 'x World \<Rightarrow> plugin_result \<times> 'x World" where
  "shutdown E (Leaf n) w =
     (let (r, dt, x) = leaf_shutdown (leaves E n) (time_now w) (backend w)
      in (r, w\<lparr>time_now := time_now w + dt, backend := x\<rparr>))"
| "shutdown E (RetryEmitter a cfg inner) w = shutdown E inner w"
| "shutdown E (CircuitBreakerEmitter a cfg inner) w = shutdown E inner w"
| "shutdown E (FailureCaptureEmitter a cfg inner) w = shutdown E inner w"

section \<open>Wrapping by hand\<close>

text \<open>The constructors of the wrappers; the cells of a wrapper are at the address \<open>a\<close>.\<close>

definition retry_emitter_new :: "nat \<Rightarrow> BackoffConfig \<Rightarrow> Emitter \<Rightarrow> 'x World \<Rightarrow> Emitter \<times> 'x World" where
  "retry_emitter_new a config inner w =
     (RetryEmitter a config inner, w\<lparr>retries := (retries w)(a := retry_cell_new)\<rparr>)"

definition retry_emitter_with_defaults :: "nat \<Rightarrow> Emitter \<Rightarrow> 'x World \<Rightarrow> Emitter \<times> 'x World" where
  "retry_emitter_with_defaults a inner w = retry_emitter_new a backoff_config_default inner w"

definition circuit_breaker_new :: "nat \<Rightarrow> CircuitBreakerConfig \<Rightarrow> Emitter \<Rightarrow> 'x World \<Rightarrow> Emitter \<times> 'x World" where
  "circuit_breaker_new a config inner w = (CircuitBreakerEmitter a config inner, put_breaker a breaker_cell_new w)"

definition circuit_breaker_with_defaults :: "nat \<Rightarrow> Emitter \<Rightarrow> 'x World \<Rightarrow> Emitter \<times> 'x World" where
  "circuit_breaker_with_defaults a inner w = circuit_breaker_new a circuit_breaker_config_default inner w"

definition failure_capture_new :: "Emitter \<Rightarrow> nat \<Rightarrow> FailureCaptureConfig \<Rightarrow> Emitter" where
  "failure_capture_new inner buffer config = FailureCaptureEmitter buffer config inner"

definition failure_capture_with_defaults :: "Emitter \<Rightarrow> nat \<Rightarrow> Emitter" where
  "failure_capture_with_defaults inner buffer = failure_capture_new inner buffer failure_capture_config_default"

section \<open>The builder\<close>

record ResilientEmitter =
  re_inner :: Emitter
  retry_config :: "BackoffConfig option"
  circuit_breaker_config :: "CircuitBreakerConfig option"
  failure_capture :: "(nat \<times> FailureCaptureConfig) option"

definition wrap_arc :: "Emitter \<Rightarrow> ResilientEmitter" where
  "wrap_arc emitter =
     \<lparr>re_inner = emitter, retry_config = None, circuit_breaker_config = None, failure_capture = None\<rparr>"

definition with_retry :: "BackoffConfig \<Rightarrow> ResilientEmitter \<Rightarrow> ResilientEmitter" where
  "with_retry config self = self\<lparr>retry_config := Some config\<rparr>"

definition with_default_retry :: "ResilientEmitter \<Rightarrow> ResilientEmitter" where
  "with_default_retry = with_retry backoff_config_default"

definition with_circuit_breaker :: "CircuitBreakerConfig \<Rightarrow> ResilientEmitter \<Rightarrow> ResilientEmitter" where
  "with_circuit_breaker config self = self\<lparr>circuit_breaker_config := Some config\<rparr>"

definition with_default_circuit_breaker :: "ResilientEmitter \<Rightarrow> ResilientEmitter" where
  "with_default_circuit_breaker = with_circuit_breaker circuit_breaker_config_default"

definition with_failure_capture ::
    "nat \<Rightarrow> FailureCaptureConfig \<Rightarrow> ResilientEmitter \<Rightarrow> ResilientEmitter" where
  "with_failure_capture buffer config self = self\<lparr>failure_capture := Some (buffer, config)\<rparr>"

definition with_default_failure_capture :: "nat \<Rightarrow> ResilientEmitter \<Rightarrow> ResilientEmitter" where
  "with_default_failure_capture buffer = with_failure_capture buffer failure_capture_config_default"

text \<open>\<open>build\<close> allocates the cells of the new wrappers at the address \<open>a\<close> of their stores.\<close>

definition build :: "nat \<Rightarrow> ResilientEmitter \<Rightarrow> 'x World \<Rightarrow> Emitter \<times> 'x World" where
  "build a self w =
     (let current = re_inner self;
          (current, w) = (case retry_config self of
              Some config \<Rightarrow> retry_emitter_new a config current w
            | None \<Rightarrow> (current, w));
          (current, w) = (case circuit_breaker_config self of
              Some config \<Rightarrow> circuit_breaker_new a config current w
            | None \<Rightarrow> (current, w));
          current = (case failure_capture self of
              Some (buffer, config) \<Rightarrow> failure_capture_new current buffer config
            | None \<Rightarrow> current)
      in (current, w))"

lemmas wrapper_defs = retry_emitter_new_def circuit_breaker_new_def failure_capture_new_def

end
