(* ===== verification/Middleware.thy ===== *)
theory Middleware
  imports Messages "HOL-Library.Sublist"
begin

text \<open>
  The \<open>Middleware\<close> trait of \<open>gateway/src/middleware/mod.rs\<close> as an interface. A middleware is
  a state and a \<open>process\<close> operation that returns a message or drops it; an operation that can
  panic says so in its result. What one call reads from outside, the clocks and a fresh
  identifier, is the record \<open>Call\<close>; it serves one pass of a message through a chain, whose middlewares read the
  clock within that pass.
\<close>

record Call =
  call_time :: nat
  call_wall :: "i64 option"
  call_ulid :: string

type_synonym 's process_fn = "Call \<Rightarrow> Message \<Rightarrow> 's \<Rightarrow> panic + (Message option \<times> 's)"

text \<open>The messages of a run, processed one after the other.\<close>

fun mw_run :: "'s process_fn \<Rightarrow> (Call \<times> Message) list \<Rightarrow> 's \<Rightarrow> panic + (Message option list \<times> 's)" where
  "mw_run process [] s = Inr ([], s)"
| "mw_run process ((c, m) # ms) s =
     (case process c m s of
        Inl p \<Rightarrow> Inl p
      | Inr (out, s) \<Rightarrow>
          (case mw_run process ms s of Inl p \<Rightarrow> Inl p | Inr (outs, s) \<Rightarrow> Inr (out # outs, s)))"

text \<open>The messages that came through.\<close>

definition passed :: "Message option list \<Rightarrow> Message list" where
  "passed outs = concat (map (\<lambda>out. case out of None \<Rightarrow> [] | Some m \<Rightarrow> [m]) outs)"

lemma passed_simps [simp]:
  "passed [] = []" "passed (None # outs) = passed outs" "passed (Some m # outs) = m # passed outs"
  by (simp_all add: passed_def)

text \<open>
  The contract of a middleware: in a state that satisfies its invariant it does not
  panic, it keeps the invariant, and what it passes on is related to what it got.
\<close>

locale middleware =
  fixes process :: "'s process_fn" and inv :: "'s \<Rightarrow> bool" and keeps :: "Message \<Rightarrow> Message \<Rightarrow> bool"
  assumes total: "inv s \<Longrightarrow> \<exists>out s'. process c m s = Inr (out, s') \<and> inv s' \<and> (\<forall>m'. out = Some m' \<longrightarrow> keeps m m')"
begin

lemma run_total:
  "inv s \<Longrightarrow> \<exists>outs s'. mw_run process ms s = Inr (outs, s') \<and> inv s' \<and>
     list_all2 (\<lambda>(_, m) out. \<forall>m'. out = Some m' \<longrightarrow> keeps m m') ms outs"
proof (induction ms arbitrary: s)
  case (Cons cm ms)
  obtain c m where cm: "cm = (c, m)" by fastforce
  obtain out s1 where s1: "process c m s = Inr (out, s1)" "inv s1" "\<forall>m'. out = Some m' \<longrightarrow> keeps m m'"
    using total [OF Cons.prems] by blast
  with Cons.IH [OF s1(2)] show ?case by (fastforce simp: cm)
qed simp

lemma step_inv: "inv s \<Longrightarrow> process c m s = Inr (out, s') \<Longrightarrow> inv s'"
  using total [of s c m] by auto

lemma step_keeps: "inv s \<Longrightarrow> process c m s = Inr (Some m', s') \<Longrightarrow> keeps m m'"
  using total [of s c m] by auto

end

text \<open>A middleware that only decides: what it passes on is the message it got.\<close>

locale deciding_middleware = middleware process inv "\<lambda>m m'. m' = m"
  for process :: "'s process_fn" and inv :: "'s \<Rightarrow> bool"
begin

lemma run_subseq:
  assumes "inv s"
  shows "\<exists>outs s'. mw_run process ms s = Inr (outs, s') \<and> inv s' \<and> length outs = length ms \<and>
    subseq (passed outs) (map snd ms)"
proof -
  obtain outs s' where run: "mw_run process ms s = Inr (outs, s')" "inv s'"
    and all: "list_all2 (\<lambda>(_, m) out. \<forall>m'. out = Some m' \<longrightarrow> m' = m) ms outs"
    using run_total [OF assms] by blast
  from all have "length outs = length ms \<and> subseq (passed outs) (map snd ms)"
  proof (induction rule: list_all2_induct)
    case (Cons cm ms out outs)
    then show ?case by (cases out) (auto split: prod.splits)
  qed simp
  with run show ?thesis by blast
qed

end

text \<open>Who a message is: what routing, enriching and validating leave alone.\<close>

definition same_identity :: "Message \<Rightarrow> Message \<Rightarrow> bool" where
  "same_identity m m' \<longleftrightarrow> msg_id m' = msg_id m \<and> timestamp m' = timestamp m \<and> source m' = source m \<and>
     message_type m' = message_type m \<and> payload m' = payload m"

lemma same_identity_refl [simp]: "same_identity m m"
  by (simp add: same_identity_def)

lemma same_identity_trans: "same_identity a b \<Longrightarrow> same_identity b c \<Longrightarrow> same_identity a c"
  by (simp add: same_identity_def)

lemma same_identity_update [simp]:
  "same_identity m (m\<lparr>metadata := md\<rparr>)" "same_identity m (m\<lparr>route_to := r\<rparr>)"
  by (simp_all add: same_identity_def)

end
