(* ===== verification/Rate_Limiter.thy ===== *)
theory Rate_Limiter
  imports Middleware
begin

text \<open>
  The token bucket of \<open>gateway/src/middleware/rate_limiter.rs\<close>. The record has the fields
  of the struct, its atomics as words. The first part is the code run by one thread, with
  the reading of the clock as an argument; the panic of the division in \<open>refill\<close> is a result.
  The second part is the code run by several threads: every load and every
  \<open>compare_exchange_weak\<close> is a step of its own, and a weak exchange may fail spuriously.
\<close>

section \<open>The bucket, run by one thread\<close>

record RateLimiter =
  rl_capacity :: u64
  refill_amount :: u64
  refill_nanos :: u64
  tokens :: u64
  last_refill :: u64
  rl_start :: nat

definition interval_nanos :: "u64 \<Rightarrow> u64" where
  "interval_nanos rate = (if rate = 0 then u64_MAX else 1000000000 div rate)"

definition rate_limiter_new :: "nat \<Rightarrow> u64 \<Rightarrow> u64 \<Rightarrow> RateLimiter" where
  "rate_limiter_new t rate burst =
     (let scaled_burst = saturating_mul burst 1000
      in \<lparr>rl_capacity = scaled_burst, refill_amount = 1000, refill_nanos = interval_nanos rate,
          tokens = scaled_burst, last_refill = 0, rl_start = t\<rparr>)"

text \<open>The clock reading of \<open>refill\<close>: \<open>self.start.elapsed().as_nanos() as u64\<close>.\<close>

definition now_nanos :: "nat \<Rightarrow> RateLimiter \<Rightarrow> u64" where
  "now_nanos t self = of_nat (t - rl_start self)"

definition rate_limiter_refill :: "nat \<Rightarrow> RateLimiter \<Rightarrow> panic + RateLimiter" where
  "rate_limiter_refill t self =
     (let elapsed = saturating_sub (now_nanos t self) (last_refill self) in
      if elapsed < refill_nanos self then Inr self
      else (case div_u64 elapsed (refill_nanos self) of
          Inl p \<Rightarrow> Inl p
        | Inr intervals \<Rightarrow>
            if intervals = 0 then Inr self
            else
              let new_last = last_refill self + intervals * refill_nanos self;
                  tokens_to_add = intervals * refill_amount self in
              if tokens_to_add = 0 then Inr (self\<lparr>last_refill := new_last\<rparr>)
              else Inr (self\<lparr>last_refill := new_last,
                tokens := min (saturating_add (tokens self) tokens_to_add) (rl_capacity self)\<rparr>)))"

definition rate_limiter_try_acquire :: "nat \<Rightarrow> RateLimiter \<Rightarrow> panic + (bool \<times> RateLimiter)" where
  "rate_limiter_try_acquire t self =
     (case rate_limiter_refill t self of
        Inl p \<Rightarrow> Inl p
      | Inr self \<Rightarrow>
          if tokens self < 1000 then Inr (False, self)
          else Inr (True, self\<lparr>tokens := tokens self - 1000\<rparr>))"

definition rate_limiter_process ::
  "nat \<Rightarrow> Message \<Rightarrow> RateLimiter \<Rightarrow> panic + (Message option \<times> RateLimiter)" where
  "rate_limiter_process t msg self =
     (case rate_limiter_try_acquire t self of
        Inl p \<Rightarrow> Inl p
      | Inr (ok, self) \<Rightarrow> Inr (if ok then Some msg else None, self))"

text \<open>A run: one call of \<open>try_acquire\<close> per clock reading.\<close>

fun rl_run :: "nat list \<Rightarrow> RateLimiter \<Rightarrow> panic + (bool list \<times> RateLimiter)" where
  "rl_run [] s = Inr ([], s)"
| "rl_run (t # ts) s =
     (case rate_limiter_try_acquire t s of
        Inl p \<Rightarrow> Inl p
      | Inr (b, s') \<Rightarrow> (case rl_run ts s' of Inl p \<Rightarrow> Inl p | Inr (bs, s'') \<Rightarrow> Inr (b # bs, s'')))"

text \<open>
  What every operation keeps: the bucket holds at most its capacity, adds one token per
  interval, and the interval is not zero.
\<close>

definition rl_wf :: "RateLimiter \<Rightarrow> bool" where
  "rl_wf s \<longleftrightarrow> tokens s \<le> rl_capacity s \<and> refill_amount s = 1000 \<and> refill_nanos s \<noteq> 0"

text \<open>What no operation changes.\<close>

definition rl_params :: "RateLimiter \<Rightarrow> u64 \<times> u64 \<times> u64 \<times> nat" where
  "rl_params s = (rl_capacity s, refill_amount s, refill_nanos s, rl_start s)"

lemma interval_nanos_pos_iff: "interval_nanos rate \<noteq> 0 \<longleftrightarrow> rate \<le> 1000000000"
proof (cases "rate = 0")
  case False
  then have "unat rate > 0" by (simp add: unat_gt_0)
  have "interval_nanos rate = 0 \<longleftrightarrow> unat (1000000000 div rate) = 0"
    using False by (simp add: interval_nanos_def unat_eq_zero)
  also have "\<dots> \<longleftrightarrow> 1000000000 div unat rate = 0" by (simp add: unat_div)
  also have "\<dots> \<longleftrightarrow> 1000000000 < unat rate" using \<open>unat rate > 0\<close> by (simp add: div_eq_0_iff)
  also have "\<dots> \<longleftrightarrow> \<not> rate \<le> 1000000000" by (simp add: word_le_nat_alt not_le)
  finally show ?thesis by blast
qed (simp add: interval_nanos_def)

lemma rl_wf_new: "rate \<le> 1000000000 \<Longrightarrow> rl_wf (rate_limiter_new t rate burst)"
  by (simp add: rl_wf_def rate_limiter_new_def Let_def interval_nanos_pos_iff)

text \<open>
  The arithmetic of one claim: the intervals that fit into the elapsed time advance
  \<open>last_refill\<close> without wrapping and not beyond the clock.
\<close>

lemma claim_arith:
  fixes last rn now :: u64
  assumes "rn \<noteq> 0"
  defines "k \<equiv> saturating_sub now last div rn"
  shows "unat (last + k * rn) = unat last + unat k * unat rn" (is ?adv)
    and "unat last + unat k * unat rn \<le> max (unat last) (unat now)" (is ?le)
proof -
  have fit: "unat k * unat rn \<le> unat now - unat last"
    by (simp add: k_def unat_div unat_saturating_sub)
  then show ?le by linarith
  have "unat last + unat k * unat rn < 18446744073709551616"
    using \<open>?le\<close> unat_less_u64 [of last] unat_less_u64 [of now] by linarith
  then have "unat last + unat k * unat rn < 2 ^ 64" by simp
  moreover from this have "unat (k * rn) = unat k * unat rn" by (intro unat_mult_u64) simp
  ultimately show ?adv by (simp add: unat_add_u64)
qed

lemma unat_mult_le: "unat (a * b :: u64) \<le> unat a * unat b"
  by (simp add: unat_word_ariths)

lemma rate_limiter_refill_spec:
  assumes "rl_wf s"
  shows "\<exists>k s'. rate_limiter_refill t s = Inr s' \<and> rl_wf s' \<and> rl_params s' = rl_params s \<and>
    unat (last_refill s') = unat (last_refill s) + k * unat (refill_nanos s) \<and>
    unat (last_refill s') \<le> max (unat (last_refill s)) (unat (now_nanos t s)) \<and>
    unat (tokens s') \<le> unat (tokens s) + 1000 * k"
proof (cases "saturating_sub (now_nanos t s) (last_refill s) < refill_nanos s")
  case True
  then show ?thesis using assms
    by (intro exI [of _ 0]) (simp add: rate_limiter_refill_def)
next
  case False
  let ?k = "saturating_sub (now_nanos t s) (last_refill s) div refill_nanos s"
  have rn: "refill_nanos s \<noteq> 0" and cap: "tokens s \<le> rl_capacity s" and amount: "refill_amount s = 1000"
    using assms by (simp_all add: rl_wf_def)
  note adv = claim_arith [OF rn, of "last_refill s" "now_nanos t s"]
  have le: "unat (min (saturating_add (tokens s) (?k * 1000)) (rl_capacity s)) \<le> unat (tokens s) + 1000 * unat ?k"
    using unat_mult_le [of ?k 1000] by (simp add: word_nat)
  show ?thesis using False rn cap amount adv le
    by (intro exI [of _ "unat ?k"])
      (auto simp: rate_limiter_refill_def div_u64_def Let_def rl_wf_def rl_params_def)
qed

lemma rate_limiter_try_acquire_spec:
  assumes "rl_wf s"
  shows "\<exists>k b s'. rate_limiter_try_acquire t s = Inr (b, s') \<and> rl_wf s' \<and> rl_params s' = rl_params s \<and>
    unat (last_refill s') = unat (last_refill s) + k * unat (refill_nanos s) \<and>
    unat (last_refill s') \<le> max (unat (last_refill s)) (unat (now_nanos t s)) \<and>
    unat (tokens s') + (if b then 1000 else 0) \<le> unat (tokens s) + 1000 * k"
proof -
  obtain k s1 where s1: "rate_limiter_refill t s = Inr s1" "rl_wf s1" "rl_params s1 = rl_params s"
    "unat (last_refill s1) = unat (last_refill s) + k * unat (refill_nanos s)"
    "unat (last_refill s1) \<le> max (unat (last_refill s)) (unat (now_nanos t s))"
    "unat (tokens s1) \<le> unat (tokens s) + 1000 * k"
    using rate_limiter_refill_spec [OF assms, of t] by blast
  show ?thesis
  proof (cases "tokens s1 < 1000")
    case True
    with s1 show ?thesis by (intro exI [of _ k] exI [of _ False]) (simp add: rate_limiter_try_acquire_def)
  next
    case False
    then have "unat (tokens s1 - 1000) = unat (tokens s1) - 1000" and "unat (tokens s1) \<ge> 1000"
      by (simp_all add: unat_sub word_le_nat_alt word_less_nat_alt not_less)
    with False s1 show ?thesis
      by (intro exI [of _ k] exI [of _ True])
        (auto simp: rate_limiter_try_acquire_def rl_wf_def rl_params_def word_le_nat_alt)
  qed
qed

lemma now_nanos_params: "rl_params s' = rl_params s \<Longrightarrow> now_nanos t s' = now_nanos t s"
  by (simp add: now_nanos_def rl_params_def)

lemma now_nanos_le: "unat (now_nanos t s) \<le> t - rl_start s"
  by (simp add: now_nanos_def word_nat)

text \<open>The granted tokens of a run are paid for by the tokens at its start and the claimed intervals.\<close>

lemma rl_run_spec:
  assumes "rl_wf s" and "\<forall>t\<in>set ts. t \<le> T"
  shows "\<exists>k bs s'. rl_run ts s = Inr (bs, s') \<and> length bs = length ts \<and> rl_wf s' \<and>
    rl_params s' = rl_params s \<and>
    unat (last_refill s') = unat (last_refill s) + k * unat (refill_nanos s) \<and>
    unat (last_refill s') \<le> max (unat (last_refill s)) (T - rl_start s) \<and>
    1000 * length (filter (\<lambda>b. b) bs) + unat (tokens s') \<le> unat (tokens s) + 1000 * k"
  using assms
proof (induction ts arbitrary: s)
  case Nil
  then show ?case by (intro exI [of _ 0]) simp
next
  case (Cons t ts)
  obtain k1 b s1 where s1: "rate_limiter_try_acquire t s = Inr (b, s1)" "rl_wf s1" "rl_params s1 = rl_params s"
    "unat (last_refill s1) = unat (last_refill s) + k1 * unat (refill_nanos s)"
    "unat (last_refill s1) \<le> max (unat (last_refill s)) (unat (now_nanos t s))"
    "unat (tokens s1) + (if b then 1000 else 0) \<le> unat (tokens s) + 1000 * k1"
    using rate_limiter_try_acquire_spec [OF Cons.prems(1), of t] by blast
  obtain k2 bs s2 where s2: "rl_run ts s1 = Inr (bs, s2)" "length bs = length ts" "rl_wf s2"
    "rl_params s2 = rl_params s1"
    "unat (last_refill s2) = unat (last_refill s1) + k2 * unat (refill_nanos s1)"
    "unat (last_refill s2) \<le> max (unat (last_refill s1)) (T - rl_start s1)"
    "1000 * length (filter (\<lambda>b. b) bs) + unat (tokens s2) \<le> unat (tokens s1) + 1000 * k2"
    using Cons.IH [OF s1(2)] Cons.prems(2) unfolding list.set by blast
  have start: "rl_start s1 = rl_start s" "refill_nanos s1 = refill_nanos s"
    using s1(3) by (simp_all add: rl_params_def)
  have "unat (now_nanos t s) \<le> T - rl_start s"
    using now_nanos_le [of t s] Cons.prems(2) by (simp add: le_diff_iff') (meson diff_le_mono order_trans)
  then have clock: "unat (last_refill s2) \<le> max (unat (last_refill s)) (T - rl_start s)"
    using s1(5) s2(6) start by linarith
  show ?case
    by (intro exI [of _ "k1 + k2"] exI [of _ "b # bs"] exI [of _ s2])
      (use s1 s2 start clock in \<open>auto simp: algebra_simps split: if_splits\<close>)
qed

text \<open>The rate limit: over any sequence of requests, at whatever times up to \<open>T\<close> and in
  whatever order the clock was read, a limiter made at \<open>t\<^sub>0\<close> with a rate of at most one message
  per nanosecond answers every request and admits at most \<open>burst\<close> messages plus one message per
  refill interval that has passed. A rate of zero never refills within the range of the clock.\<close>

theorem rate_limiter_rate_bound:
  assumes "rate \<le> 1000000000" and "\<forall>t\<in>set ts. t \<le> T"
  shows "\<exists>bs s. rl_run ts (rate_limiter_new t0 rate burst) = Inr (bs, s) \<and> length bs = length ts \<and>
    length (filter (\<lambda>b. b) bs) \<le> unat burst + (T - t0) div unat (interval_nanos rate)"
proof -
  let ?s = "rate_limiter_new t0 rate burst"
  obtain k bs s where run: "rl_run ts ?s = Inr (bs, s)" "length bs = length ts"
    and last: "unat (last_refill s) = unat (last_refill ?s) + k * unat (refill_nanos ?s)"
      "unat (last_refill s) \<le> max (unat (last_refill ?s)) (T - rl_start ?s)"
    and paid: "1000 * length (filter (\<lambda>b. b) bs) + unat (tokens s) \<le> unat (tokens ?s) + 1000 * k"
    using rl_run_spec [OF rl_wf_new [OF assms(1)] assms(2), of t0 burst] by blast
  have adv: "unat (last_refill s) = k * unat (interval_nanos rate)" and clock: "unat (last_refill s) \<le> T - t0"
    using last by (simp_all add: rate_limiter_new_def Let_def)
  have "0 < unat (interval_nanos rate)"
    using assms(1) interval_nanos_pos_iff by (simp add: unat_gt_0)
  then have "k \<le> (T - t0) div unat (interval_nanos rate)"
    using adv clock by (simp add: less_eq_div_iff_mult_less_eq)
  moreover have "unat (tokens ?s) \<le> 1000 * unat burst"
    by (simp add: rate_limiter_new_def Let_def word_nat)
  ultimately show ?thesis using run paid by auto
qed

theorem rate_limiter_rate_bound_witness:
  "\<exists>bs s. rl_run [0, 5, 100000000, 200000000] (rate_limiter_new 0 10 2) = Inr (bs, s) \<and>
    length bs = Suc (Suc (Suc (Suc 0))) \<and>
    length (filter (\<lambda>b. b) bs) \<le> 4"
  using rate_limiter_rate_bound [of 10 "[0, 5, 100000000, 200000000]" 200000000 0 2]
  by (simp add: interval_nanos_def del: rl_run.simps)

text \<open>C36. A limiter configured with more than one message per nanosecond rounds its refill interval
  down to zero and panics on the division at its first request, whenever that comes; with any smaller
  rate no request of any run panics.\<close>

theorem rate_limiter_panics_iff:
  "(rate_limiter_try_acquire t (rate_limiter_new t0 rate burst) = Inl DivideByZero \<longleftrightarrow>
      1000000000 < rate) \<and>
   ((\<exists>p ts. rl_run ts (rate_limiter_new t0 rate burst) = Inl p) \<longleftrightarrow> 1000000000 < rate)"
proof (cases "rate \<le> 1000000000")
  case True
  have "rl_run ts (rate_limiter_new t0 rate burst) \<noteq> Inl p" for ts p
    using rl_run_spec [OF rl_wf_new [OF True], of ts "Max (set ts)" t0 burst] by auto
  moreover have "rate_limiter_try_acquire t (rate_limiter_new t0 rate burst) \<noteq> Inl p" for p
    using rate_limiter_try_acquire_spec [OF rl_wf_new [OF True]] by (metis sum.distinct(1))
  ultimately show ?thesis using True by (auto simp: not_less)
next
  case False
  then have "rate_limiter_try_acquire t (rate_limiter_new t0 rate burst) = Inl DivideByZero" for t
    using interval_nanos_pos_iff [of rate]
    by (auto simp: rate_limiter_try_acquire_def rate_limiter_refill_def rate_limiter_new_def
        div_u64_def Let_def)
  moreover from this have "rl_run [0] (rate_limiter_new t0 rate burst) = Inl DivideByZero"
    by simp
  ultimately show ?thesis using False by (metis not_le)
qed

section \<open>The bucket, shared by several threads\<close>

text \<open>
  Where a thread is inside \<open>try_acquire\<close>, with the local variables that the rest of the
  call needs: before the load of \<open>last_refill\<close> (with the clock value it read), before the
  exchange of \<open>last_refill\<close>, before the load and the exchange that add tokens, before the
  load and the exchange that take one.
\<close>

datatype rl_pc =
    Idle
  | Load_last u64
  | Claim u64 u64
  | Load_tokens u64
  | Store_tokens u64 u64
  | Load_acquire
  | Take u64

record rl_sys =
  bucket :: RateLimiter
  clock :: nat
  threads :: "rl_pc list"
  granted :: nat

definition goto :: "nat \<Rightarrow> rl_pc \<Rightarrow> rl_sys \<Rightarrow> rl_sys" where
  "goto i pc s = s\<lparr>threads := (threads s)[i := pc]\<rparr>"

definition at_pc :: "rl_sys \<Rightarrow> nat \<Rightarrow> rl_pc \<Rightarrow> bool" where
  "at_pc s i pc \<longleftrightarrow> i < length (threads s) \<and> threads s ! i = pc"

definition claimable :: "u64 \<Rightarrow> u64 \<Rightarrow> RateLimiter \<Rightarrow> u64" where
  "claimable now prev b = saturating_sub now prev div refill_nanos b"

definition topped_up :: "u64 \<Rightarrow> u64 \<Rightarrow> RateLimiter \<Rightarrow> u64" where
  "topped_up add cur b = min (saturating_add cur add) (rl_capacity b)"

inductive rl_step :: "rl_sys \<Rightarrow> rl_sys \<Rightarrow> bool" where
  tick: "rl_step s (s\<lparr>clock := clock s + d\<rparr>)"
| call: "at_pc s i Idle \<Longrightarrow> rl_step s (goto i (Load_last (now_nanos (clock s) (bucket s))) s)"
| load_last: "\<lbrakk>at_pc s i (Load_last now); prev = last_refill (bucket s); refill_nanos (bucket s) \<noteq> 0\<rbrakk> \<Longrightarrow>
    rl_step s (goto i (if saturating_sub now prev < refill_nanos (bucket s) \<or> claimable now prev (bucket s) = 0
                       then Load_acquire else Claim now prev) s)"
| claim_ok: "\<lbrakk>at_pc s i (Claim now prev); last_refill (bucket s) = prev; k = claimable now prev (bucket s);
      add = k * refill_amount (bucket s)\<rbrakk> \<Longrightarrow>
    rl_step s (goto i (if add = 0 then Load_acquire else Load_tokens add)
      (s\<lparr>bucket := (bucket s)\<lparr>last_refill := prev + k * refill_nanos (bucket s)\<rparr>\<rparr>))"
| claim_fail: "at_pc s i (Claim now prev) \<Longrightarrow> rl_step s (goto i (Load_last now) s)"
| load_tokens: "\<lbrakk>at_pc s i (Load_tokens add); cur = tokens (bucket s)\<rbrakk> \<Longrightarrow>
    rl_step s (goto i (if cur = topped_up add cur (bucket s) then Load_acquire else Store_tokens add cur) s)"
| store_ok: "\<lbrakk>at_pc s i (Store_tokens add cur); tokens (bucket s) = cur\<rbrakk> \<Longrightarrow>
    rl_step s (goto i Load_acquire (s\<lparr>bucket := (bucket s)\<lparr>tokens := topped_up add cur (bucket s)\<rparr>\<rparr>))"
| store_fail: "at_pc s i (Store_tokens add cur) \<Longrightarrow> rl_step s (goto i (Load_tokens add) s)"
| load_acquire: "\<lbrakk>at_pc s i Load_acquire; cur = tokens (bucket s)\<rbrakk> \<Longrightarrow>
    rl_step s (goto i (if cur < 1000 then Idle else Take cur) s)"
| take_ok: "\<lbrakk>at_pc s i (Take cur); tokens (bucket s) = cur\<rbrakk> \<Longrightarrow>
    rl_step s (goto i Idle (s\<lparr>bucket := (bucket s)\<lparr>tokens := cur - 1000\<rparr>, granted := Suc (granted s)\<rparr>))"
| take_fail: "at_pc s i (Take cur) \<Longrightarrow> rl_step s (goto i Load_acquire s)"

definition rl_init :: "nat \<Rightarrow> u64 \<Rightarrow> u64 \<Rightarrow> nat \<Rightarrow> rl_sys" where
  "rl_init t rate burst n =
     \<lparr>bucket = rate_limiter_new t rate burst, clock = t, threads = replicate n Idle, granted = 0\<rparr>"

text \<open>Tokens that a thread has claimed time for and not yet added.\<close>

fun pending_tokens :: "rl_pc \<Rightarrow> nat" where
  "pending_tokens (Load_tokens add) = unat add"
| "pending_tokens (Store_tokens add _) = unat add"
| "pending_tokens _ = 0"

text \<open>What a thread remembers: clock values of the past, a non-empty bucket before a take.\<close>

fun pc_ok :: "rl_sys \<Rightarrow> rl_pc \<Rightarrow> bool" where
  "pc_ok s (Load_last now) \<longleftrightarrow> unat now \<le> clock s - rl_start (bucket s)"
| "pc_ok s (Claim now prev) \<longleftrightarrow> unat now \<le> clock s - rl_start (bucket s)"
| "pc_ok s (Take cur) \<longleftrightarrow> 1000 \<le> unat cur"
| "pc_ok s _ \<longleftrightarrow> True"

definition rl_inv :: "rl_sys \<Rightarrow> bool" where
  "rl_inv s \<longleftrightarrow> rl_wf (bucket s) \<and> list_all (pc_ok s) (threads s) \<and>
     (\<exists>k. unat (last_refill (bucket s)) = k * unat (refill_nanos (bucket s)) \<and>
          unat (last_refill (bucket s)) \<le> clock s - rl_start (bucket s) \<and>
          1000 * granted s + unat (tokens (bucket s)) + sum_list (map pending_tokens (threads s))
            \<le> unat (rl_capacity (bucket s)) + 1000 * k)"

lemma goto_simps [simp]:
  "bucket (goto i pc s) = bucket s" "clock (goto i pc s) = clock s" "granted (goto i pc s) = granted s"
  "threads (goto i pc s) = (threads s)[i := pc]"
  by (simp_all add: goto_def)

lemma sum_list_map_update:
  fixes f :: "'a \<Rightarrow> nat"
  assumes "i < length xs"
  shows "sum_list (map f (xs[i := x])) + f (xs ! i) = sum_list (map f xs) + f x"
  using assms by (induction xs arbitrary: i) (auto split: nat.splits)

lemma pc_ok_cong:
  "clock s \<le> clock s' \<Longrightarrow> rl_start (bucket s') = rl_start (bucket s) \<Longrightarrow> pc_ok s pc \<Longrightarrow> pc_ok s' pc"
  by (cases pc) auto

lemma pc_ok_goto [simp]: "pc_ok (goto i pc s) = pc_ok s"
  by (rule ext, rename_tac pc', case_tac pc') simp_all

text \<open>One rule for all steps of a thread: the invariant moves along when the books balance.\<close>

lemma rl_inv_goto:
  assumes inv: "rl_inv s" and at: "at_pc s i pc" and ok: "pc_ok s pc'"
    and clock: "clock s' = clock s" and threads: "threads s' = threads s" and wf: "rl_wf (bucket s')"
    and params: "rl_params (bucket s') = rl_params (bucket s)"
    and adv: "unat (last_refill (bucket s')) = unat (last_refill (bucket s)) + k * unat (refill_nanos (bucket s))"
    and le: "unat (last_refill (bucket s')) \<le> clock s - rl_start (bucket s)"
    and books: "1000 * granted s' + unat (tokens (bucket s')) + pending_tokens pc'
      \<le> 1000 * granted s + unat (tokens (bucket s)) + pending_tokens pc + 1000 * k"
  shows "rl_inv (goto i pc' s')"
proof -
  obtain k0 where k0: "unat (last_refill (bucket s)) = k0 * unat (refill_nanos (bucket s))"
    "1000 * granted s + unat (tokens (bucket s)) + sum_list (map pending_tokens (threads s))
      \<le> unat (rl_capacity (bucket s)) + 1000 * k0"
    using inv by (auto simp: rl_inv_def)
  have p: "rl_capacity (bucket s') = rl_capacity (bucket s)" "refill_nanos (bucket s') = refill_nanos (bucket s)"
    "rl_start (bucket s') = rl_start (bucket s)"
    using params by (simp_all add: rl_params_def)
  have sum: "sum_list (map pending_tokens ((threads s)[i := pc'])) + pending_tokens pc
      = sum_list (map pending_tokens (threads s)) + pending_tokens pc'"
    using sum_list_map_update [of i "threads s" pending_tokens pc'] at by (auto simp: at_pc_def)
  have "pc_ok s' pc'" and "list_all (pc_ok s') (threads s)"
    using ok inv pc_ok_cong [of s s'] clock p by (auto simp: rl_inv_def list_all_iff)
  then have "list_all (pc_ok s') ((threads s)[i := pc'])"
    using set_update_subset_insert [of "threads s" i pc'] by (auto simp: list_all_iff)
  moreover have "1000 * granted s' + unat (tokens (bucket s')) + sum_list (map pending_tokens ((threads s)[i := pc']))
      \<le> unat (rl_capacity (bucket s)) + 1000 * (k0 + k)"
    using k0(2) sum books unfolding distrib_left by linarith
  moreover have "unat (last_refill (bucket s')) = (k0 + k) * unat (refill_nanos (bucket s))"
    using k0(1) adv by (simp add: algebra_simps)
  ultimately show ?thesis
    using wf le p clock threads unfolding rl_inv_def by (intro conjI exI [of _ "k0 + k"]) simp_all
qed

lemma pc_ok_at: "rl_inv s \<Longrightarrow> at_pc s i pc \<Longrightarrow> pc_ok s pc"
  by (auto simp: rl_inv_def list_all_iff at_pc_def)

lemma rl_inv_step:
  assumes "rl_step s t" and inv: "rl_inv s"
  shows "rl_inv t"
  using assms(1)
proof cases
  case (tick d)
  have "list_all (pc_ok t) (threads s)"
    using inv pc_ok_cong [of s t] tick by (auto simp: rl_inv_def list_all_iff)
  with inv tick show ?thesis by (auto simp: rl_inv_def)
next
  case (claim_ok i now prev k add)
  have wf: "rl_wf (bucket s)" and rn: "refill_nanos (bucket s) \<noteq> 0" and amount: "refill_amount (bucket s) = 1000"
    using inv by (simp_all add: rl_inv_def rl_wf_def)
  have "unat now \<le> clock s - rl_start (bucket s)"
    using pc_ok_at [OF inv claim_ok(2)] by simp
  then have le: "unat (prev + k * refill_nanos (bucket s)) \<le> clock s - rl_start (bucket s)"
    and adv: "unat (prev + k * refill_nanos (bucket s)) = unat prev + unat k * unat (refill_nanos (bucket s))"
    using claim_arith [OF rn, of prev now] inv claim_ok(3,4) by (auto simp: rl_inv_def claimable_def)
  have "unat add \<le> 1000 * unat k" using unat_mult_le [of k 1000] claim_ok(5) amount by simp
  then show ?thesis unfolding claim_ok(1)
    using wf le adv claim_ok
    by (intro rl_inv_goto [OF inv claim_ok(2), where k = "unat k"])
      (auto simp: rl_wf_def rl_params_def)
next
  case (take_ok i cur)
  have "1000 \<le> unat cur"
    using pc_ok_at [OF inv take_ok(2)] by simp
  then have "unat (cur - 1000) + 1000 = unat cur" by (simp add: unat_sub word_le_nat_alt)
  then show ?thesis unfolding take_ok(1) using inv take_ok(3)
    by (intro rl_inv_goto [OF inv take_ok(2), where k = 0])
      (auto simp: rl_inv_def rl_wf_def rl_params_def word_le_nat_alt)
next
  case (store_ok i add cur)
  have "unat (topped_up add cur (bucket s)) \<le> unat cur + unat add"
    by (simp add: topped_up_def word_nat)
  then show ?thesis unfolding store_ok(1) using inv store_ok(3)
    by (intro rl_inv_goto [OF inv store_ok(2), where k = 0])
      (auto simp: rl_inv_def rl_wf_def rl_params_def topped_up_def)
next
  case (call i)
  show ?thesis unfolding call(1) using call(2-) inv now_nanos_le [of "clock s" "bucket s"]
    by (intro rl_inv_goto [OF inv call(2), where k = 0]) (auto simp: rl_inv_def)
next
  case (load_last i now prev)
  show ?thesis unfolding load_last(1) using pc_ok_at [OF inv load_last(2)] inv
    by (intro rl_inv_goto [OF inv load_last(2), where k = 0]) (auto simp: rl_inv_def)
next
  case (claim_fail i now prev)
  show ?thesis unfolding claim_fail(1) using pc_ok_at [OF inv claim_fail(2)] inv
    by (intro rl_inv_goto [OF inv claim_fail(2), where k = 0]) (auto simp: rl_inv_def)
next
  case (load_tokens i add cur)
  show ?thesis unfolding load_tokens(1) using load_tokens(2-) inv
    by (intro rl_inv_goto [OF inv load_tokens(2), where k = 0]) (auto simp: rl_inv_def)
next
  case (store_fail i add cur)
  show ?thesis unfolding store_fail(1) using store_fail(2-) inv
    by (intro rl_inv_goto [OF inv store_fail(2), where k = 0]) (auto simp: rl_inv_def)
next
  case (load_acquire i cur)
  show ?thesis unfolding load_acquire(1) using load_acquire(2-) inv
    by (intro rl_inv_goto [OF inv load_acquire(2), where k = 0]) (auto simp: rl_inv_def word_less_nat_alt)
next
  case (take_fail i cur)
  show ?thesis unfolding take_fail(1) using take_fail(2-) inv
    by (intro rl_inv_goto [OF inv take_fail(2), where k = 0]) (auto simp: rl_inv_def)
qed

lemma rl_params_step: "rl_step s t \<Longrightarrow> rl_params (bucket t) = rl_params (bucket s)"
  by (cases rule: rl_step.cases) (auto simp: rl_params_def)

lemma rl_steps_inv:
  assumes "rl_step\<^sup>*\<^sup>* s t" and "rl_inv s"
  shows "rl_inv t \<and> rl_params (bucket t) = rl_params (bucket s)"
  using assms(1)
  by induction (use assms(2) in \<open>auto dest: rl_inv_step rl_params_step\<close>)

lemma rl_inv_init: "rate \<le> 1000000000 \<Longrightarrow> rl_inv (rl_init t rate burst n)"
  using rl_wf_new [of rate t burst]
  by (auto simp: rl_inv_def rl_init_def list_all_iff sum_list_replicate rate_limiter_new_def Let_def)

lemma rl_inv_bound:
  assumes rate: "rate \<le> 1000000000" and inv: "rl_inv s"
    and params: "rl_params (bucket s) = rl_params (rate_limiter_new t0 rate burst)"
  shows "granted s \<le> unat burst + (clock s - t0) div unat (interval_nanos rate) \<and>
    tokens (bucket s) \<le> saturating_mul burst 1000"
proof -
  from params have p: "rl_capacity (bucket s) = saturating_mul burst 1000" "refill_nanos (bucket s) = interval_nanos rate"
    "rl_start (bucket s) = t0"
    by (simp_all add: rl_params_def rate_limiter_new_def Let_def)
  obtain k where k: "k * unat (interval_nanos rate) \<le> clock s - t0"
    "1000 * granted s \<le> unat (saturating_mul burst 1000) + 1000 * k"
    using inv by (auto simp: rl_inv_def p)
  have "0 < unat (interval_nanos rate)"
    using rate interval_nanos_pos_iff by (simp add: unat_gt_0)
  then have "k \<le> (clock s - t0) div unat (interval_nanos rate)"
    using k(1) by (simp add: less_eq_div_iff_mult_less_eq)
  moreover have "unat (saturating_mul burst 1000) \<le> 1000 * unat burst" by (simp add: word_nat)
  moreover have "tokens (bucket s) \<le> rl_capacity (bucket s)" using inv by (simp add: rl_inv_def rl_wf_def)
  ultimately show ?thesis using k(2) p by auto
qed

text \<open>C7. The rate limit under concurrency: however the loads, exchanges and spurious exchange
  failures of any number of threads interleave with the passing of time, the bucket never
  holds more than its capacity and the messages admitted so far are at most \<open>burst\<close> plus one per refill
  interval since the limiter was made.\<close>

theorem rate_limiter_concurrent_bound:
  assumes "rate \<le> 1000000000" and "rl_step\<^sup>*\<^sup>* (rl_init t0 rate burst n) s"
  shows "granted s \<le> unat burst + (clock s - t0) div unat (interval_nanos rate) \<and>
    tokens (bucket s) \<le> saturating_mul burst 1000"
  using rl_steps_inv [OF assms(2) rl_inv_init [OF assms(1)]] rl_inv_bound [OF assms(1)] by (simp add: rl_init_def)

theorem rate_limiter_concurrent_bound_witness:
  "\<exists>s. rl_step\<^sup>*\<^sup>* (rl_init 0 10 2 2) s \<and> clock s = 100000000 \<and> threads s ! 1 = Load_last 100000000 \<and>
     granted s \<le> 3"
proof -
  let ?s0 = "rl_init 0 10 2 2"
  let ?s1 = "?s0\<lparr>clock := clock ?s0 + 100000000\<rparr>"
  let ?s2 = "goto 1 (Load_last (now_nanos (clock ?s1) (bucket ?s1))) ?s1"
  have "rl_step ?s0 ?s1" by (rule rl_step.tick)
  moreover have "rl_step ?s1 ?s2" by (rule rl_step.call) (simp add: at_pc_def rl_init_def)
  ultimately have "rl_step\<^sup>*\<^sup>* ?s0 ?s2" by auto
  with rate_limiter_concurrent_bound [of 10 0 2 2 ?s2] show ?thesis
    by (intro exI [of _ ?s2])
      (simp add: rl_init_def interval_nanos_def now_nanos_def rate_limiter_new_def Let_def)
qed

text \<open>
  A call that no other thread disturbs makes the steps of the sequential code: the machine
  refines it, and a thread left alone returns.
\<close>

lemma solo_refill:
  assumes at: "at_pc s i (Load_last (now_nanos t (bucket s)))"
    and refill: "rate_limiter_refill t (bucket s) = Inr b"
  shows "rl_step\<^sup>*\<^sup>* s (goto i Load_acquire (s\<lparr>bucket := b\<rparr>))"
proof -
  let ?now = "now_nanos t (bucket s)" and ?prev = "last_refill (bucket s)" and ?rn = "refill_nanos (bucket s)"
  let ?k = "claimable ?now ?prev (bucket s)"
  let ?add = "?k * refill_amount (bucket s)"
  let ?b1 = "(bucket s)\<lparr>last_refill := ?prev + ?k * ?rn\<rparr>"
  have i: "i < length (threads s)" using at by (simp add: at_pc_def)
  have rn: "?rn \<noteq> 0"
    using refill by (auto simp: rate_limiter_refill_def div_u64_def Let_def split: if_splits)
  note first = rl_step.load_last [OF at refl rn]
  show ?thesis
  proof (cases "saturating_sub ?now ?prev < ?rn \<or> ?k = 0")
    case True
    then have "b = bucket s"
      using refill rn by (auto simp: rate_limiter_refill_def div_u64_def Let_def claimable_def split: if_splits)
    with True first show ?thesis by auto
  next
    case False
    let ?s1 = "goto i (Claim ?now ?prev) s"
    let ?s2 = "goto i (if ?add = 0 then Load_acquire else Load_tokens ?add) (s\<lparr>bucket := ?b1\<rparr>)"
    have "rl_step s ?s1" using first False by simp
    moreover have "rl_step ?s1 ?s2"
      using rl_step.claim_ok [of ?s1 i ?now ?prev ?k ?add] i by (simp add: at_pc_def goto_def)
    ultimately have to2: "rl_step\<^sup>*\<^sup>* s ?s2" by auto
    show ?thesis
    proof (cases "?add = 0")
      case True
      then have "b = ?b1" using refill False rn
        by (auto simp: rate_limiter_refill_def div_u64_def Let_def claimable_def)
      with to2 True show ?thesis by simp
    next
      case add: False
      let ?new = "topped_up ?add (tokens (bucket s)) (bucket s)"
      have b: "b = ?b1\<lparr>tokens := ?new\<rparr>" using refill False add rn
        by (auto simp: rate_limiter_refill_def div_u64_def Let_def claimable_def topped_up_def)
      have cap: "topped_up a c ?b1 = topped_up a c (bucket s)" for a c by (simp add: topped_up_def)
      show ?thesis
      proof (cases "tokens (bucket s) = ?new")
        case True
        have "b = ?b1" unfolding b using True by simp
        then have "rl_step ?s2 (goto i Load_acquire (s\<lparr>bucket := b\<rparr>))"
          using rl_step.load_tokens [of ?s2 i ?add] i add True cap by (simp add: at_pc_def goto_def)
        with to2 show ?thesis by auto
      next
        case new: False
        let ?s3 = "goto i (Store_tokens ?add (tokens (bucket s))) (s\<lparr>bucket := ?b1\<rparr>)"
        have "rl_step ?s2 ?s3"
          using rl_step.load_tokens [of ?s2 i ?add] i add new cap by (simp add: at_pc_def goto_def)
        moreover have "rl_step ?s3 (goto i Load_acquire (s\<lparr>bucket := b\<rparr>))"
          using rl_step.store_ok [of ?s3 i ?add] i cap by (simp add: at_pc_def goto_def b)
        ultimately show ?thesis using to2 by auto
      qed
    qed
  qed
qed

lemma solo_call:
  assumes "at_pc s i Idle" and "rate_limiter_try_acquire (clock s) (bucket s) = Inr (ok, b)"
  shows "rl_step\<^sup>*\<^sup>* s (s\<lparr>bucket := b, granted := granted s + (if ok then 1 else 0)\<rparr>)"
proof -
  have i: "i < length (threads s)" and idle: "(threads s)[i := Idle] = threads s"
    using assms(1) by (simp_all add: at_pc_def) (metis list_update_id)
  obtain b1 where b1: "rate_limiter_refill (clock s) (bucket s) = Inr b1"
    using assms(2) by (auto simp: rate_limiter_try_acquire_def split: sum.splits)
  let ?s1 = "goto i (Load_last (now_nanos (clock s) (bucket s))) s"
  let ?s2 = "goto i Load_acquire (s\<lparr>bucket := b1\<rparr>)"
  have "rl_step s ?s1" by (rule rl_step.call [OF assms(1)])
  moreover have "rl_step\<^sup>*\<^sup>* ?s1 ?s2"
    using solo_refill [of ?s1 i "clock s" b1] i b1 by (simp add: at_pc_def goto_def)
  ultimately have to2: "rl_step\<^sup>*\<^sup>* s ?s2" by auto
  have at2: "at_pc ?s2 i Load_acquire" using i by (simp add: at_pc_def)
  show ?thesis
  proof (cases "tokens b1 < 1000")
    case True
    then have "ok = False" "b = b1" using assms(2) b1 by (simp_all add: rate_limiter_try_acquire_def)
    then show ?thesis
      using to2 rl_step.load_acquire [OF at2 refl] True idle by (auto simp: goto_def)
  next
    case False
    let ?s3 = "goto i (Take (tokens b1)) (s\<lparr>bucket := b1\<rparr>)"
    have "ok = True" "b = b1\<lparr>tokens := tokens b1 - 1000\<rparr>"
      using False assms(2) b1 by (auto simp: rate_limiter_try_acquire_def)
    moreover have "rl_step ?s2 ?s3"
      using rl_step.load_acquire [OF at2 refl] False by (simp add: goto_def)
    moreover have "at_pc ?s3 i (Take (tokens b1))" using i by (simp add: at_pc_def)
    ultimately show ?thesis
      using to2 rl_step.take_ok [of ?s3 i "tokens b1"] idle by (auto simp: goto_def)
  qed
qed

text \<open>The lock-free code implements the sequential one: a thread that is not disturbed takes the
  machine from before the call to after it, with exactly the bucket and the answer that the
  sequential \<open>try_acquire\<close> gives at the same clock value.\<close>

theorem rate_limiter_solo_refines:
  assumes "at_pc s i Idle" and "rate_limiter_try_acquire (clock s) (bucket s) = Inr (ok, b)"
  shows "rl_step\<^sup>*\<^sup>* s (s\<lparr>bucket := b, granted := granted s + (if ok then 1 else 0)\<rparr>)"
  using assms by (rule solo_call)

theorem rate_limiter_solo_refines_witness:
  "let s = rl_init 0 10 2 2 in
   rl_step\<^sup>*\<^sup>* s (s\<lparr>bucket := (bucket s)\<lparr>tokens := 1000\<rparr>, granted := 1\<rparr>)"
  using rate_limiter_solo_refines [of "rl_init 0 10 2 2" 0 True "(rate_limiter_new 0 10 2)\<lparr>tokens := 1000\<rparr>"]
  by (simp add: at_pc_def rl_init_def rate_limiter_try_acquire_def rate_limiter_refill_def
      rate_limiter_new_def Let_def now_nanos_def interval_nanos_def saturating_sub_def saturating_mul_def)

section \<open>The rate limiter as a middleware\<close>

interpretation limiter_mw: deciding_middleware "\<lambda>c. rate_limiter_process (call_time c)" rl_wf
proof
  fix s c m assume "rl_wf s"
  then show "\<exists>out s'. rate_limiter_process (call_time c) m s = Inr (out, s') \<and> rl_wf s' \<and>
      (\<forall>m'. out = Some m' \<longrightarrow> m' = m)"
    using rate_limiter_try_acquire_spec [of s "call_time c"] by (auto simp: rate_limiter_process_def)
qed

section \<open>Availability\<close>

text \<open>A request an interval after the last refill is granted, and so is one that finds a token.\<close>

lemma refill_grants:
  assumes "rl_wf s" and "1000 \<le> rl_capacity s" and "t - rl_start s < 2 ^ 64"
    and "unat (last_refill s) + unat (refill_nanos s) \<le> t - rl_start s"
    and "(t - rl_start s - unat (last_refill s)) div unat (refill_nanos s) * 1000 < 2 ^ 64"
  shows "\<exists>s'. rate_limiter_try_acquire t s = Inr (True, s')"
proof -
  let ?e = "saturating_sub (now_nanos t s) (last_refill s)"
  let ?k = "?e div refill_nanos s"
  have now: "unat (now_nanos t s) = t - rl_start s"
    using assms(3) by (simp add: now_nanos_def unat_of_nat_u64)
  then have e: "unat ?e = t - rl_start s - unat (last_refill s)"
    using assms(4) by (simp add: unat_saturating_sub)
  have rn: "0 < unat (refill_nanos s)" "refill_amount s = 1000" "refill_nanos s \<noteq> 0"
    using assms(1) by (auto simp: rl_wf_def unat_gt_0)
  have k: "unat ?k = (t - rl_start s - unat (last_refill s)) div unat (refill_nanos s)"
    by (simp add: unat_div e)
  have "1 \<le> unat ?k" unfolding k using assms(4) rn(1) by (simp add: div_le_mono [of 1 _ 1] Suc_le_eq div_greater_zero_iff)
  then have pos: "?k \<noteq> 0" by auto
  have add: "unat (?k * 1000) = unat ?k * 1000"
    using assms(5) k unat_mult_u64 [of ?k 1000] by simp
  then have "1000 \<le> unat (?k * 1000)" using \<open>1 \<le> unat ?k\<close> by simp
  then have amount: "?k * 1000 \<noteq> 0" by auto
  have "\<not> ?e < refill_nanos s" using assms(4) e by (simp add: word_less_nat_alt not_less)
  moreover have "1000 \<le> min (saturating_add (tokens s) (?k * 1000)) (rl_capacity s)"
    using assms(2) \<open>1000 \<le> unat (?k * 1000)\<close>
    unfolding word_le_nat_alt unat_min_word unat_saturating_add by simp
  ultimately show ?thesis
    using pos amount rn
    by (auto simp: rate_limiter_try_acquire_def rate_limiter_refill_def div_u64_def Let_def not_less)
qed



lemma full_bucket_grants:
  assumes "rl_wf s" and "1000 \<le> tokens s"
  shows "\<exists>s'. rate_limiter_try_acquire t s = Inr (True, s')"
proof -
  have "1000 \<le> unat (tokens s)" "unat (tokens s) \<le> unat (rl_capacity s)" "refill_nanos s \<noteq> 0"
    using assms by (simp_all add: rl_wf_def word_le_nat_alt)
  then have top: "1000 \<le> min (saturating_add (tokens s) x) (rl_capacity s)" for x
    unfolding word_le_nat_alt unat_min_word unat_saturating_add by simp
  have "\<exists>s1. rate_limiter_refill t s = Inr s1 \<and> 1000 \<le> tokens s1"
    using assms(2) \<open>refill_nanos s \<noteq> 0\<close> top by (auto simp: rate_limiter_refill_def div_u64_def Let_def)
  then show ?thesis by (auto simp: rate_limiter_try_acquire_def leD)
qed

text \<open>A time that the counters of a limiter can still represent.\<close>

definition in_time :: "RateLimiter \<Rightarrow> nat \<Rightarrow> bool" where
  "in_time s t \<longleftrightarrow> rl_start s \<le> t \<and> t - rl_start s < 2 ^ 64 \<and> (t - rl_start s) div unat (refill_nanos s) * 1000 < 2 ^ 64"

lemma spaced_requests_granted:
  assumes "rl_wf s" and "1000 \<le> rl_capacity s" and "list_all (in_time s) ts"
    and "successively (\<lambda>x y. x + unat (refill_nanos s) \<le> y) ts"
    and "ts \<noteq> [] \<longrightarrow> 1000 \<le> tokens s \<and> unat (last_refill s) \<le> hd ts - rl_start s \<or>
      unat (last_refill s) + unat (refill_nanos s) \<le> hd ts - rl_start s"
  shows "\<exists>s'. rl_run ts s = Inr (replicate (length ts) True, s')"
  using assms
proof (induction ts arbitrary: s)
  case (Cons t ts)
  have t: "rl_start s \<le> t" "t - rl_start s < 2 ^ 64" "(t - rl_start s) div unat (refill_nanos s) * 1000 < 2 ^ 64"
    using Cons.prems(3) by (simp_all add: in_time_def)
  have "(t - rl_start s - unat (last_refill s)) div unat (refill_nanos s) * 1000 \<le>
      (t - rl_start s) div unat (refill_nanos s) * 1000"
    by (intro mult_le_mono1 div_le_mono) simp
  then have "\<exists>s'. rate_limiter_try_acquire t s = Inr (True, s')"
    using full_bucket_grants [OF Cons.prems(1)] refill_grants [OF Cons.prems(1,2) t(2)] t(3) Cons.prems(5) by auto
  then obtain s1 where s1: "rate_limiter_try_acquire t s = Inr (True, s1)" by blast
  then have wf: "rl_wf s1" "rl_params s1 = rl_params s"
    and clk: "unat (last_refill s1) \<le> max (unat (last_refill s)) (unat (now_nanos t s))"
    using rate_limiter_try_acquire_spec [OF Cons.prems(1), of t] by auto
  have same: "rl_capacity s1 = rl_capacity s" "refill_nanos s1 = refill_nanos s" "rl_start s1 = rl_start s"
    using wf(2) by (simp_all add: rl_params_def)
  have "unat (last_refill s1) \<le> t - rl_start s"
    using clk now_nanos_le [of t s] Cons.prems(5) by auto
  then have "ts \<noteq> [] \<longrightarrow> unat (last_refill s1) + unat (refill_nanos s1) \<le> hd ts - rl_start s1"
    using Cons.prems(4) t(1) same by (cases ts) auto
  moreover have "in_time s1 = in_time s" by (simp add: in_time_def fun_eq_iff same)
  moreover have "successively (\<lambda>x y. x + unat (refill_nanos s) \<le> y) ts"
    using Cons.prems(4) by (cases ts) auto
  ultimately obtain s2 where "rl_run ts s1 = Inr (replicate (length ts) True, s2)"
    using Cons.IH [OF wf(1)] Cons.prems(2,3) same by auto
  with s1 show ?case by simp
qed simp

text \<open>C8. A client that waits one interval between its requests is never limited: with a positive burst and a rate within \<open>10\<^sup>9\<close>,
  requests that are at least an interval apart are all granted, as long as the counters can represent
  their times. (They cannot for ever: a limiter for \<open>10\<^sup>9\<close> messages per second that is idle for \<open>2\<^sup>61\<close> nanoseconds grants
  nothing after it, because the product of the intervals and the refill amount wraps to zero.)\<close>

theorem patient_client_never_limited:
  assumes "0 < burst" and "rate \<le> 1000000000"
    and "successively (\<lambda>x y. x + unat (interval_nanos rate) \<le> y) ts"
    and "list_all (in_time (rate_limiter_new t0 rate burst)) ts"
  shows "(\<exists>s'. rl_run ts (rate_limiter_new t0 rate burst) = Inr (replicate (length ts) True, s')) \<and>
    (\<exists>s'. rate_limiter_try_acquire (2 ^ 61) ((rate_limiter_new 0 1000000000 1)\<lparr>tokens := 0\<rparr>) = Inr (False, s'))"
proof
  let ?s = "rate_limiter_new t0 rate burst"
  have "1 \<le> unat burst" using assms(1) by (simp add: unat_gt_0 Suc_le_eq word_less_nat_alt)
  then have cap: "1000 \<le> saturating_mul burst 1000"
    unfolding word_le_nat_alt unat_saturating_mul by simp
  then show "\<exists>s'. rl_run ts ?s = Inr (replicate (length ts) True, s')"
    using assms by (intro spaced_requests_granted) (simp_all add: rl_wf_new, simp_all add: rate_limiter_new_def Let_def)
next
  show "\<exists>s'. rate_limiter_try_acquire (2 ^ 61) ((rate_limiter_new 0 1000000000 1)\<lparr>tokens := 0\<rparr>) = Inr (False, s')"
    by (simp add: rate_limiter_try_acquire_def rate_limiter_refill_def rate_limiter_new_def interval_nanos_def now_nanos_def
        saturating_sub_def div_u64_def Let_def)
qed

theorem patient_client_never_limited_witness:
  "\<exists>s'. rl_run [5, 1000005, 2000006] (rate_limiter_new 5 1000 1) = Inr ([True, True, True], s')"
proof -
  have "successively (\<lambda>x y. x + unat (interval_nanos 1000) \<le> y) [5, 1000005, 2000006]"
    by (simp add: interval_nanos_def)
  moreover have "list_all (in_time (rate_limiter_new 5 1000 1)) [5, 1000005, 2000006]"
    by (simp add: in_time_def rate_limiter_new_def interval_nanos_def Let_def)
  ultimately show ?thesis
    using patient_client_never_limited [of 1 1000 "[5, 1000005, 2000006]" 5] by (simp del: rl_run.simps)
qed

end
