(* ===== verification/Throttle.thy ===== *)
theory Throttle
  imports Rate_Limiter
begin

text \<open>
  The per-source throttle of \<open>gateway/src/middleware/throttle.rs\<close>: a hash map from sources to
  token buckets, with eviction when a new source finds the map full. The file has its own
  copy of the token bucket; it is modelled as such and shown to be the same as the rate limiter's.
  The iteration order of the hash map, on which the eviction depends when several buckets have the same key,
  is the parameter \<open>order\<close>: it permutes the entries. One call reads the clock up to four times; \<open>Readings\<close> are the
  values it gets.
\<close>

section \<open>The token bucket of the throttle\<close>

record TokenBucket =
  tb_capacity :: u64
  tb_refill_amount :: u64
  tb_refill_nanos :: u64
  tb_tokens :: u64
  tb_last_refill :: u64
  tb_start :: nat

definition token_bucket_new :: "nat \<Rightarrow> u64 \<Rightarrow> u64 \<Rightarrow> TokenBucket" where
  "token_bucket_new t rate burst =
     (let refill = (if rate = 0 then u64_MAX else 1000000000 div rate);
          scaled_burst = saturating_mul burst 1000
      in \<lparr>tb_capacity = scaled_burst, tb_refill_amount = 1000, tb_refill_nanos = refill,
          tb_tokens = scaled_burst, tb_last_refill = 0, tb_start = t\<rparr>)"

definition token_bucket_refill :: "nat \<Rightarrow> TokenBucket \<Rightarrow> panic + TokenBucket" where
  "token_bucket_refill t self =
     (let now = of_nat (t - tb_start self);
          elapsed = saturating_sub now (tb_last_refill self) in
      if elapsed < tb_refill_nanos self then Inr self
      else (case div_u64 elapsed (tb_refill_nanos self) of
          Inl p \<Rightarrow> Inl p
        | Inr intervals \<Rightarrow>
            if intervals = 0 then Inr self
            else
              let new_last = tb_last_refill self + intervals * tb_refill_nanos self;
                  tokens_to_add = intervals * tb_refill_amount self in
              if tokens_to_add = 0 then Inr (self\<lparr>tb_last_refill := new_last\<rparr>)
              else Inr (self\<lparr>tb_last_refill := new_last,
                tb_tokens := min (saturating_add (tb_tokens self) tokens_to_add) (tb_capacity self)\<rparr>)))"

definition token_bucket_try_acquire :: "nat \<Rightarrow> TokenBucket \<Rightarrow> panic + (bool \<times> TokenBucket)" where
  "token_bucket_try_acquire t self =
     (case token_bucket_refill t self of
        Inl p \<Rightarrow> Inl p
      | Inr self \<Rightarrow>
          if tb_tokens self < 1000 then Inr (False, self)
          else Inr (True, self\<lparr>tb_tokens := tb_tokens self - 1000\<rparr>))"

definition as_rate_limiter :: "TokenBucket \<Rightarrow> RateLimiter" where
  "as_rate_limiter b = \<lparr>rl_capacity = tb_capacity b, refill_amount = tb_refill_amount b,
     refill_nanos = tb_refill_nanos b, tokens = tb_tokens b, last_refill = tb_last_refill b,
     rl_start = tb_start b\<rparr>"

lemma as_rate_limiter_new [simp]:
  "as_rate_limiter (token_bucket_new t rate burst) = rate_limiter_new t rate burst"
  by (simp add: as_rate_limiter_def token_bucket_new_def rate_limiter_new_def interval_nanos_def Let_def)

lemma as_rate_limiter_refill:
  "rate_limiter_refill t (as_rate_limiter b) = map_sum id as_rate_limiter (token_bucket_refill t b)"
  by (simp add: as_rate_limiter_def token_bucket_refill_def rate_limiter_refill_def now_nanos_def
      Let_def div_u64_def)

lemma as_rate_limiter_try_acquire:
  "rate_limiter_try_acquire t (as_rate_limiter b) =
     map_sum id (map_prod id as_rate_limiter) (token_bucket_try_acquire t b)"
  unfolding rate_limiter_try_acquire_def token_bucket_try_acquire_def as_rate_limiter_refill
  by (cases "token_bucket_refill t b") (simp_all add: as_rate_limiter_def)

fun tb_run :: "nat list \<Rightarrow> TokenBucket \<Rightarrow> panic + (bool list \<times> TokenBucket)" where
  "tb_run [] b = Inr ([], b)"
| "tb_run (t # ts) b =
     (case token_bucket_try_acquire t b of
        Inl p \<Rightarrow> Inl p
      | Inr (ok, b) \<Rightarrow> (case tb_run ts b of Inl p \<Rightarrow> Inl p | Inr (oks, b) \<Rightarrow> Inr (ok # oks, b)))"

text \<open>The two token buckets of the code base are equivalent: on any sequence of requests at any times, the bucket of the
  throttle gives the same answers, panics in the same cases and ends in the same state as a rate limiter made with the same rate and
  burst at the same time.\<close>

theorem token_bucket_equivalent:
  "rl_run ts (rate_limiter_new t rate burst) =
     map_sum id (map_prod id as_rate_limiter) (tb_run ts (token_bucket_new t rate burst))"
proof -
  have "rl_run ts (as_rate_limiter b) = map_sum id (map_prod id as_rate_limiter) (tb_run ts b)" for b
    by (induction ts arbitrary: b) (auto simp: as_rate_limiter_try_acquire split: sum.splits prod.splits)
  from this [of "token_bucket_new t rate burst"] show ?thesis by simp
qed

section \<open>The throttle\<close>

text \<open>The clock as one call reads it: \<open>created\<close> and the start of a new bucket, the access time, and the time of the refill.\<close>

record Readings =
  at_created :: nat
  at_start :: nat
  at_access :: nat
  at_refill :: nat

definition ordered_from :: "nat \<Rightarrow> Readings \<Rightarrow> bool" where
  "ordered_from t r \<longleftrightarrow> t \<le> at_created r \<and> at_created r \<le> at_start r \<and> at_start r \<le> at_access r \<and> at_access r \<le> at_refill r"

text \<open>A call within one tick of the clock.\<close>

definition instantly :: "nat \<Rightarrow> Readings" where
  "instantly t = \<lparr>at_created = t, at_start = t, at_access = t, at_refill = t\<rparr>"

lemma instantly_fields [simp]:
  "at_created (instantly t) = t" "at_start (instantly t) = t" "at_access (instantly t) = t" "at_refill (instantly t) = t"
  by (simp_all add: instantly_def)

lemma ordered_from_instantly [simp]: "ordered_from t (instantly u) \<longleftrightarrow> t \<le> u"
  by (simp add: ordered_from_def)

record TrackedBucket =
  tracked_bucket :: TokenBucket
  last_access_nanos :: u64
  created :: nat

definition tracked_bucket_new :: "Readings \<Rightarrow> u64 \<Rightarrow> u64 \<Rightarrow> TrackedBucket" where
  "tracked_bucket_new r rate burst =
     \<lparr>tracked_bucket = token_bucket_new (at_start r) rate burst, last_access_nanos = 0, created = at_created r\<rparr>"

definition tracked_try_acquire :: "Readings \<Rightarrow> TrackedBucket \<Rightarrow> panic + (bool \<times> TrackedBucket)" where
  "tracked_try_acquire r self =
     (let self = self\<lparr>last_access_nanos := of_nat (at_access r - created self)\<rparr> in
      case token_bucket_try_acquire (at_refill r) (tracked_bucket self) of
        Inl p \<Rightarrow> Inl p
      | Inr (ok, b) \<Rightarrow> Inr (ok, self\<lparr>tracked_bucket := b\<rparr>))"

type_synonym bucket_map = "(string, TrackedBucket) hashmap"

record Throttle =
  th_rate :: u64
  th_burst :: u64
  th_max_sources :: nat
  buckets :: bucket_map

definition throttle_new :: "u64 \<Rightarrow> u64 \<Rightarrow> Throttle" where
  "throttle_new rate burst = \<lparr>th_rate = rate, th_burst = burst, th_max_sources = 10000, buckets = []\<rparr>"

definition max_sources :: "nat \<Rightarrow> Throttle \<Rightarrow> Throttle" where
  "max_sources mx self = self\<lparr>th_max_sources := mx\<rparr>"

text \<open>\<open>Iterator::min_by_key\<close>: the first of the elements with the least key.\<close>

fun min_by_key :: "('a \<Rightarrow> u64) \<Rightarrow> 'a list \<Rightarrow> 'a option" where
  "min_by_key f [] = None"
| "min_by_key f (x # xs) =
     (case min_by_key f xs of
        None \<Rightarrow> Some x
      | Some y \<Rightarrow> Some (if f x \<le> f y then x else y))"

definition evict_lru :: "(bucket_map \<Rightarrow> bucket_map) \<Rightarrow> bucket_map \<Rightarrow> bucket_map" where
  "evict_lru order m =
     (case min_by_key (\<lambda>(_, tracked). last_access_nanos tracked) (order m) of
        None \<Rightarrow> m
      | Some (src, _) \<Rightarrow> AList.delete src m)"

definition get_or_create_bucket ::
  "(bucket_map \<Rightarrow> bucket_map) \<Rightarrow> Readings \<Rightarrow> string \<Rightarrow> Throttle \<Rightarrow> panic + (bool \<times> Throttle)" where
  "get_or_create_bucket order r src self =
     (case map_of (buckets self) src of
        Some tracked \<Rightarrow>
          (case tracked_try_acquire r tracked of
             Inl p \<Rightarrow> Inl p
           | Inr (ok, tracked) \<Rightarrow> Inr (ok, self\<lparr>buckets := AList.update src tracked (buckets self)\<rparr>))
      | None \<Rightarrow>
          let m = (if length (buckets self) \<ge> th_max_sources self then evict_lru order (buckets self)
                   else buckets self) in
          (case tracked_try_acquire r (tracked_bucket_new r (th_rate self) (th_burst self)) of
             Inl p \<Rightarrow> Inl p
           | Inr (ok, tracked) \<Rightarrow> Inr (ok, self\<lparr>buckets := AList.update src tracked m\<rparr>)))"

definition source_count :: "Throttle \<Rightarrow> nat" where
  "source_count self = length (buckets self)"

definition max_sources_limit :: "Throttle \<Rightarrow> nat" where
  "max_sources_limit self = th_max_sources self"

definition throttle_process ::
  "(bucket_map \<Rightarrow> bucket_map) \<Rightarrow> Readings \<Rightarrow> Message \<Rightarrow> Throttle \<Rightarrow> panic + (Message option \<times> Throttle)" where
  "throttle_process order r msg self =
     (case get_or_create_bucket order r (source msg) self of
        Inl p \<Rightarrow> Inl p
      | Inr (ok, self) \<Rightarrow> Inr (if ok then Some msg else None, self))"

text \<open>A run: requests with the clock readings and the source of each.\<close>

fun throttle_run ::
  "(bucket_map \<Rightarrow> bucket_map) \<Rightarrow> (Readings \<times> string) list \<Rightarrow> Throttle \<Rightarrow> panic + (bool list \<times> Throttle)" where
  "throttle_run order [] th = Inr ([], th)"
| "throttle_run order ((r, src) # rs) th =
     (case get_or_create_bucket order r src th of
        Inl p \<Rightarrow> Inl p
      | Inr (b, th) \<Rightarrow>
          (case throttle_run order rs th of Inl p \<Rightarrow> Inl p | Inr (bs, th) \<Rightarrow> Inr (b # bs, th)))"

definition times_of :: "string \<Rightarrow> (Readings \<times> string) list \<Rightarrow> nat list" where
  "times_of src rs = map (at_refill \<circ> fst) (filter (\<lambda>r. snd r = src) rs)"

text \<open>The clock when the first request of a source makes its bucket.\<close>

definition start_of :: "string \<Rightarrow> (Readings \<times> string) list \<Rightarrow> nat" where
  "start_of src rs = at_start (fst (hd (filter (\<lambda>r. snd r = src) rs)))"

definition answers_to :: "string \<Rightarrow> (Readings \<times> string) list \<Rightarrow> bool list \<Rightarrow> bool list" where
  "answers_to src rs bs = map snd (filter (\<lambda>(r, b). snd r = src) (zip rs bs))"

lemma times_of_simps [simp]:
  "times_of src [] = []"
  "times_of src ((r, src') # rs) = (if src' = src then at_refill r # times_of src rs else times_of src rs)"
  by (simp_all add: times_of_def)

lemma start_of_Cons [simp]: "start_of src ((r, src') # rs) = (if src' = src then at_start r else start_of src rs)"
  by (simp add: start_of_def)

lemma answers_to_simps [simp]:
  "answers_to src [] bs = []"
  "answers_to src ((r, src') # rs) (b # bs) = (if src' = src then b # answers_to src rs bs else answers_to src rs bs)"
  by (simp_all add: answers_to_def)

definition throttle_wf :: "Throttle \<Rightarrow> bool" where
  "throttle_wf th \<longleftrightarrow> hm_wf (buckets th) \<and> th_rate th \<le> 1000000000 \<and>
     list_all (\<lambda>(_, tr). rl_wf (as_rate_limiter (tracked_bucket tr))) (buckets th)"

text \<open>The limiter a source is served by: its own bucket, or a new one at its first request.\<close>

definition limiter_of :: "string \<Rightarrow> nat \<Rightarrow> Throttle \<Rightarrow> RateLimiter" where
  "limiter_of src t th = (case map_of (buckets th) src of
      None \<Rightarrow> rate_limiter_new t (th_rate th) (th_burst th)
    | Some tr \<Rightarrow> as_rate_limiter (tracked_bucket tr))"

lemma tracked_try_acquire_spec:
  assumes "rl_wf (as_rate_limiter (tracked_bucket tr))"
  shows "\<exists>ok tr'. tracked_try_acquire r tr = Inr (ok, tr') \<and>
    rate_limiter_try_acquire (at_refill r) (as_rate_limiter (tracked_bucket tr)) =
      Inr (ok, as_rate_limiter (tracked_bucket tr')) \<and>
    rl_wf (as_rate_limiter (tracked_bucket tr')) \<and> last_access_nanos tr' = of_nat (at_access r - created tr) \<and>
    created tr' = created tr"
proof -
  obtain ok s where "rate_limiter_try_acquire (at_refill r) (as_rate_limiter (tracked_bucket tr)) = Inr (ok, s)" "rl_wf s"
    using rate_limiter_try_acquire_spec [OF assms, of "at_refill r"] by blast
  then show ?thesis
    by (auto simp: as_rate_limiter_try_acquire tracked_try_acquire_def Let_def
        map_sum_def split: sum.splits)
qed

lemma rl_wf_tracked:
  "throttle_wf th \<Longrightarrow> map_of (buckets th) src = Some tr \<Longrightarrow> rl_wf (as_rate_limiter (tracked_bucket tr))"
  by (auto simp: throttle_wf_def list_all_iff dest: map_of_SomeD)

lemma evict_lru_wf: "hm_wf m \<Longrightarrow> hm_wf (evict_lru order m)"
  by (auto simp: evict_lru_def split: option.splits)

lemma evict_lru_subset: "set (evict_lru order m) \<subseteq> set m"
  by (auto simp: evict_lru_def AList.delete_eq split: option.splits)

lemma set_update_subset: "set (AList.update k v m) \<subseteq> insert (k, v) (set m)"
  by (induction m) auto

lemma list_all_update:
  "list_all P m \<Longrightarrow> P (k, v) \<Longrightarrow> list_all P (AList.update k v m)"
  using set_update_subset [of k v m] by (auto simp: list_all_iff)

text \<open>
  One request: it is answered as the source's own limiter answers it, which becomes the
  source's limiter.
\<close>

lemma get_or_create_bucket_spec:
  assumes wf: "throttle_wf th"
  shows "\<exists>ok th'. get_or_create_bucket order r src th = Inr (ok, th') \<and> throttle_wf th' \<and>
    rate_limiter_try_acquire (at_refill r) (limiter_of src (at_start r) th) = Inr (ok, limiter_of src t' th') \<and>
    th_rate th' = th_rate th \<and> th_burst th' = th_burst th \<and> th_max_sources th' = th_max_sources th \<and>
    (\<exists>tr. buckets th' = AList.update src tr
       (if map_of (buckets th) src = None \<and> th_max_sources th \<le> length (buckets th)
        then evict_lru order (buckets th) else buckets th) \<and>
      (map_of (buckets th) src = None \<longrightarrow>
         last_access_nanos tr = of_nat (at_access r - at_created r) \<and> created tr = at_created r))"
proof (cases "map_of (buckets th) src")
  case (Some tr)
  obtain ok tr' where "tracked_try_acquire r tr = Inr (ok, tr')"
    "rate_limiter_try_acquire (at_refill r) (as_rate_limiter (tracked_bucket tr)) =
       Inr (ok, as_rate_limiter (tracked_bucket tr'))"
    "rl_wf (as_rate_limiter (tracked_bucket tr'))"
    using tracked_try_acquire_spec [OF rl_wf_tracked [OF wf Some], of r] by blast
  with Some wf show ?thesis
    by (auto simp: get_or_create_bucket_def throttle_wf_def limiter_of_def intro: list_all_update)
next
  case None
  let ?m = "if th_max_sources th \<le> length (buckets th) then evict_lru order (buckets th) else buckets th"
  have "rl_wf (rate_limiter_new (at_start r) (th_rate th) (th_burst th))"
    using wf by (simp add: throttle_wf_def rl_wf_new)
  then obtain ok tr' where tr': "tracked_try_acquire r (tracked_bucket_new r (th_rate th) (th_burst th)) = Inr (ok, tr')"
    "rate_limiter_try_acquire (at_refill r) (rate_limiter_new (at_start r) (th_rate th) (th_burst th)) =
       Inr (ok, as_rate_limiter (tracked_bucket tr'))"
    "rl_wf (as_rate_limiter (tracked_bucket tr'))" "last_access_nanos tr' = of_nat (at_access r - at_created r)"
    "created tr' = at_created r"
    using tracked_try_acquire_spec [of "tracked_bucket_new r (th_rate th) (th_burst th)" r]
    by (auto simp: tracked_bucket_new_def)
  have "hm_wf ?m" "list_all (\<lambda>(_, tr). rl_wf (as_rate_limiter (tracked_bucket tr))) ?m"
    using wf evict_lru_wf evict_lru_subset [of order "buckets th"]
    by (auto simp: throttle_wf_def list_all_iff)
  with None wf tr' show ?thesis
    by (auto simp: get_or_create_bucket_def throttle_wf_def limiter_of_def Let_def intro: list_all_update)
qed

lemma limiter_of_other:
  assumes "throttle_wf th" and "get_or_create_bucket order r src th = Inr (ok, th')" and "src' \<noteq> src"
    and "map_of (buckets th) src = None \<longrightarrow> length (buckets th) < th_max_sources th"
  shows "limiter_of src' t' th' = limiter_of src' t' th"
proof -
  obtain tr where "buckets th' = AList.update src tr (buckets th)" "th_rate th' = th_rate th" "th_burst th' = th_burst th"
    using get_or_create_bucket_spec [OF assms(1), of order r src 0] assms(2,4) by (auto split: if_splits)
  with assms(3) show ?thesis by (simp add: limiter_of_def split: option.splits)
qed

definition known_sources :: "Throttle \<Rightarrow> string set" where
  "known_sources th = fst ` set (buckets th)"

lemma throttle_run_spec:
  assumes "throttle_wf th" and "card (known_sources th \<union> snd ` set rs) \<le> th_max_sources th"
  shows "\<exists>bs th'. throttle_run order rs th = Inr (bs, th') \<and> length bs = length rs \<and>
    (\<forall>src. \<exists>l. rl_run (times_of src rs) (limiter_of src (start_of src rs) th) = Inr (answers_to src rs bs, l))"
  using assms
proof (induction rs arbitrary: th)
  case Nil
  then show ?case by simp
next
  case (Cons r rs)
  obtain c src where r: "r = (c, src)" by fastforce
  obtain ok th1 where th1: "get_or_create_bucket order c src th = Inr (ok, th1)" "throttle_wf th1"
    "th_max_sources th1 = th_max_sources th"
    using get_or_create_bucket_spec [OF Cons.prems(1), of order c src 0] by blast
  have own: "rate_limiter_try_acquire (at_refill c) (limiter_of src (at_start c) th) = Inr (ok, limiter_of src t' th1)" for t'
    using get_or_create_bucket_spec [OF Cons.prems(1), of order c src t'] th1(1) by auto
  have room: "map_of (buckets th) src = None \<longrightarrow> length (buckets th) < th_max_sources th"
  proof
    assume "map_of (buckets th) src = None"
    then have "src \<notin> known_sources th" by (simp add: known_sources_def map_of_eq_None_iff)
    then have "card (known_sources th) < card (known_sources th \<union> snd ` set (r # rs))"
      by (intro psubset_card_mono) (auto simp: r known_sources_def)
    moreover have "card (known_sources th) = length (buckets th)"
      using Cons.prems(1) distinct_card [of "map fst (buckets th)"]
      by (simp add: known_sources_def throttle_wf_def hm_wf_def)
    ultimately show "length (buckets th) < th_max_sources th" using Cons.prems(2) by linarith
  qed
  have "known_sources th1 \<subseteq> insert src (known_sources th)"
    using get_or_create_bucket_spec [OF Cons.prems(1), of order c src 0] th1(1) room
    by (auto simp: known_sources_def update_conv dest!: subsetD [OF set_update_subset] split: if_splits)
  then have "card (known_sources th1 \<union> snd ` set rs) \<le> card (known_sources th \<union> snd ` set (r # rs))"
    by (intro card_mono) (auto simp: r known_sources_def)
  then obtain bs th2 where th2: "throttle_run order rs th1 = Inr (bs, th2)" "length bs = length rs"
    and ih: "\<And>src. \<exists>l. rl_run (times_of src rs) (limiter_of src (start_of src rs) th1) = Inr (answers_to src rs bs, l)"
    using Cons.IH [OF th1(2)] Cons.prems(2) unfolding th1(3) by (meson order_trans)
  have "\<exists>l. rl_run (times_of s (r # rs)) (limiter_of s (start_of s (r # rs)) th) = Inr (answers_to s (r # rs) (ok # bs), l)" for s
  proof (cases "s = src")
    case True
    with ih [of src] own [of "start_of src rs"] show ?thesis by (auto simp: r)
  next
    case False
    with ih [of s] limiter_of_other [OF Cons.prems(1) th1(1) False room] show ?thesis by (simp add: r)
  qed
  with th1 th2 show ?case by (auto simp: r)
qed

text \<open>C24. Sources do not disturb each other: as long as no more sources are seen than the throttle
  may track, every request is answered and each source gets exactly the answers that a rate limiter of its own, made
  during its first request with the configured rate and burst, would give to its requests alone, at the times at which they refill.\<close>

theorem throttle_isolates_sources:
  assumes "rate \<le> 1000000000" and "card (snd ` set rs) \<le> mx"
  shows "\<exists>bs th. throttle_run order rs (max_sources mx (throttle_new rate burst)) = Inr (bs, th) \<and>
    length bs = length rs \<and>
    (\<forall>src. \<exists>l. rl_run (times_of src rs) (rate_limiter_new (start_of src rs) rate burst) =
       Inr (answers_to src rs bs, l))"
  using throttle_run_spec [of "max_sources mx (throttle_new rate burst)" rs order] assms
  by (simp add: throttle_wf_def max_sources_def throttle_new_def known_sources_def limiter_of_def)

theorem throttle_isolates_sources_witness:
  "let rs = [(instantly 0, ''a''), (\<lparr>at_created = 1, at_start = 2, at_access = 3, at_refill = 4\<rparr>, ''b''), (instantly 5, ''a'')]
   in \<exists>bs th. throttle_run id rs (max_sources 2 (throttle_new 1 1)) = Inr (bs, th) \<and>
    (\<exists>l. rl_run [0, 5] (rate_limiter_new 0 1 1) = Inr (answers_to ''a'' rs bs, l)) \<and>
    (\<exists>l. rl_run [4] (rate_limiter_new 2 1 1) = Inr (answers_to ''b'' rs bs, l))"
proof -
  let ?rs = "[(instantly 0, ''a''), (\<lparr>at_created = 1, at_start = 2, at_access = 3, at_refill = 4\<rparr>, ''b''), (instantly 5, ''a'')]"
  have "card (snd ` set ?rs) \<le> 2" by (simp add: card_insert_if)
  then obtain bs th where run: "throttle_run id ?rs (max_sources 2 (throttle_new 1 1)) = Inr (bs, th)"
    and each: "\<forall>src. \<exists>l. rl_run (times_of src ?rs) (rate_limiter_new (start_of src ?rs) 1 1) =
       Inr (answers_to src ?rs bs, l)"
    using throttle_isolates_sources [of 1 ?rs 2 id 1] by auto
  show ?thesis
    using run each [rule_format, of "''a''"] each [rule_format, of "''b''"]
    by (simp add: Let_def del: throttle_run.simps rl_run.simps answers_to_simps)
qed

section \<open>Eviction\<close>

text \<open>What the iteration of a hash map guarantees: every entry once, in some order.\<close>

definition permutes :: "(bucket_map \<Rightarrow> bucket_map) \<Rightarrow> bool" where
  "permutes order \<longleftrightarrow> (\<forall>m. mset (order m) = mset m)"

lemma permutes_set [simp]: "permutes order \<Longrightarrow> set (order m) = set m"
  unfolding permutes_def by (metis set_mset_mset)

lemma min_by_key_None [simp]: "min_by_key f xs = None \<longleftrightarrow> xs = []"
  by (cases xs) (auto split: option.splits)

lemma min_by_key_Some:
  "min_by_key f xs = Some y \<Longrightarrow> y \<in> set xs \<and> (\<forall>z\<in>set xs. f y \<le> f z)"
  by (induction xs arbitrary: y) (auto split: option.splits if_splits intro: order_trans)

lemma length_evict_lru:
  assumes "permutes order" and "m \<noteq> []"
  shows "length (evict_lru order m) < length m"
proof -
  have "order m \<noteq> []" using assms by (metis permutes_set set_empty)
  then obtain src tr where y: "min_by_key (\<lambda>(_, tracked). last_access_nanos tracked) (order m) = Some (src, tr)"
    by (metis min_by_key_None not_None_eq surj_pair)
  then have "(src, tr) \<in> set m" using min_by_key_Some [OF y] assms(1) by simp
  then show ?thesis using y by (auto simp: evict_lru_def AList.delete_eq intro: length_filter_less)
qed

lemma throttle_run_step_wf:
  "throttle_wf th \<Longrightarrow> get_or_create_bucket order c src th = Inr (ok, th') \<Longrightarrow> throttle_wf th'"
  using get_or_create_bucket_spec [of th order c src 0] by auto

definition fits :: "nat \<Rightarrow> Throttle \<Rightarrow> bool" where
  "fits mx th \<longleftrightarrow> length (buckets th) \<le> max 1 mx \<and> th_max_sources th = mx"

lemma get_or_create_bucket_fits:
  assumes "permutes order" and "throttle_wf th" and "fits mx th"
    and "get_or_create_bucket order c src th = Inr (ok, th')"
  shows "fits mx th'"
  using get_or_create_bucket_spec [OF assms(2), of order c src 0] assms(3,4)
    length_evict_lru [OF assms(1), of "buckets th"]
  by (cases "buckets th = []")
    (auto simp: fits_def length_hm_update evict_lru_def split: if_splits option.splits)

lemma throttle_run_fits:
  assumes "permutes order" and "throttle_wf th" and "fits mx th" and "throttle_run order rs th = Inr (bs, th')"
  shows "fits mx th'"
  using assms(2-)
proof (induction rs arbitrary: th bs)
  case (Cons r rs)
  obtain c src where r: "r = (c, src)" by fastforce
  obtain ok th1 bs' where "get_or_create_bucket order c src th = Inr (ok, th1)"
    "throttle_run order rs th1 = Inr (bs', th')"
    using Cons.prems(3) by (auto simp: r split: sum.splits)
  with Cons show ?case using get_or_create_bucket_fits [OF assms(1)] throttle_run_step_wf by metis
qed simp

text \<open>The memory bound: no sequence of requests, from however many sources, makes the throttle track more
  sources than its maximum (or one, when the maximum is zero).\<close>

theorem throttle_memory_bound:
  assumes "rate \<le> 1000000000" and "permutes order"
    and "throttle_run order rs (max_sources mx (throttle_new rate burst)) = Inr (bs, th)"
  shows "source_count th \<le> max 1 mx \<and> max_sources_limit th = mx"
  using throttle_run_fits [OF assms(2) _ _ assms(3)] assms(1)
  by (simp add: fits_def throttle_wf_def max_sources_def throttle_new_def source_count_def max_sources_limit_def)

theorem throttle_memory_bound_witness:
  "\<exists>bs th. throttle_run id [(instantly 0, ''a''), (instantly 1, ''b''), (instantly 2, ''c'')] (max_sources 2 (throttle_new 1 1)) = Inr (bs, th) \<and>
     source_count th \<le> 2"
proof -
  let ?rs = "[(instantly 0, ''a''), (instantly 1, ''b''), (instantly 2, ''c'')]" and ?th = "max_sources 2 (throttle_new 1 1)"
  obtain bs th where run: "throttle_run id ?rs ?th = Inr (bs, th)"
    by (simp add: get_or_create_bucket_def max_sources_def throttle_new_def tracked_bucket_new_def
        tracked_try_acquire_def token_bucket_try_acquire_def token_bucket_refill_def token_bucket_new_def
        saturating_sub_def saturating_mul_def evict_lru_def Let_def)
  have "permutes id" by (simp add: permutes_def)
  with throttle_memory_bound [of 1 id ?rs 2 1 bs th] run show ?thesis by auto
qed

text \<open>Requests of sources that are neither \<open>old\<close> nor the last arrival, each with a bucket made no longer than \<open>d\<close> before its first access.\<close>

fun newcomers :: "u64 \<Rightarrow> string set \<Rightarrow> string \<Rightarrow> (Readings \<times> string) list \<Rightarrow> bool" where
  "newcomers d old x [] \<longleftrightarrow> True"
| "newcomers d old x ((r, src) # rs) \<longleftrightarrow>
     src \<noteq> x \<and> src \<notin> old \<and> at_access r - at_created r \<le> unat d \<and> newcomers d old src rs"

text \<open>A full throttle: its last arrival \<open>x\<close> was last accessed within \<open>d\<close> of the creation of its bucket, every other source later than that
  after the creation of its own.\<close>

definition full_after :: "u64 \<Rightarrow> string set \<Rightarrow> string \<Rightarrow> Throttle \<Rightarrow> bool" where
  "full_after d old x th \<longleftrightarrow> throttle_wf th \<and> th_burst th \<noteq> 0 \<and> th_max_sources th \<le> length (buckets th) \<and>
     x \<notin> old \<and> known_sources th = insert x old \<and>
     list_all (\<lambda>(src, tr). last_access_nanos tr \<le> d \<longleftrightarrow> src = x) (buckets th)"

lemma known_sources_dom: "known_sources th = {src. map_of (buckets th) src \<noteq> None}"
  by (auto simp: known_sources_def map_of_eq_None_iff)

lemma evict_lru_newest:
  assumes "permutes order" and "full_after d old x th"
  shows "evict_lru order (buckets th) = AList.delete x (buckets th)"
proof -
  let ?m = "buckets th"
  have "x \<in> fst ` set ?m" using assms(2) by (simp add: full_after_def known_sources_def)
  then obtain trx where trx: "(x, trx) \<in> set ?m" by force
  then have "order ?m \<noteq> []" using assms(1) by (metis permutes_set set_empty empty_iff)
  then obtain src tr where y: "min_by_key (\<lambda>(_, tracked). last_access_nanos tracked) (order ?m) = Some (src, tr)"
    by (metis min_by_key_None not_None_eq surj_pair)
  have "last_access_nanos tr \<le> last_access_nanos trx" "(src, tr) \<in> set ?m"
    using min_by_key_Some [OF y] assms(1) trx by auto
  moreover have key: "last_access_nanos tr' \<le> d \<longleftrightarrow> s = x" if "(s, tr') \<in> set ?m" for s tr'
    using assms(2) that by (auto simp: full_after_def list_all_iff)
  ultimately have "src = x" using key [OF trx] by (metis order_trans)
  with y show ?thesis by (simp add: evict_lru_def)
qed

lemma fresh_bucket_admits:
  assumes "rate \<le> 1000000000" and "burst \<noteq> 0"
  shows "\<exists>s. rate_limiter_try_acquire t (rate_limiter_new t0 rate burst) = Inr (True, s)"
proof (rule full_bucket_grants)
  show "rl_wf (rate_limiter_new t0 rate burst)" using assms(1) by (simp add: rl_wf_new)
  have "\<not> saturating_mul burst 1000 < 1000"
    using assms(2) unat_gt_0 [of burst] by (simp add: word_less_nat_alt word_nat not_less)
  then show "1000 \<le> tokens (rate_limiter_new t0 rate burst)"
    by (simp add: rate_limiter_new_def Let_def not_less)
qed

lemma length_delete_mem:
  "hm_wf m \<Longrightarrow> x \<in> fst ` set m \<Longrightarrow> Suc (length (AList.delete x m)) = length m"
proof (induction m)
  case (Cons p m)
  then show ?case by (cases "fst p = x") (auto simp: hm_wf_def delete_notin_dom)
qed simp

lemma of_nat_le_u64: "n \<le> unat d \<Longrightarrow> of_nat n \<le> d" for d :: u64
  using unsigned_less [of d] by (simp add: word_le_nat_alt unat_of_nat take_bit_nat_eq_self)

lemma newcomer_step:
  assumes order: "permutes order" and full: "full_after d old x th" and src: "src \<noteq> x" "src \<notin> old"
    and soon: "at_access r - at_created r \<le> unat d"
  shows "\<exists>th'. get_or_create_bucket order r src th = Inr (True, th') \<and> full_after d old src th' \<and>
    (\<forall>s\<in>old. map_of (buckets th') s = map_of (buckets th) s)"
proof -
  have wf: "throttle_wf th" and none: "map_of (buckets th) src = None"
    using full src by (auto simp: full_after_def known_sources_def map_of_eq_None_iff)
  obtain ok th' tr where th': "get_or_create_bucket order r src th = Inr (ok, th')" "throttle_wf th'"
    "rate_limiter_try_acquire (at_refill r) (limiter_of src (at_start r) th) = Inr (ok, limiter_of src 0 th')"
    "th_burst th' = th_burst th" "th_max_sources th' = th_max_sources th"
    "buckets th' = AList.update src tr (AList.delete x (buckets th))"
    "last_access_nanos tr = of_nat (at_access r - at_created r)"
    using get_or_create_bucket_spec [OF wf, of order r src 0] none evict_lru_newest [OF order full] full
    by (auto simp: full_after_def)
  have "\<exists>s. rate_limiter_try_acquire (at_refill r) (limiter_of src (at_start r) th) = Inr (True, s)"
    using fresh_bucket_admits [of "th_rate th" "th_burst th"] none full
    by (simp add: limiter_of_def full_after_def throttle_wf_def)
  then have ok: "ok" using th'(3) by simp
  have new: "map_of (AList.delete x (buckets th)) src = None" using none by simp
  have len: "length (buckets th') = length (buckets th)"
    using full new length_delete_mem [of "buckets th" x] none
    by (simp add: th'(6) length_hm_update full_after_def throttle_wf_def known_sources_def)
  have known: "known_sources th' = insert src old"
    using full by (auto simp: known_sources_dom full_after_def th'(6) split: if_splits)
  have "list_all (\<lambda>(s, tr). last_access_nanos tr \<le> d \<longleftrightarrow> s = src) (AList.delete x (buckets th))"
    using full none by (force simp: full_after_def list_all_iff AList.delete_eq map_of_eq_None_iff)
  then have "list_all (\<lambda>(s, tr). last_access_nanos tr \<le> d \<longleftrightarrow> s = src) (buckets th')"
    unfolding th'(6) by (rule list_all_update) (simp add: th'(7) of_nat_le_u64 soon)
  with th' ok len known src full show ?thesis by (auto simp: full_after_def)
qed

text \<open>C37. Eviction does not remove the least recently used source: access times are measured from the
  creation of each bucket, so the newest source has the least one. Take a throttle with a positive burst that tracks as many sources as it
  may, and a \<open>d\<close> such that its last arrival was last accessed within \<open>d\<close> of the creation of its bucket and each other source later than
  \<open>d\<close> after the creation of its own, so that each of them has asked again. Then any sequence of requests from sources that are neither among
  those others nor the source of the request before, each of which makes its bucket and accesses it
  within \<open>d\<close>, is admitted in full, at whatever times and however often the same sources return: each request evicts the bucket of the one before and
  gets a fresh one, while the buckets of the idle others stay as they are.\<close>

theorem throttle_newcomers_unlimited:
  assumes "permutes order" and "full_after d old x th" and "newcomers d old x rs"
  shows "\<exists>th'. throttle_run order rs th = Inr (replicate (length rs) True, th') \<and>
    (\<forall>s\<in>old. map_of (buckets th') s = map_of (buckets th) s)"
  using assms(2,3)
proof (induction rs arbitrary: x th)
  case Nil
  then show ?case by simp
next
  case (Cons r rs)
  obtain c src where r: "r = (c, src)" by fastforce
  with Cons.prems(2) have src: "src \<noteq> x" "src \<notin> old" "at_access c - at_created c \<le> unat d"
    and rest: "newcomers d old src rs" by simp_all
  obtain th1 where th1: "get_or_create_bucket order c src th = Inr (True, th1)" "full_after d old src th1"
    "\<forall>s\<in>old. map_of (buckets th1) s = map_of (buckets th) s"
    using newcomer_step [OF assms(1) Cons.prems(1) src] by blast
  obtain th2 where "throttle_run order rs th1 = Inr (replicate (length rs) True, th2)"
    "\<forall>s\<in>old. map_of (buckets th2) s = map_of (buckets th1) s"
    using Cons.IH [OF th1(2) rest] by blast
  with th1 show ?case by (simp add: r)
qed

text \<open>A closed instance, in which each call takes some time between its readings of the clock.\<close>

definition taking :: "nat \<Rightarrow> nat \<Rightarrow> Readings" where
  "taking d t = \<lparr>at_created = t, at_start = t + d, at_access = t + d, at_refill = t + 2 * d\<rparr>"

lemma taking_fields [simp]:
  "at_created (taking d t) = t" "at_start (taking d t) = t + d" "at_access (taking d t) = t + d"
  "at_refill (taking d t) = t + 2 * d"
  by (simp_all add: taking_def)

theorem throttle_newcomers_unlimited_witness:
  "\<exists>th th'. throttle_run id [(taking 2 0, ''a''), (taking 2 10, ''a''), (taking 2 20, ''x'')] (max_sources 2 (throttle_new 1 1)) =
       Inr ([True, False, True], th) \<and>
     throttle_run id [(taking 2 30, ''y''), (taking 1 40, ''x''), (taking 2 50, ''y''), (taking 0 60, ''x'')] th =
       Inr ([True, True, True, True], th')"
proof -
  let ?rs = "[(taking 2 0, ''a''), (taking 2 10, ''a''), (taking 2 20, ''x'')]" and ?th = "max_sources 2 (throttle_new 1 1)"
  let ?new = "[(taking 2 30, ''y''), (taking 1 40, ''x''), (taking 2 50, ''y''), (taking 0 60, ''x'')]"
  obtain th where run: "throttle_run id ?rs ?th = Inr ([True, False, True], th)" and full: "full_after 2 {''a''} ''x'' th"
    by (simp add: get_or_create_bucket_def max_sources_def throttle_new_def tracked_bucket_new_def
        tracked_try_acquire_def token_bucket_try_acquire_def token_bucket_refill_def token_bucket_new_def
        saturating_sub_def saturating_mul_def evict_lru_def Let_def full_after_def throttle_wf_def hm_wf_def
        known_sources_def rl_wf_def as_rate_limiter_def insert_commute)
  have "permutes id" by (simp add: permutes_def)
  moreover have "newcomers 2 {''a''} ''x'' ?new" by simp
  ultimately have "\<exists>th'. throttle_run id ?new th = Inr ([True, True, True, True], th')"
    using throttle_newcomers_unlimited [OF _ full, of id ?new] by (auto simp del: throttle_run.simps)
  with run show ?thesis by blast
qed

section \<open>The throttle as a middleware\<close>

text \<open>\<open>reads\<close> gives the clock readings of a call.\<close>

interpretation throttle_mw: deciding_middleware "\<lambda>c. throttle_process order (reads c)" throttle_wf for order reads
proof
  fix s c m assume "throttle_wf s"
  then show "\<exists>out s'. throttle_process order (reads c) m s = Inr (out, s') \<and> throttle_wf s' \<and>
      (\<forall>m'. out = Some m' \<longrightarrow> m' = m)"
    using get_or_create_bucket_spec [of s order "reads c" "source m" 0] by (auto simp: throttle_process_def)
qed

end
