(* ===== verification/Deduplicator.thy ===== *)
theory Deduplicator
  imports Middleware
begin

text \<open>
  The time-windowed deduplicator of \<open>gateway/src/middleware/dedup.rs\<close>: the identifiers seen
  with the time each was last accepted, cleaned of expired entries once in a while. The clock
  reading of \<open>check\<close> is an argument.
\<close>

record Deduplicator =
  seen :: "(string, nat) hashmap"
  ttl :: nat
  ops_since_cleanup :: u32
  cleanup_interval :: u32

definition deduplicator_new :: "nat \<Rightarrow> Deduplicator" where
  "deduplicator_new d = \<lparr>seen = [], ttl = d, ops_since_cleanup = 0, cleanup_interval = 1000\<rparr>"

definition with_cleanup_interval :: "nat \<Rightarrow> u32 \<Rightarrow> Deduplicator" where
  "with_cleanup_interval d interval =
     \<lparr>seen = [], ttl = d, ops_since_cleanup = 0, cleanup_interval = max interval 1\<rparr>"

definition dedup_cleanup :: "nat \<Rightarrow> Deduplicator \<Rightarrow> Deduplicator" where
  "dedup_cleanup now self =
     self\<lparr>seen := filter (\<lambda>(_, last_seen). now - last_seen < ttl self) (seen self)\<rparr>"

definition dedup_check :: "nat \<Rightarrow> string \<Rightarrow> Deduplicator \<Rightarrow> bool \<times> Deduplicator" where
  "dedup_check now i self =
     (let ops = ops_since_cleanup self;
          self = self\<lparr>ops_since_cleanup := ops + 1\<rparr>;
          self = (if ops \<ge> cleanup_interval self
                  then dedup_cleanup now (self\<lparr>ops_since_cleanup := 0\<rparr>) else self);
          duplicate = (case map_of (seen self) i of
              None \<Rightarrow> False
            | Some last_seen \<Rightarrow> now - last_seen < ttl self)
      in if duplicate then (False, self)
         else (True, self\<lparr>seen := AList.update i now (seen self)\<rparr>))"

definition dedup_len :: "Deduplicator \<Rightarrow> nat" where
  "dedup_len self = length (seen self)"

definition dedup_is_empty :: "Deduplicator \<Rightarrow> bool" where
  "dedup_is_empty self \<longleftrightarrow> seen self = []"

definition deduplicator_process :: "nat \<Rightarrow> Message \<Rightarrow> Deduplicator \<Rightarrow> Message option \<times> Deduplicator" where
  "deduplicator_process now msg self =
     (case dedup_check now (msg_id msg) self of (ok, self) \<Rightarrow> (if ok then Some msg else None, self))"

text \<open>A run: the clock value and the identifier of each message.\<close>

fun dedup_run :: "(nat \<times> string) list \<Rightarrow> Deduplicator \<Rightarrow> bool list \<times> Deduplicator" where
  "dedup_run [] d = ([], d)"
| "dedup_run ((t, i) # rs) d =
     (case dedup_check t i d of (b, d) \<Rightarrow> (case dedup_run rs d of (bs, d) \<Rightarrow> (b # bs, d)))"

section \<open>The live entries\<close>

text \<open>
  What the deduplicator remembers at a time: the entries that have not expired. Cleaning up
  changes the table and not what is remembered from then on.
\<close>

definition live :: "nat \<Rightarrow> Deduplicator \<Rightarrow> string \<Rightarrow> bool" where
  "live now d i \<longleftrightarrow> (case map_of (seen d) i of None \<Rightarrow> False | Some t \<Rightarrow> now - t < ttl d)"

definition dedup_wf :: "Deduplicator \<Rightarrow> bool" where
  "dedup_wf d \<longleftrightarrow> hm_wf (seen d)"

lemma live_cleanup:
  "dedup_wf d \<Longrightarrow> now \<le> now' \<Longrightarrow> live now' (dedup_cleanup now d) = live now' d"
  by (rule ext) (auto simp: live_def dedup_cleanup_def dedup_wf_def map_of_filter_hm split: option.splits)

lemma dedup_cleanup_wf: "dedup_wf d \<Longrightarrow> dedup_wf (dedup_cleanup now d)"
  by (simp add: dedup_wf_def dedup_cleanup_def)

lemma dedup_check_spec:
  assumes "dedup_wf d" and "dedup_check now i d = (b, d')"
  shows "b \<longleftrightarrow> \<not> live now d i" and "dedup_wf d'" and "ttl d' = ttl d"
    and "now \<le> now' \<Longrightarrow> live now' d' k \<longleftrightarrow> (if b \<and> k = i then now' - now < ttl d else live now' d k)"
proof -
  define d1 where "d1 = (if cleanup_interval d \<le> ops_since_cleanup d
    then dedup_cleanup now (d\<lparr>ops_since_cleanup := 0\<rparr>) else d\<lparr>ops_since_cleanup := ops_since_cleanup d + 1\<rparr>)"
  have skip: "live now' (d\<lparr>ops_since_cleanup := c\<rparr>) = live now' d" "dedup_wf (d\<lparr>ops_since_cleanup := c\<rparr>) = dedup_wf d"
    for now' c
    by (simp_all add: live_def dedup_wf_def fun_eq_iff split: option.splits)
  have d1: "dedup_wf d1" "ttl d1 = ttl d" "\<And>now'. now \<le> now' \<Longrightarrow> live now' d1 = live now' d"
    using assms(1) by (simp_all add: d1_def dedup_cleanup_wf live_cleanup skip)
      (simp_all add: dedup_cleanup_def)
  have check: "dedup_check now i d =
      (if live now d1 i then (False, d1) else (True, d1\<lparr>seen := AList.update i now (seen d1)\<rparr>))"
    by (simp add: dedup_check_def live_def d1_def Let_def dedup_cleanup_def split: option.splits)
  show "b \<longleftrightarrow> \<not> live now d i" using assms(2) d1(3) [of now] by (auto simp: check split: if_splits)
  show "dedup_wf d'" "ttl d' = ttl d"
    using assms(2) d1 by (auto simp: check dedup_wf_def split: if_splits)
  show "live now' d' k \<longleftrightarrow> (if b \<and> k = i then now' - now < ttl d else live now' d k)" if "now \<le> now'"
  proof -
    have "live now' (d1\<lparr>seen := AList.update i now (seen d1)\<rparr>) k \<longleftrightarrow>
        (if k = i then now' - now < ttl d1 else live now' d1 k)"
      by (simp add: live_def split: option.splits)
    with assms(2) d1(2) d1(3) [OF that] show ?thesis by (auto simp: check split: if_splits)
  qed
qed

text \<open>The requests of a run with their answers, and the accepted ones that still count at a time.\<close>

definition accepted_within :: "nat \<Rightarrow> nat \<Rightarrow> string \<Rightarrow> ((nat \<times> string) \<times> bool) list \<Rightarrow> bool" where
  "accepted_within d now i past \<longleftrightarrow> (\<exists>t. ((t, i), True) \<in> set past \<and> now - t < d)"

lemma dedup_run_spec:
  assumes "dedup_wf d" and "sorted (map fst rs)" and "\<forall>t\<in>fst ` set rs. now \<le> t"
    and "\<And>t k. now \<le> t \<Longrightarrow> live t d k \<longleftrightarrow> accepted_within (ttl d) t k past"
    and "dedup_run rs d = (bs, d')"
  shows "length bs = length rs \<and> (\<forall>n<length rs. bs ! n \<longleftrightarrow>
    \<not> accepted_within (ttl d) (fst (rs ! n)) (snd (rs ! n)) (past @ take n (zip rs bs)))"
  using assms
proof (induction rs arbitrary: d now past bs)
  case Nil
  then show ?case by simp
next
  case (Cons r rs)
  obtain t i where r: "r = (t, i)" by fastforce
  obtain b d1 bs1 where step: "dedup_check t i d = (b, d1)" "dedup_run rs d1 = (bs1, d')" "bs = b # bs1"
    using Cons.prems(5) by (auto simp: r split: prod.splits)
  note spec = dedup_check_spec [OF Cons.prems(1) step(1)]
  have "now \<le> t" using Cons.prems(3) by (simp add: r)
  have ih: "length bs1 = length rs \<and> (\<forall>n<length rs. bs1 ! n \<longleftrightarrow>
      \<not> accepted_within (ttl d1) (fst (rs ! n)) (snd (rs ! n)) ((past @ [((t, i), b)]) @ take n (zip rs bs1)))"
  proof (rule Cons.IH [OF spec(2) _ _ _ step(2), of t])
    show "live t' d1 k \<longleftrightarrow> accepted_within (ttl d1) t' k (past @ [((t, i), b)])" if "t \<le> t'" for t' k
    proof (cases "b \<and> k = i \<and> t' - t \<ge> ttl d")
      case True
      have "\<not> live t d i" using spec(1) True by simp
      then have "\<not> accepted_within (ttl d) t i past" using Cons.prems(4) [of t i] \<open>now \<le> t\<close> by simp
      then have "\<not> accepted_within (ttl d) t' i past"
        using that by (fastforce simp: accepted_within_def)
      with True show ?thesis using spec(4) [OF that] spec(3) by (auto simp: accepted_within_def)
    next
      case False
      then show ?thesis
        using spec(4) [OF that, of k] spec(3) Cons.prems(4) [of t' k] that \<open>now \<le> t\<close>
        by (auto simp: accepted_within_def)
    qed
  qed (use Cons.prems(2) in \<open>auto simp: r\<close>)
  have "b \<longleftrightarrow> \<not> accepted_within (ttl d) t i past"
    using spec(1) Cons.prems(4) [of t i] \<open>now \<le> t\<close> by simp
  with ih spec(3) show ?case
    by (auto simp: r step(3) nth_Cons' take_Cons' less_Suc_eq_0_disj)
qed

text \<open>C22. What the deduplicator lets through, exactly: in a run whose clock does not go back, whatever the cleanup
  interval, a message passes if and only if no message with its identifier passed less than
  the time-to-live before it.\<close>

theorem dedup_exact:
  assumes "sorted (map fst rs)"
    and "dedup_run rs (with_cleanup_interval d interval) = (bs, s)"
  shows "length bs = length rs \<and> (\<forall>n<length rs. bs ! n \<longleftrightarrow>
    \<not> (\<exists>m<n. snd (rs ! m) = snd (rs ! n) \<and> bs ! m \<and> fst (rs ! n) - fst (rs ! m) < d))"
proof -
  let ?d = "with_cleanup_interval d interval"
  have run: "length bs = length rs" "\<And>n. n < length rs \<Longrightarrow> bs ! n \<longleftrightarrow>
    \<not> accepted_within d (fst (rs ! n)) (snd (rs ! n)) (take n (zip rs bs))"
    using dedup_run_spec [of ?d rs 0 "[]" bs s] assms
    by (auto simp: dedup_wf_def with_cleanup_interval_def live_def accepted_within_def)
  have "accepted_within d now i (take n (zip rs bs)) \<longleftrightarrow>
      (\<exists>m<n. snd (rs ! m) = i \<and> bs ! m \<and> now - fst (rs ! m) < d)" if "n < length rs" for now i n
  proof -
    have mem: "x \<in> set (take n (zip rs bs)) \<longleftrightarrow> (\<exists>m<n. x = (rs ! m, bs ! m))" for x
      using that run(1) by (auto simp: in_set_conv_nth)
    show ?thesis unfolding accepted_within_def mem by (simp add: prod_eq_iff) blast
  qed
  with run show ?thesis by blast
qed

theorem dedup_exact_witness:
  "let rs = [(0, ''a''), (5, ''a''), (12, ''a'')]; bs = fst (dedup_run rs (with_cleanup_interval 10 1)) in
   length bs = length rs \<and> (\<forall>n<length rs. bs ! n \<longleftrightarrow>
     \<not> (\<exists>m<n. snd (rs ! m) = snd (rs ! n) \<and> bs ! m \<and> fst (rs ! n) - fst (rs ! m) < 10))"
  unfolding Let_def
  by (rule dedup_exact [where interval = 1 and s = "snd (dedup_run [(0, ''a''), (5, ''a''), (12, ''a'')] (with_cleanup_interval 10 1))"])
    (simp_all del: dedup_run.simps)

section \<open>The deduplicator as a middleware\<close>

interpretation dedup_mw: deciding_middleware "\<lambda>c m s. Inr (deduplicator_process (call_time c) m s)" dedup_wf
  by unfold_locales
    (auto simp: deduplicator_process_def split: prod.splits dest: dedup_check_spec(2))

end
