(* ===== verification/Sampler.thy ===== *)
theory Sampler
  imports Middleware Backoff
begin

text \<open>
  The probabilistic sampler of \<open>gateway/src/middleware/sampler.rs\<close>. Its rate is a finite
  \<open>f64\<close>, a real number, and the rounding \<open>fl\<close> of each floating-point operation is an argument. The
  generator is the one of the theory \<open>Xorshift\<close>.
\<close>

record Sampler =
  threshold :: u64
  sampler_state :: u64

definition sampler_new :: "(real \<Rightarrow> real) \<Rightarrow> nat option \<Rightarrow> f64 \<Rightarrow> panic + Sampler" where
  "sampler_new fl since_epoch rate =
     (if \<not> (0 \<le> rate \<and> rate \<le> 1) then Inl (AssertFailed ''sample rate must be between 0.0 and 1.0'')
      else
        let thr = (if rate \<ge> 1 then u64_MAX
                   else of_nat (f64_as_u64 (fl (rate * fl (real (unat u64_MAX))))));
            seed = (case since_epoch of Some d \<Rightarrow> of_nat d | None \<Rightarrow> 0xDEADBEEF)
        in Inr \<lparr>threshold = thr, sampler_state = seed OR 1\<rparr>)"

definition sampler_with_seed :: "(real \<Rightarrow> real) \<Rightarrow> nat option \<Rightarrow> f64 \<Rightarrow> u64 \<Rightarrow> panic + Sampler" where
  "sampler_with_seed fl since_epoch rate seed =
     (case sampler_new fl since_epoch rate of
        Inl p \<Rightarrow> Inl p
      | Inr sampler \<Rightarrow> Inr (sampler\<lparr>sampler_state := seed OR 1\<rparr>))"

definition next_random :: "Sampler \<Rightarrow> u64 \<times> Sampler" where
  "next_random self = (let x = xorshift64 (sampler_state self) in (x, self\<lparr>sampler_state := x\<rparr>))"

definition should_sample :: "Sampler \<Rightarrow> bool \<times> Sampler" where
  "should_sample self = (case next_random self of (x, self) \<Rightarrow> (x \<le> threshold self, self))"

definition sampler_process :: "Message \<Rightarrow> Sampler \<Rightarrow> Message option \<times> Sampler" where
  "sampler_process msg self = (case should_sample self of (ok, self) \<Rightarrow> (if ok then Some msg else None, self))"

text \<open>A run of \<open>n\<close> messages: the decisions, in order.\<close>

fun sampler_run :: "nat \<Rightarrow> Sampler \<Rightarrow> bool list \<times> Sampler" where
  "sampler_run 0 s = ([], s)"
| "sampler_run (Suc n) s =
     (case should_sample s of (b, s) \<Rightarrow> (case sampler_run n s of (bs, s) \<Rightarrow> (b # bs, s)))"

lemma or_1_nonzero [simp]: "(x OR 1 :: u64) \<noteq> 0"
proof -
  have "bit (x OR 1 :: u64) 0" by (simp add: bit_or_iff)
  then show ?thesis by (metis bit_0_eq bot_apply bot_bool_def)
qed

lemma sampler_run_nth:
  "length (fst (sampler_run n s)) = n \<and>
   (\<forall>k<n. fst (sampler_run n s) ! k \<longleftrightarrow> (xorshift64 ^^ Suc k) (sampler_state s) \<le> threshold s)"
proof (induction n arbitrary: s)
  case (Suc n)
  let ?s = "s\<lparr>sampler_state := xorshift64 (sampler_state s)\<rparr>"
  have "fst (sampler_run (Suc n) s) = (xorshift64 (sampler_state s) \<le> threshold s) # fst (sampler_run n ?s)"
    by (simp add: should_sample_def next_random_def Let_def split: prod.splits)
  with Suc.IH [of ?s] show ?case
    by (auto simp: nth_Cons' less_Suc_eq_0_disj funpow_swap1)
qed simp

text \<open>The extreme rates are exact: a sampler with rate one passes every message and a sampler with
  rate zero drops every message, whatever the seed, since the generator never yields zero.\<close>

theorem sampler_extremes:
  assumes "fl 0 = 0" and "sampler_with_seed fl t rate seed = Inr s"
  shows "(rate = 1 \<longrightarrow> fst (sampler_run n s) = replicate n True) \<and>
         (rate = 0 \<longrightarrow> fst (sampler_run n s) = replicate n False)"
proof -
  have state: "sampler_state s \<noteq> 0"
    using assms(2) by (auto simp: sampler_with_seed_def split: sum.splits)
  have "threshold s = u64_MAX" if "rate = 1"
    using that assms(2) by (auto simp: sampler_with_seed_def sampler_new_def Let_def split: sum.splits)
  moreover have "threshold s = 0" if "rate = 0"
    using that assms by (auto simp: sampler_with_seed_def sampler_new_def f64_as_u64_def Let_def split: sum.splits)
  moreover have "(x :: u64) \<le> u64_MAX" for x by (simp add: word_le_nat_alt)
  moreover have "(xorshift64 ^^ Suc k) (sampler_state s) \<noteq> 0" for k
    using state xorshift64_iter_nonzero by blast
  ultimately show ?thesis
    using sampler_run_nth [of n s] by (auto intro!: nth_equalityI)
qed

theorem sampler_extremes_witness:
  "\<exists>s0 s1. sampler_with_seed (\<lambda>x. x) None 0 42 = Inr s0 \<and> sampler_with_seed (\<lambda>x. x) None 1 42 = Inr s1 \<and>
     fst (sampler_run 5 s0) = replicate 5 False \<and> fst (sampler_run 5 s1) = replicate 5 True"
proof -
  obtain s0 s1 where s: "sampler_with_seed (\<lambda>x. x) None 0 42 = Inr s0" "sampler_with_seed (\<lambda>x. x) None 1 42 = Inr s1"
    by (simp add: sampler_with_seed_def sampler_new_def Let_def)
  with sampler_extremes [OF _ s(1), of 5] sampler_extremes [OF _ s(2), of 5] show ?thesis by blast
qed

lemma card_states_below:
  "card {x. x \<noteq> 0 \<and> fst (should_sample \<lparr>threshold = thr, sampler_state = x\<rparr>)} = unat thr"
proof -
  have "x \<noteq> 0 \<and> xorshift64 x \<le> thr \<longleftrightarrow> xorshift64 x \<in> {0<..thr}" for x
    using xorshift64_nonzero [of x] by (metis greaterThanAtMost_iff word_neq_0_conv)
  moreover have "fst (should_sample \<lparr>threshold = thr, sampler_state = x\<rparr>) \<longleftrightarrow> xorshift64 x \<le> thr" for x
    by (simp add: should_sample_def next_random_def Let_def)
  ultimately have "{x. x \<noteq> 0 \<and> fst (should_sample \<lparr>threshold = thr, sampler_state = x\<rparr>)} = xorshift64 -` {0<..thr}"
    unfolding vimage_def by (simp only:)
  also have "card \<dots> = card {0<..thr}"
    using bij_xorshift64 by (simp add: card_vimage_inj bij_is_inj bij_is_surj)
  also have "{0<..thr} = of_nat ` {0<..unat thr}"
  proof (intro equalityI subsetI)
    fix x assume "x \<in> {0<..thr}"
    then have "unat x \<in> {0<..unat thr}" by (simp add: word_less_nat_alt word_le_nat_alt)
    then have "of_nat (unat x) \<in> (of_nat :: nat \<Rightarrow> u64) ` {0<..unat thr}" by (rule imageI)
    then show "x \<in> of_nat ` {0<..unat thr}" by simp
  next
    fix x :: u64 assume "x \<in> of_nat ` {0<..unat thr}"
    then obtain n where n: "x = of_nat n" "0 < n" "n \<le> unat thr" by auto
    then have "unat x = n" using le_unat_uoi by blast
    with n show "x \<in> {0<..thr}" by (simp add: word_less_nat_alt word_le_nat_alt)
  qed
  also have "card ((of_nat :: nat \<Rightarrow> u64) ` {0<..unat thr}) = card {0<..unat thr}"
    by (rule card_image, rule inj_onI) (metis greaterThanAtMost_iff le_unat_uoi)
  finally show ?thesis by simp
qed

text \<open>The sampling share is exact over the states of the generator: of the \<open>2\<^sup>6\<^sup>4 - 1\<close>
  non-zero states exactly \<open>\<lfloor>rate \<cdot> 2\<^sup>6\<^sup>4\<rfloor>\<close> lead to a message that passes, for every rate
  below one. Rounding enters only through \<open>u64::MAX as f64\<close>, which is \<open>2\<^sup>6\<^sup>4\<close>, and the product with it,
  which only moves the exponent.\<close>

theorem sampler_share:
  assumes "sampler_new fl t rate = Inr s" and "rate < 1"
    and "fl (real (unat u64_MAX)) = 2 ^ 64" and "fl (rate * 2 ^ 64) = rate * 2 ^ 64"
  shows "card {x. x \<noteq> 0 \<and> fst (should_sample (s\<lparr>sampler_state := x\<rparr>))} = nat \<lfloor>rate * 2 ^ 64\<rfloor>"
proof -
  have "\<lfloor>rate * 2 ^ 64\<rfloor> < 2 ^ 64" using assms(2) by (simp add: floor_less_iff)
  then have "nat \<lfloor>rate * 2 ^ 64\<rfloor> < nat (2 ^ 64)" unfolding zless_nat_conj by simp
  then have small: "nat \<lfloor>rate * 2 ^ 64\<rfloor> < 2 ^ 64" by (simp add: nat_power_eq)
  have "threshold s = of_nat (f64_as_u64 (rate * 2 ^ 64))"
    using assms by (auto simp: sampler_new_def Let_def split: if_splits)
  then have "unat (threshold s) = nat \<lfloor>rate * 2 ^ 64\<rfloor>"
    using small by (simp add: f64_as_u64_def unat_of_nat min_def)
  moreover have eq: "s\<lparr>sampler_state := x\<rparr> = \<lparr>threshold = threshold s, sampler_state = x\<rparr>" for x by simp
  ultimately show ?thesis unfolding eq card_states_below by simp
qed

theorem sampler_share_witness:
  "\<exists>s. sampler_new (\<lambda>x. if x = 2 ^ 64 - 1 then 2 ^ 64 else x) None (1 / 2) = Inr s \<and>
     card {x. x \<noteq> 0 \<and> fst (should_sample (s\<lparr>sampler_state := x\<rparr>))} = 2 ^ 63"
proof -
  let ?fl = "\<lambda>x :: real. if x = 2 ^ 64 - 1 then 2 ^ 64 else x"
  obtain s where s: "sampler_new ?fl None (1 / 2) = Inr s"
    by (simp add: sampler_new_def Let_def)
  from sampler_share [OF s] have "card {x. x \<noteq> 0 \<and> fst (should_sample (s\<lparr>sampler_state := x\<rparr>))} = 2 ^ 63" by simp
  with s show ?thesis by blast
qed

section \<open>The sampler as a middleware\<close>

interpretation sampler_mw: deciding_middleware "\<lambda>c m s. Inr (sampler_process m s)" "\<lambda>_. True"
  by unfold_locales (auto simp: sampler_process_def split: prod.splits)

end
