(* ===== verification/Transformers.thy ===== *)
theory Transformers
  imports Middleware
begin

text \<open>
  The stateless middleware: \<open>PassThrough\<close>, \<open>Filter\<close> and \<open>Transform\<close> of
  \<open>gateway/src/middleware/mod.rs\<close>, the router, the enricher and the validator. The closures
  their users provide are functions. Parsing JSON is \<open>serde_json\<close>'s: the parameter
  \<open>from_slice\<close> gives a value or an error text.
\<close>

section \<open>PassThrough, Filter and Transform\<close>

definition passthrough_process :: "Message \<Rightarrow> Message option" where
  "passthrough_process msg = Some msg"

definition filter_process :: "(Message \<Rightarrow> bool) \<Rightarrow> Message \<Rightarrow> Message option" where
  "filter_process predicate msg = (if predicate msg then Some msg else None)"

definition transform_process :: "(Message \<Rightarrow> Message) \<Rightarrow> Message \<Rightarrow> Message option" where
  "transform_process transform_fn msg = Some (transform_fn msg)"

section \<open>Router\<close>

type_synonym rule_fn = "Message \<Rightarrow> string list option"

record Router =
  rules :: "rule_fn list"

definition router_new :: Router where
  "router_new = \<lparr>rules = []\<rparr>"

definition router_rule :: "(Message \<Rightarrow> bool) \<Rightarrow> string list \<Rightarrow> Router \<Rightarrow> Router" where
  "router_rule matcher targets self =
     self\<lparr>rules := rules self @ [\<lambda>msg. if matcher msg then Some targets else None]\<rparr>"

text \<open>\<open>str::starts_with\<close>.\<close>

fun starts_with :: "string \<Rightarrow> string \<Rightarrow> bool" where
  "starts_with s [] \<longleftrightarrow> True"
| "starts_with [] (c # cs) \<longleftrightarrow> False"
| "starts_with (d # ds) (c # cs) \<longleftrightarrow> d = c \<and> starts_with ds cs"

lemma starts_with_iff: "starts_with s p \<longleftrightarrow> (\<exists>r. s = p @ r)"
  by (induction s p rule: starts_with.induct) auto

definition route_type_prefix :: "string \<Rightarrow> string list \<Rightarrow> Router \<Rightarrow> Router" where
  "route_type_prefix pre targets self = router_rule (\<lambda>msg. starts_with (message_type msg) pre) targets self"

definition route_source :: "string \<Rightarrow> string list \<Rightarrow> Router \<Rightarrow> Router" where
  "route_source src targets self = router_rule (\<lambda>msg. source msg = src) targets self"

definition default_route :: "string list \<Rightarrow> Router \<Rightarrow> Router" where
  "default_route targets self = router_rule (\<lambda>_. True) targets self"

fun first_match :: "rule_fn list \<Rightarrow> Message \<Rightarrow> Message" where
  "first_match [] msg = msg"
| "first_match (rule # rs) msg =
     (case rule msg of Some targets \<Rightarrow> msg\<lparr>route_to := targets\<rparr> | None \<Rightarrow> first_match rs msg)"

definition router_process :: "Router \<Rightarrow> Message \<Rightarrow> Message option" where
  "router_process self msg = Some (first_match (rules self) msg)"

section \<open>Enricher\<close>

text \<open>The metadata an enrichment returns is a hash map, here its entries in the order of iteration.\<close>

record Enricher =
  enrich_fn :: "Message \<Rightarrow> (string, string) hashmap"

definition enricher_new :: "(Message \<Rightarrow> (string, string) hashmap) \<Rightarrow> Enricher" where
  "enricher_new f = \<lparr>enrich_fn = f\<rparr>"

definition enricher_with_static :: "(string, string) hashmap \<Rightarrow> Enricher" where
  "enricher_with_static md = enricher_new (\<lambda>_. md)"

definition enricher_process :: "Enricher \<Rightarrow> Message \<Rightarrow> Message option" where
  "enricher_process self msg =
     Some (fold (\<lambda>(key, val) msg. msg\<lparr>metadata := (metadata msg)(key \<mapsto> val)\<rparr>) (enrich_fn self msg) msg)"

section \<open>Validator\<close>

datatype ValidationResult = Valid | Invalid string

datatype InvalidAction = Drop | Tag

record Validator =
  validate_fn :: "Message \<Rightarrow> ValidationResult"
  on_invalid_action :: InvalidAction

definition validator_new :: "(Message \<Rightarrow> ValidationResult) \<Rightarrow> Validator" where
  "validator_new f = \<lparr>validate_fn = f, on_invalid_action = Drop\<rparr>"

definition on_invalid :: "InvalidAction \<Rightarrow> Validator \<Rightarrow> Validator" where
  "on_invalid action self = self\<lparr>on_invalid_action := action\<rparr>"

definition validator_json :: "(bytes \<Rightarrow> string + 'j) \<Rightarrow> Validator" where
  "validator_json from_slice = validator_new (\<lambda>msg.
     if payload msg = [] then Invalid ''empty payload''
     else (case from_slice (payload msg) of
         Inr _ \<Rightarrow> Valid
       | Inl e \<Rightarrow> Invalid (''invalid JSON: '' @ e)))"

definition validator_non_empty :: Validator where
  "validator_non_empty = validator_new (\<lambda>msg.
     if payload msg = [] then Invalid ''empty payload'' else Valid)"

definition validator_max_size :: "nat \<Rightarrow> Validator" where
  "validator_max_size max_bytes = validator_new (\<lambda>msg.
     if length (payload msg) > max_bytes
     then Invalid (''payload too large: '' @ show_nat (length (payload msg)) @ '' > '' @ show_nat max_bytes @ '' bytes'')
     else Valid)"

definition validator_process :: "Validator \<Rightarrow> Message \<Rightarrow> Message option" where
  "validator_process self msg =
     (case validate_fn self msg of
        Valid \<Rightarrow> Some msg
      | Invalid reason \<Rightarrow>
          (case on_invalid_action self of
             Drop \<Rightarrow> None
           | Tag \<Rightarrow> Some (msg\<lparr>metadata := (metadata msg)(''polku.validator.error'' \<mapsto> reason,
                 ''polku.validator.valid'' \<mapsto> ''false'')\<rparr>)))"

section \<open>Their contracts\<close>

lemma first_match_identity [simp]: "same_identity m (first_match rs m)"
  by (induction rs) (auto split: option.splits)

lemma enrich_fold:
  "fold (\<lambda>(key, val) msg. msg\<lparr>metadata := (metadata msg)(key \<mapsto> val)\<rparr>) kvs m =
     m\<lparr>metadata := metadata m ++ map_of (rev kvs)\<rparr>"
proof (induction kvs arbitrary: m)
  case (Cons kv kvs)
  then show ?case by (cases kv) (simp add: map_add_def fun_eq_iff split: option.splits)
qed simp

lemma enricher_process_eq:
  "hm_wf (enrich_fn e m) \<Longrightarrow> enricher_process e m = Some (m\<lparr>metadata := metadata m ++ map_of (enrich_fn e m)\<rparr>)"
  by (simp add: enricher_process_def enrich_fold map_of_rev_hm)

interpretation filter_mw: deciding_middleware "\<lambda>c m p. Inr (filter_process p m, p)" "\<lambda>_. True"
  by unfold_locales (auto simp: filter_process_def)

interpretation router_mw: middleware "\<lambda>c m s. Inr (router_process s m, s)" "\<lambda>_. True" same_identity
  by unfold_locales (auto simp: router_process_def)

interpretation enricher_mw: middleware "\<lambda>c m s. Inr (enricher_process s m, s)" "\<lambda>_. True" same_identity
  by unfold_locales (auto simp: enricher_process_def enrich_fold)

interpretation validator_mw: middleware "\<lambda>c m s. Inr (validator_process s m, s)" "\<lambda>_. True" same_identity
  by unfold_locales
    (auto simp: validator_process_def same_identity_def split: ValidationResult.splits InvalidAction.splits)

section \<open>Behaviour\<close>

lemma first_match_append:
  "first_match (rs @ [r]) m =
     (if list_all (\<lambda>rule. rule m = None) rs then (case r m of Some ts \<Rightarrow> m\<lparr>route_to := ts\<rparr> | None \<Rightarrow> m)
      else first_match rs m)"
  by (induction rs) (auto split: option.splits)

text \<open>Routing rules are tried in the order they were added and the first match decides: adding a rule changes the routes of
  a message exactly when no earlier rule matches it and the new one does, and the new rule then replaces its routes.\<close>

theorem router_first_match:
  "router_process (router_rule matcher targets self) msg =
     (if list_all (\<lambda>rule. rule msg = None) (rules self) \<and> matcher msg
      then Some (msg\<lparr>route_to := targets\<rparr>) else router_process self msg)"
proof -
  have "first_match rs msg = msg" if "list_all (\<lambda>rule. rule msg = None) rs" for rs
    using that by (induction rs) auto
  then show ?thesis by (simp add: router_process_def router_rule_def first_match_append)
qed

end
