(* ===== verification/Aggregator.thy ===== *)
theory Aggregator
  imports Middleware "HOL-Library.Char_ord" "HOL-Library.List_Lexorder"
begin

text \<open>
  The aggregator of \<open>gateway/src/middleware/aggregator.rs\<close>: it holds messages back until a
  batch is full and combines the batch into one message. \<open>serde_json\<close> is a parameter: parsing
  (\<open>from_slice\<close>), the string constructor of its values and the serialisation of a list of values. Strings are
  ordered byte by byte, as Rust orders them.
\<close>

record 'j Json =
  from_slice :: "bytes \<Rightarrow> string + 'j"
  json_string :: "string \<Rightarrow> 'j"
  json_to_vec :: "'j list \<Rightarrow> string + bytes"

datatype AggregateStrategy = JsonArray | Concat | Last | First

record Aggregator =
  agg_batch_size :: nat
  agg_strategy :: AggregateStrategy
  agg_buffer :: "Message list"

definition aggregator_new :: "nat \<Rightarrow> panic + Aggregator" where
  "aggregator_new batch_size =
     (if batch_size = 0 then Inl (AssertFailed ''batch_size must be > 0'')
      else Inr \<lparr>agg_batch_size = batch_size, agg_strategy = JsonArray, agg_buffer = []\<rparr>)"

definition aggregator_strategy :: "AggregateStrategy \<Rightarrow> Aggregator \<Rightarrow> Aggregator" where
  "aggregator_strategy st self = self\<lparr>agg_strategy := st\<rparr>"

definition json_payload :: "'j Json \<Rightarrow> Message \<Rightarrow> 'j" where
  "json_payload J m =
     (case from_slice J (payload m) of
        Inr v \<Rightarrow> v
      | Inl e \<Rightarrow> json_string J (case payload_str m of Some s \<Rightarrow> s | None \<Rightarrow> []))"

definition combine_payload :: "'j Json \<Rightarrow> AggregateStrategy \<Rightarrow> Message list \<Rightarrow> bytes" where
  "combine_payload J st messages =
     (case st of
        JsonArray \<Rightarrow> (case json_to_vec J (map (json_payload J) messages) of Inr b \<Rightarrow> b | Inl e \<Rightarrow> [])
      | Concat \<Rightarrow> concat (map (\<lambda>m. payload m @ [CHR 0x0A]) messages)
      | Last \<Rightarrow> payload (last messages)
      | First \<Rightarrow> payload (hd messages))"

definition combine_metadata :: "Message list \<Rightarrow> string \<rightharpoonup> string" where
  "combine_metadata messages =
     (foldl (\<lambda>md msg. md ++ metadata msg) Map.empty messages)
       (''polku.aggregator.count'' \<mapsto> show_nat (length messages))"

definition combine_source :: "Message list \<Rightarrow> string" where
  "combine_source messages =
     (let sources = map source messages
      in if list_all (\<lambda>s. s = hd sources) sources then hd sources else ''aggregated'')"

definition combine_routes :: "Message list \<Rightarrow> string list" where
  "combine_routes messages = remdups_adj (sort (concat (map route_to messages)))"

text \<open>Indexing the first message of an empty batch would panic.\<close>

definition combine :: "'j Json \<Rightarrow> Call \<Rightarrow> Aggregator \<Rightarrow> Message list \<Rightarrow> panic + Message" where
  "combine J c self messages =
     (case messages of
        [] \<Rightarrow> Inl IndexOutOfBounds
      | first # _ \<Rightarrow> Inr
          \<lparr>msg_id = call_ulid c,
           timestamp = (case call_wall c of Some t \<Rightarrow> t | None \<Rightarrow> 0),
           source = combine_source messages,
           message_type = message_type first @ ''.aggregate'',
           metadata = combine_metadata messages,
           payload = combine_payload J (agg_strategy self) messages,
           route_to = combine_routes messages\<rparr>)"

definition pending :: "Aggregator \<Rightarrow> nat" where
  "pending self = length (agg_buffer self)"

definition aggregator_flush :: "'j Json \<Rightarrow> Call \<Rightarrow> Aggregator \<Rightarrow> panic + (Message option \<times> Aggregator)" where
  "aggregator_flush J c self =
     (if agg_buffer self = [] then Inr (None, self)
      else (case combine J c self (agg_buffer self) of
          Inl p \<Rightarrow> Inl p
        | Inr m \<Rightarrow> Inr (Some m, self\<lparr>agg_buffer := []\<rparr>)))"

definition aggregator_process :: "'j Json \<Rightarrow> Call \<Rightarrow> Message \<Rightarrow> Aggregator \<Rightarrow> panic + (Message option \<times> Aggregator)" where
  "aggregator_process J c msg self =
     (let buffer = agg_buffer self @ [msg] in
      if length buffer \<ge> agg_batch_size self
      then (case combine J c self buffer of
          Inl p \<Rightarrow> Inl p
        | Inr m \<Rightarrow> Inr (Some m, self\<lparr>agg_buffer := []\<rparr>))
      else Inr (None, self\<lparr>agg_buffer := buffer\<rparr>))"

section \<open>Batches\<close>

definition agg_wf :: "Aggregator \<Rightarrow> bool" where
  "agg_wf a \<longleftrightarrow> 0 < agg_batch_size a \<and> length (agg_buffer a) < agg_batch_size a"

lemma agg_wf_new: "aggregator_new n = Inr a \<Longrightarrow> agg_wf a"
  by (auto simp: aggregator_new_def agg_wf_def split: if_splits)

lemma combine_total: "ms \<noteq> [] \<Longrightarrow> \<exists>m. combine J c self ms = Inr m"
  by (cases ms) (simp_all add: combine_def)

lemma aggregator_process_total:
  "agg_wf a \<Longrightarrow> \<exists>out a'. aggregator_process J c m a = Inr (out, a') \<and> agg_wf a'"
  using combine_total [of "agg_buffer a @ [m]" J c a]
  by (auto simp: aggregator_process_def agg_wf_def Let_def)

interpretation aggregator_mw: middleware "aggregator_process J" agg_wf "\<lambda>_ _. True" for J
  by unfold_locales (use aggregator_process_total in blast)

text \<open>
  The outputs of a run against the batches they were made of: an output for a batch is its
  combination, with the identifier and time of the call that completed it.
\<close>

definition combined_from :: "'j Json \<Rightarrow> Aggregator \<Rightarrow> Message \<Rightarrow> Message list \<Rightarrow> bool" where
  "combined_from J a m batch \<longleftrightarrow> (\<exists>c. combine J c a batch = Inr m)"

lemma combine_config: "combine J c (a\<lparr>agg_buffer := b\<rparr>) ms = combine J c a ms"
  by (simp add: combine_def split: list.splits)

lemma aggregator_run_batches:
  assumes "agg_wf a"
  shows "\<exists>outs a' batches. mw_run (aggregator_process J) ms a = Inr (outs, a') \<and> agg_wf a' \<and>
    length outs = length ms \<and> list_all2 (combined_from J a) (passed outs) batches \<and>
    list_all (\<lambda>b. length b = agg_batch_size a) batches \<and>
    concat batches @ agg_buffer a' = agg_buffer a @ map snd ms"
  using assms
proof (induction ms arbitrary: a)
  case Nil
  then show ?case by (intro exI [of _ "[]"] exI [of _ a]) simp
next
  case (Cons cm ms)
  obtain c m where cm: "cm = (c, m)" by fastforce
  let ?buf = "agg_buffer a @ [m]"
  show ?case
  proof (cases "length ?buf \<ge> agg_batch_size a")
    case True
    obtain out where out: "combine J c a ?buf = Inr out" using combine_total by blast
    let ?a1 = "a\<lparr>agg_buffer := []\<rparr>"
    have step: "aggregator_process J c m a = Inr (Some out, ?a1)"
      using True out by (simp add: aggregator_process_def Let_def)
    have "agg_wf ?a1" using Cons.prems by (simp add: agg_wf_def)
    then obtain outs a' batches where ih: "mw_run (aggregator_process J) ms ?a1 = Inr (outs, a')" "agg_wf a'"
      "length outs = length ms" "list_all2 (combined_from J ?a1) (passed outs) batches"
      "list_all (\<lambda>b. length b = agg_batch_size ?a1) batches" "concat batches @ agg_buffer a' = map snd ms"
      using Cons.IH [of ?a1] by auto
    have "combined_from J ?a1 = combined_from J a"
      by (simp add: combined_from_def combine_config fun_eq_iff)
    moreover have "length ?buf = agg_batch_size a" using True Cons.prems by (simp add: agg_wf_def)
    moreover have "combined_from J a out ?buf" using out by (auto simp: combined_from_def)
    ultimately show ?thesis
      using step ih
      by (intro exI [of _ "Some out # outs"] exI [of _ a'] exI [of _ "?buf # batches"]) (simp add: cm)
  next
    case False
    let ?a1 = "a\<lparr>agg_buffer := ?buf\<rparr>"
    have step: "aggregator_process J c m a = Inr (None, ?a1)"
      using False by (simp add: aggregator_process_def Let_def)
    have "agg_wf ?a1" using Cons.prems False by (simp add: agg_wf_def)
    then obtain outs a' batches where ih: "mw_run (aggregator_process J) ms ?a1 = Inr (outs, a')" "agg_wf a'"
      "length outs = length ms" "list_all2 (combined_from J ?a1) (passed outs) batches"
      "list_all (\<lambda>b. length b = agg_batch_size ?a1) batches" "concat batches @ agg_buffer a' = ?buf @ map snd ms"
      using Cons.IH [of ?a1] by auto
    have "combined_from J ?a1 = combined_from J a"
      by (simp add: combined_from_def combine_config fun_eq_iff)
    with step ih show ?thesis
      by (intro exI [of _ "None # outs"] exI [of _ a'] exI [of _ batches]) (simp add: cm)
  qed
qed

text \<open>C34. Aggregation loses and duplicates nothing: over any run of a new aggregator every message is in exactly one
  full batch, in order, or still pending; each batch of \<open>batch_size\<close> messages gives one output, the combination of it; fewer than a batch are pending
  and a final flush combines exactly those.\<close>

theorem aggregator_lossless:
  assumes "aggregator_new n = Inr a"
  shows "\<exists>outs a' batches. mw_run (aggregator_process J) ms a = Inr (outs, a') \<and>
    list_all2 (combined_from J a) (passed outs) batches \<and> list_all (\<lambda>b. length b = n) batches \<and>
    concat batches @ agg_buffer a' = map snd ms \<and> pending a' < n \<and>
    (\<exists>out. aggregator_flush J c a' = Inr (out, a'\<lparr>agg_buffer := []\<rparr>) \<and>
       (out = None \<longleftrightarrow> pending a' = 0) \<and> (\<forall>m. out = Some m \<longrightarrow> combine J c a' (agg_buffer a') = Inr m))"
proof -
  have a: "agg_batch_size a = n" "agg_buffer a = []"
    using assms by (auto simp: aggregator_new_def split: if_splits)
  have size: "agg_batch_size a' = agg_batch_size a" if "mw_run (aggregator_process J) ms a = Inr (outs, a')" for ms outs a a'
    using that
    by (induction "aggregator_process J" ms a arbitrary: outs rule: mw_run.induct)
      (force simp: aggregator_process_def Let_def split: if_splits sum.splits)+
  obtain outs a' batches where run: "mw_run (aggregator_process J) ms a = Inr (outs, a')" "agg_wf a'"
    "list_all2 (combined_from J a) (passed outs) batches" "list_all (\<lambda>b. length b = n) batches"
    "concat batches @ agg_buffer a' = map snd ms"
    using aggregator_run_batches [OF agg_wf_new [OF assms], of J ms] a by auto
  moreover have "pending a' < n" using run(2) size [OF run(1)] a by (simp add: agg_wf_def pending_def)
  moreover have "\<exists>out. aggregator_flush J c a' = Inr (out, a'\<lparr>agg_buffer := []\<rparr>) \<and>
       (out = None \<longleftrightarrow> pending a' = 0) \<and> (\<forall>m. out = Some m \<longrightarrow> combine J c a' (agg_buffer a') = Inr m)"
    using combine_total [of "agg_buffer a'" J c a'] by (auto simp: aggregator_flush_def pending_def)
  ultimately show ?thesis
    by (intro exI [of _ outs] exI [of _ a'] exI [of _ batches] conjI) assumption+
qed

text \<open>A stand-in for \<open>serde_json\<close> in the examples: every payload is a value, and a list of values is their concatenation.\<close>

definition sample_json :: "bytes Json" where
  "sample_json = \<lparr>from_slice = Inr, json_string = (\<lambda>s. s), json_to_vec = (\<lambda>vs. Inr (concat vs))\<rparr>"

theorem aggregator_lossless_witness:
  "\<exists>a outs a' batches. aggregator_new 2 = Inr a \<and>
     mw_run (aggregator_process sample_json)
       [(\<lparr>call_time = 0, call_wall = None, call_ulid = ''u1''\<rparr>, sample_message ''a''),
        (\<lparr>call_time = 0, call_wall = None, call_ulid = ''u2''\<rparr>, sample_message ''b''),
        (\<lparr>call_time = 0, call_wall = None, call_ulid = ''u3''\<rparr>, sample_message ''c'')] a = Inr (outs, a') \<and>
     concat batches @ agg_buffer a' = [sample_message ''a'', sample_message ''b'', sample_message ''c''] \<and> pending a' < 2"
proof -
  obtain a where "aggregator_new 2 = Inr a" by (simp add: aggregator_new_def)
  from this aggregator_lossless [OF this, of "sample_json"
      "[(\<lparr>call_time = 0, call_wall = None, call_ulid = ''u1''\<rparr>, sample_message ''a''),
        (\<lparr>call_time = 0, call_wall = None, call_ulid = ''u2''\<rparr>, sample_message ''b''),
        (\<lparr>call_time = 0, call_wall = None, call_ulid = ''u3''\<rparr>, sample_message ''c'')]"]
  show ?thesis by (simp del: mw_run.simps) blast
qed

section \<open>The combined message\<close>

lemma foldl_map_add:
  "foldl (\<lambda>md msg. md ++ metadata msg) md0 ms k =
     (case filter (\<lambda>m. metadata m k \<noteq> None) (rev ms) of [] \<Rightarrow> md0 k | m # _ \<Rightarrow> metadata m k)"
proof (induction ms rule: rev_induct)
  case (snoc m ms)
  then show ?case by (simp add: map_add_def split: option.splits)
qed simp

lemma set_combine_routes [simp]: "set (combine_routes ms) = (\<Union>m\<in>set ms. set (route_to m))"
  by (auto simp: combine_routes_def)

lemma strict_sorted_remdups_adj: "sorted (xs :: 'a::linorder list) \<Longrightarrow> sorted_wrt (<) (remdups_adj xs)"
proof (induction xs rule: remdups_adj.induct)
  case (3 x y xs)
  then show ?case by (auto simp: less_le intro: order_trans)
qed simp_all

lemma sorted_combine_routes: "sorted_wrt (<) (combine_routes ms)"
  unfolding combine_routes_def by (rule strict_sorted_remdups_adj) simp

text \<open>What a combined message carries: for each metadata key the value of the last message of the batch that has
  the key, with the batch size under its own key; the common source of the batch if there is one; the
  routes of all its messages, sorted and without duplicates. It reaches an output named by any of them; but when
  the batch mixes messages with routes and messages without, the latter, meant for
  every output, reach only the outputs that the former name.\<close>

theorem combine_contents:
  assumes "combine J c self ms = Inr m"
  shows "metadata m ''polku.aggregator.count'' = Some (show_nat (length ms)) \<and>
    (\<forall>k. k \<noteq> ''polku.aggregator.count'' \<longrightarrow> metadata m k =
       (case filter (\<lambda>x. metadata x k \<noteq> None) (rev ms) of [] \<Rightarrow> None | x # _ \<Rightarrow> metadata x k)) \<and>
    source m = (if \<exists>s. \<forall>x\<in>set ms. source x = s then source (hd ms) else ''aggregated'') \<and>
    sorted_wrt (<) (route_to m) \<and> set (route_to m) = (\<Union>x\<in>set ms. set (route_to x)) \<and>
    (\<forall>out. should_route_to m out \<longleftrightarrow>
       (\<exists>x\<in>set ms. out \<in> set (route_to x)) \<or> (\<forall>x\<in>set ms. route_to x = []))"
proof -
  obtain x xs where ms: "ms = x # xs" using assms by (cases ms) (simp_all add: combine_def)
  have m: "metadata m = combine_metadata ms" "source m = combine_source ms" "route_to m = combine_routes ms"
    using assms by (auto simp: combine_def ms)
  have "source m = (if \<exists>s. \<forall>x\<in>set ms. source x = s then source (hd ms) else ''aggregated'')"
    by (auto simp: m combine_source_def ms list_all_iff Let_def)
  moreover have "should_route_to m out \<longleftrightarrow>
      (\<exists>x\<in>set ms. out \<in> set (route_to x)) \<or> (\<forall>x\<in>set ms. route_to x = [])" for out
  proof -
    have "combine_routes ms = [] \<longleftrightarrow> (\<forall>x\<in>set ms. route_to x = [])"
      by (subst set_empty [symmetric]) simp
    then show ?thesis by (auto simp: should_route_to_iff m)
  qed
  ultimately show ?thesis
    using sorted_combine_routes by (simp add: m combine_metadata_def foldl_map_add)
qed

text \<open>The witness: a message for every output, combined with one for \<open>a\<close>, no longer reaches \<open>b\<close>.\<close>

theorem combine_contents_witness:
  "\<exists>m. combine sample_json
       \<lparr>call_time = 0, call_wall = None, call_ulid = ''u''\<rparr>
       \<lparr>agg_batch_size = 2, agg_strategy = Concat, agg_buffer = []\<rparr>
       [sample_message ''m'', with_routes (sample_message ''n'') [''a'']] = Inr m \<and>
     should_route_to (sample_message ''m'') ''b'' \<and> \<not> should_route_to m ''b'' \<and> should_route_to m ''a''"
proof -
  let ?J = "sample_json"
  let ?c = "\<lparr>call_time = 0, call_wall = None, call_ulid = ''u''\<rparr>"
  let ?a = "\<lparr>agg_batch_size = 2, agg_strategy = Concat, agg_buffer = []\<rparr>"
  let ?ms = "[sample_message ''m'', with_routes (sample_message ''n'') [''a'']]"
  obtain m where m: "combine ?J ?c ?a ?ms = Inr m" using combine_total by blast
  then have "should_route_to m out \<longleftrightarrow> out = ''a''" for out
    using combine_contents [OF m] by (simp add: message_with_id_def with_routes_def)
  moreover have "should_route_to (sample_message ''m'') ''b''"
    by (simp add: should_route_to_def message_with_id_def)
  ultimately show ?thesis using m by auto
qed

end
