(* ===== verification/Middleware_Chain.thy ===== *)
theory Middleware_Chain
  imports Throttle Deduplicator Sampler Transformers Aggregator
begin

text \<open>
  The middleware chain of \<open>gateway/src/middleware/mod.rs\<close>: the middlewares of the crate as one
  type, and the chain that hands a message from one to the next and stops when one of
  them drops it. \<open>MwEnv\<close> holds what the middlewares take from outside the crate: \<open>serde_json\<close>, the iteration
  order of hash maps, and the clock as the throttle reads it within a call.
\<close>

record 'j MwEnv =
  mw_json :: "'j Json"
  mw_order :: "bucket_map \<Rightarrow> bucket_map"
  mw_reads :: "Call \<Rightarrow> Readings"

datatype Middleware =
    Mw_PassThrough
  | Mw_Filter "Message \<Rightarrow> bool"
  | Mw_Transform "Message \<Rightarrow> Message"
  | Mw_Router Router
  | Mw_RateLimiter RateLimiter
  | Mw_Deduplicator Deduplicator
  | Mw_Sampler Sampler
  | Mw_Throttle Throttle
  | Mw_Enricher Enricher
  | Mw_Validator Validator
  | Mw_Aggregator Aggregator

fun middleware_name :: "Middleware \<Rightarrow> string" where
  "middleware_name Mw_PassThrough = ''passthrough''"
| "middleware_name (Mw_Filter _) = ''filter''"
| "middleware_name (Mw_Transform _) = ''transform''"
| "middleware_name (Mw_Router _) = ''router''"
| "middleware_name (Mw_RateLimiter _) = ''rate_limiter''"
| "middleware_name (Mw_Deduplicator _) = ''deduplicator''"
| "middleware_name (Mw_Sampler _) = ''sampler''"
| "middleware_name (Mw_Throttle _) = ''throttle''"
| "middleware_name (Mw_Enricher _) = ''enricher''"
| "middleware_name (Mw_Validator _) = ''validator''"
| "middleware_name (Mw_Aggregator _) = ''aggregator''"

fun middleware_process :: "'j MwEnv \<Rightarrow> Middleware process_fn" where
  "middleware_process E c m Mw_PassThrough = Inr (passthrough_process m, Mw_PassThrough)"
| "middleware_process E c m (Mw_Filter p) = Inr (filter_process p m, Mw_Filter p)"
| "middleware_process E c m (Mw_Transform f) = Inr (transform_process f m, Mw_Transform f)"
| "middleware_process E c m (Mw_Router s) = Inr (router_process s m, Mw_Router s)"
| "middleware_process E c m (Mw_RateLimiter s) =
     map_sum id (map_prod id Mw_RateLimiter) (rate_limiter_process (call_time c) m s)"
| "middleware_process E c m (Mw_Deduplicator s) =
     Inr (map_prod id Mw_Deduplicator (deduplicator_process (call_time c) m s))"
| "middleware_process E c m (Mw_Sampler s) = Inr (map_prod id Mw_Sampler (sampler_process m s))"
| "middleware_process E c m (Mw_Throttle s) =
     map_sum id (map_prod id Mw_Throttle) (throttle_process (mw_order E) (mw_reads E c) m s)"
| "middleware_process E c m (Mw_Enricher s) = Inr (enricher_process s m, Mw_Enricher s)"
| "middleware_process E c m (Mw_Validator s) = Inr (validator_process s m, Mw_Validator s)"
| "middleware_process E c m (Mw_Aggregator s) =
     map_sum id (map_prod id Mw_Aggregator) (aggregator_process (mw_json E) c m s)"

type_synonym MiddlewareChain = "Middleware list"

definition chain_new :: MiddlewareChain where
  "chain_new = []"

definition chain_add :: "Middleware \<Rightarrow> MiddlewareChain \<Rightarrow> MiddlewareChain" where
  "chain_add mw chain = chain @ [mw]"

fun chain_process :: "'j MwEnv \<Rightarrow> MiddlewareChain process_fn" where
  "chain_process E c msg [] = Inr (Some msg, [])"
| "chain_process E c msg (mw # mws) =
     (case middleware_process E c msg mw of
        Inl p \<Rightarrow> Inl p
      | Inr (None, mw) \<Rightarrow> Inr (None, mw # mws)
      | Inr (Some msg, mw) \<Rightarrow>
          (case chain_process E c msg mws of
             Inl p \<Rightarrow> Inl p
           | Inr (out, mws) \<Rightarrow> Inr (out, mw # mws)))"

definition chain_is_empty :: "MiddlewareChain \<Rightarrow> bool" where
  "chain_is_empty chain \<longleftrightarrow> chain = []"

definition chain_len :: "MiddlewareChain \<Rightarrow> nat" where
  "chain_len chain = length chain"

section \<open>The contract of the chain\<close>

fun mw_wf :: "Middleware \<Rightarrow> bool" where
  "mw_wf (Mw_RateLimiter s) \<longleftrightarrow> rl_wf s"
| "mw_wf (Mw_Throttle s) \<longleftrightarrow> throttle_wf s"
| "mw_wf (Mw_Deduplicator s) \<longleftrightarrow> dedup_wf s"
| "mw_wf (Mw_Aggregator s) \<longleftrightarrow> agg_wf s"
| "mw_wf _ \<longleftrightarrow> True"

text \<open>The middlewares that never replace a message by another one.\<close>

fun preserving :: "Middleware \<Rightarrow> bool" where
  "preserving (Mw_Transform _) \<longleftrightarrow> False"
| "preserving (Mw_Aggregator _) \<longleftrightarrow> False"
| "preserving _ \<longleftrightarrow> True"

fun deciding :: "Middleware \<Rightarrow> bool" where
  "deciding (Mw_Router _) \<longleftrightarrow> False"
| "deciding (Mw_Enricher _) \<longleftrightarrow> False"
| "deciding (Mw_Validator _) \<longleftrightarrow> False"
| "deciding mw \<longleftrightarrow> preserving mw"

lemma middleware_process_total:
  assumes "mw_wf mw"
  shows "\<exists>out mw'. middleware_process E c m mw = Inr (out, mw') \<and> mw_wf mw' \<and>
    preserving mw' = preserving mw \<and> deciding mw' = deciding mw \<and>
    (\<forall>m'. out = Some m' \<longrightarrow> (preserving mw \<longrightarrow> same_identity m m') \<and> (deciding mw \<longrightarrow> m' = m))"
proof (cases mw)
  case (Mw_RateLimiter s)
  then show ?thesis using assms limiter_mw.total [of s c m] by auto
next
  case (Mw_Throttle s)
  then show ?thesis using assms throttle_mw.total [of s "mw_order E" "mw_reads E" c m] by auto
next
  case (Mw_Deduplicator s)
  then show ?thesis using assms dedup_mw.total [of s c m] by auto
next
  case (Mw_Sampler s)
  then show ?thesis using sampler_mw.total [where s = s and m = m] by auto
next
  case (Mw_Aggregator s)
  then show ?thesis using assms aggregator_mw.total [of s "mw_json E" c m] by auto
next
  case (Mw_Router s)
  then show ?thesis using router_mw.total [where s = s and m = m] by auto
next
  case (Mw_Enricher s)
  then show ?thesis using enricher_mw.total [where s = s and m = m] by auto
next
  case (Mw_Validator s)
  then show ?thesis using validator_mw.total [where s = s and m = m] by auto
next
  case (Mw_Filter p)
  then show ?thesis using filter_mw.total [where s = p and m = m] by auto
qed (simp_all add: passthrough_process_def transform_process_def)

lemma chain_process_total:
  assumes "list_all mw_wf mws"
  shows "\<exists>out mws'. chain_process E c m mws = Inr (out, mws') \<and> list_all mw_wf mws' \<and>
    map preserving mws' = map preserving mws \<and> map deciding mws' = map deciding mws \<and>
    (\<forall>m'. out = Some m' \<longrightarrow>
      (list_all preserving mws \<longrightarrow> same_identity m m') \<and> (list_all deciding mws \<longrightarrow> m' = m))"
  using assms
proof (induction mws arbitrary: m)
  case (Cons mw mws)
  obtain out mw' where mw': "middleware_process E c m mw = Inr (out, mw')" "mw_wf mw'"
    "preserving mw' = preserving mw" "deciding mw' = deciding mw"
    "\<forall>m'. out = Some m' \<longrightarrow> (preserving mw \<longrightarrow> same_identity m m') \<and> (deciding mw \<longrightarrow> m' = m)"
    using middleware_process_total [of mw E c m] Cons.prems by auto
  show ?case
  proof (cases out)
    case None
    with mw' Cons.prems show ?thesis by auto
  next
    case (Some m1)
    obtain out2 mws' where "chain_process E c m1 mws = Inr (out2, mws')" "list_all mw_wf mws'"
      "map preserving mws' = map preserving mws" "map deciding mws' = map deciding mws"
      "\<forall>m'. out2 = Some m' \<longrightarrow>
        (list_all preserving mws \<longrightarrow> same_identity m1 m') \<and> (list_all deciding mws \<longrightarrow> m' = m1)"
      using Cons.IH [of m1] Cons.prems by auto
    with Some mw' show ?thesis by (auto intro: same_identity_trans)
  qed
qed simp

lemma map_preserving_all: "map preserving xs = map preserving ys \<Longrightarrow> list_all preserving xs = list_all preserving ys"
  by (metis list_all_length length_map nth_map)

lemma map_deciding_all: "map deciding xs = map deciding ys \<Longrightarrow> list_all deciding xs = list_all deciding ys"
  by (metis list_all_length length_map nth_map)

interpretation chain_mw: middleware "chain_process E" "list_all mw_wf" "\<lambda>_ _. True" for E
  by unfold_locales (use chain_process_total in blast)

interpretation preserving_chain: middleware "chain_process E"
  "\<lambda>mws. list_all mw_wf mws \<and> list_all preserving mws" same_identity for E
proof
  fix s c m assume "list_all mw_wf s \<and> list_all preserving s"
  then show "\<exists>out s'. chain_process E c m s = Inr (out, s') \<and> (list_all mw_wf s' \<and> list_all preserving s') \<and>
      (\<forall>m'. out = Some m' \<longrightarrow> same_identity m m')"
    using chain_process_total [of s E c m] map_preserving_all by blast
qed

interpretation deciding_chain: deciding_middleware "chain_process E"
  "\<lambda>mws. list_all mw_wf mws \<and> list_all deciding mws" for E
proof
  fix s c m assume "list_all mw_wf s \<and> list_all deciding s"
  then show "\<exists>out s'. chain_process E c m s = Inr (out, s') \<and> (list_all mw_wf s' \<and> list_all deciding s') \<and>
      (\<forall>m'. out = Some m' \<longrightarrow> m' = m)"
    using chain_process_total [of s E c m] map_deciding_all by blast
qed

lemma chain_process_append:
  "chain_process E c m (xs @ ys) =
     (case chain_process E c m xs of
        Inl p \<Rightarrow> Inl p
      | Inr (None, xs') \<Rightarrow> Inr (None, xs' @ ys)
      | Inr (Some m', xs') \<Rightarrow>
          (case chain_process E c m' ys of Inl p \<Rightarrow> Inl p | Inr (out, ys') \<Rightarrow> Inr (out, xs' @ ys')))"
  by (induction xs arbitrary: m) (auto split: sum.splits option.splits prod.splits)

text \<open>A chain is the composition of its parts: what the first part lets through goes to the second
  part, and when the first part drops a message the second part neither runs nor changes. In
  particular a middleware added to a chain sees exactly the messages that the chain lets through.\<close>

theorem chain_composes:
  "chain_process E c m (chain_add mw chain) =
     (case chain_process E c m chain of
        Inl p \<Rightarrow> Inl p
      | Inr (None, chain') \<Rightarrow> Inr (None, chain' @ [mw])
      | Inr (Some m', chain') \<Rightarrow>
          (case middleware_process E c m' mw of
             Inl p \<Rightarrow> Inl p
           | Inr (out, mw') \<Rightarrow> Inr (out, chain' @ [mw'])))"
  unfolding chain_add_def chain_process_append
  by (auto split: sum.splits option.splits prod.splits)

text \<open>C38. A run of messages through a chain of well-formed middlewares, whatever the readings of the clock and the order in which hash
  maps are iterated, never panics and keeps them well formed: a rate limiter or a throttle holds no more than its capacity and has a refill interval above
  zero, the maps of a throttle and a deduplicator have each key once, and an aggregator has a positive batch size and less than a batch pending. (The closures of filters, transforms,
  rules and validators return.) A chain without transforms and aggregators never changes who a message is (its identifier,
  time, source, type and payload); a chain of deciding middlewares lets a subsequence of the messages through, unchanged.\<close>

theorem chain_contract:
  assumes "list_all mw_wf chain"
  shows "\<exists>outs chain'. mw_run (chain_process E) ms chain = Inr (outs, chain') \<and> list_all mw_wf chain' \<and>
    (list_all preserving chain \<longrightarrow> list_all2 (\<lambda>(_, m) out. \<forall>m'. out = Some m' \<longrightarrow> same_identity m m') ms outs) \<and>
    (list_all deciding chain \<longrightarrow> subseq (passed outs) (map snd ms))"
proof -
  obtain outs chain' where run: "mw_run (chain_process E) ms chain = Inr (outs, chain')" "list_all mw_wf chain'"
    using chain_mw.run_total [OF assms, of E ms] by blast
  moreover have "list_all2 (\<lambda>(_, m) out. \<forall>m'. out = Some m' \<longrightarrow> same_identity m m') ms outs"
    if "list_all preserving chain"
    using preserving_chain.run_total [of chain E ms] that assms run(1) by auto
  moreover have "subseq (passed outs) (map snd ms)" if "list_all deciding chain"
    using deciding_chain.run_subseq [of chain E ms] that assms run(1) by auto
  ultimately show ?thesis by blast
qed

definition sample_mw_env :: "bytes MwEnv" where
  "sample_mw_env = \<lparr>mw_json = sample_json, mw_order = id, mw_reads = (\<lambda>c. instantly (call_time c))\<rparr>"

theorem chain_contract_witness:
  "\<exists>outs chain'. mw_run (chain_process sample_mw_env)
      [(\<lparr>call_time = 0, call_wall = None, call_ulid = ''u''\<rparr>, sample_message ''a''),
       (\<lparr>call_time = 1, call_wall = None, call_ulid = ''v''\<rparr>, sample_message ''a'')]
      [Mw_Deduplicator (deduplicator_new 10), Mw_RateLimiter (rate_limiter_new 0 10 5)] = Inr (outs, chain') \<and>
    subseq (passed outs) [sample_message ''a'', sample_message ''a'']"
proof -
  let ?chain = "[Mw_Deduplicator (deduplicator_new 10), Mw_RateLimiter (rate_limiter_new 0 10 5)]"
  have "list_all mw_wf ?chain" "list_all deciding ?chain"
    by (simp_all add: rl_wf_new dedup_wf_def deduplicator_new_def)
  with chain_contract [of ?chain "sample_mw_env"
      "[(\<lparr>call_time = 0, call_wall = None, call_ulid = ''u''\<rparr>, sample_message ''a''),
       (\<lparr>call_time = 1, call_wall = None, call_ulid = ''v''\<rparr>, sample_message ''a'')]"]
  show ?thesis by (auto simp del: mw_run.simps)
qed

end
