(* ===== verification/Metrics.thy ===== *)
theory Metrics
  imports Messages Complex_Main
begin

text \<open>
  The metrics of \<open>gateway/src/metrics.rs\<close>: labelled counters, gauges and a histogram, as far as the
  crate sets them. A counter of the \<open>prometheus\<close> library holds an \<open>f64\<close> to which whole numbers are added: here a natural
  number, which such a counter shows as long as it is at most \<open>2 ^ 53\<close> (\<open>f64_counter_exact\<close>). Whether a registration succeeds is the
  library's answer, the parameter \<open>register\<close>: \<open>Some\<close> error text, or \<open>None\<close>. The process-wide
  \<open>METRICS\<close> cell is a \<open>Metrics option\<close>. The text encoder of the library is the parameter \<open>encode\<close>: the bytes it writes for
  what is registered, or \<open>None\<close> when it fails.
\<close>

record Metrics =
  events_received :: "string \<times> string \<Rightarrow> nat"
  events_forwarded :: "string \<times> string \<Rightarrow> nat"
  events_dropped :: "string \<Rightarrow> nat"
  metric_buffer_size :: nat
  metric_buffer_capacity :: nat
  processing_latency :: "string \<Rightarrow> real list"
  active_streams :: int
  plugin_health :: nat

definition metrics_zero :: Metrics where
  "metrics_zero = \<lparr>events_received = (\<lambda>_. 0), events_forwarded = (\<lambda>_. 0), events_dropped = (\<lambda>_. 0),
     metric_buffer_size = 0, metric_buffer_capacity = 0, processing_latency = (\<lambda>_. []), active_streams = 0,
     plugin_health = 0\<rparr>"

text \<open>The registrations, in order: the name of each metric and the field it is kept in.\<close>

definition registrations :: "(string \<times> string) list" where
  "registrations =
     [(''polku_events_received_total'', ''events_received''),
      (''polku_events_forwarded_total'', ''events_forwarded''),
      (''polku_events_dropped_total'', ''events_dropped''),
      (''polku_buffer_size'', ''buffer_size''),
      (''polku_buffer_capacity'', ''buffer_capacity''),
      (''polku_processing_latency_seconds'', ''processing_latency''),
      (''polku_active_streams'', ''active_streams''),
      (''polku_plugin_health'', ''plugin_health'')]"

fun register_all :: "(string \<Rightarrow> string option) \<Rightarrow> (string \<times> string) list \<Rightarrow> PolkuError + unit" where
  "register_all register [] = Inr ()"
| "register_all register ((name, field) # rs) =
     (case register name of
        Some e \<Rightarrow> Inl (Metrics_error (field @ '': '' @ e))
      | None \<Rightarrow> register_all register rs)"

definition metrics_init :: "(string \<Rightarrow> string option) \<Rightarrow> Metrics option \<Rightarrow> (PolkuError + Metrics) \<times> Metrics option" where
  "metrics_init register cell =
     (case cell of
        Some m \<Rightarrow> (Inr m, cell)
      | None \<Rightarrow>
          (case register_all register registrations of
             Inl e \<Rightarrow> (Inl e, None)
           | Inr _ \<Rightarrow> (Inr metrics_zero, Some metrics_zero)))"

definition metrics_get :: "Metrics option \<Rightarrow> Metrics option" where
  "metrics_get cell = cell"

definition record_received :: "string \<Rightarrow> string \<Rightarrow> nat \<Rightarrow> Metrics \<Rightarrow> Metrics" where
  "record_received src ty n m =
     m\<lparr>events_received := (events_received m)((src, ty) := events_received m (src, ty) + n)\<rparr>"

definition record_forwarded :: "string \<Rightarrow> string \<Rightarrow> nat \<Rightarrow> Metrics \<Rightarrow> Metrics" where
  "record_forwarded out ty n m =
     m\<lparr>events_forwarded := (events_forwarded m)((out, ty) := events_forwarded m (out, ty) + n)\<rparr>"

definition record_dropped :: "string \<Rightarrow> nat \<Rightarrow> Metrics \<Rightarrow> Metrics" where
  "record_dropped reason n m =
     m\<lparr>events_dropped := (events_dropped m)(reason := events_dropped m reason + n)\<rparr>"

definition set_buffer_size :: "nat \<Rightarrow> Metrics \<Rightarrow> Metrics" where
  "set_buffer_size n m = m\<lparr>metric_buffer_size := n\<rparr>"

definition set_buffer_capacity :: "nat \<Rightarrow> Metrics \<Rightarrow> Metrics" where
  "set_buffer_capacity n m = m\<lparr>metric_buffer_capacity := n\<rparr>"

definition record_latency :: "string \<Rightarrow> real \<Rightarrow> Metrics \<Rightarrow> Metrics" where
  "record_latency src seconds m =
     m\<lparr>processing_latency := (processing_latency m)(src := processing_latency m src @ [seconds])\<rparr>"

definition inc_streams :: "Metrics \<Rightarrow> Metrics" where
  "inc_streams m = m\<lparr>active_streams := active_streams m + 1\<rparr>"

definition dec_streams :: "Metrics \<Rightarrow> Metrics" where
  "dec_streams m = m\<lparr>active_streams := active_streams m - 1\<rparr>"

definition set_plugin_health :: "bool \<Rightarrow> Metrics \<Rightarrow> Metrics" where
  "set_plugin_health healthy m = m\<lparr>plugin_health := (if healthy then 1 else 0)\<rparr>"

definition try_record_received :: "string \<Rightarrow> string \<Rightarrow> nat \<Rightarrow> Metrics option \<Rightarrow> Metrics option" where
  "try_record_received src ty n cell = map_option (record_received src ty n) cell"

definition try_record_dropped :: "string \<Rightarrow> nat \<Rightarrow> Metrics option \<Rightarrow> Metrics option" where
  "try_record_dropped reason n cell = map_option (record_dropped reason n) cell"

definition gather :: "(Metrics option \<Rightarrow> bytes option) \<Rightarrow> Metrics option \<Rightarrow> string" where
  "gather encode cell =
     (case encode cell of
        Some buffer \<Rightarrow> if utf8_valid buffer then buffer else []
      | None \<Rightarrow> [])"

text \<open>What stands behind the natural numbers: a counter of the library that rounds every sum and every argument to an \<open>f64\<close>. It shows the
  natural total while this is at most \<open>2 ^ 53\<close>, up to which \<open>f64\<close> holds every natural number; beyond, a real counter falls behind
  the one here.\<close>

definition f64_counter :: "(real \<Rightarrow> real) \<Rightarrow> nat list \<Rightarrow> real" where
  "f64_counter fl ns = foldl (\<lambda>total n. fl (total + fl (real n))) 0 ns"

lemma f64_counter_exact:
  assumes exact: "\<And>n. n \<le> 2 ^ 53 \<Longrightarrow> fl (real n) = real n" and "sum_list ns \<le> 2 ^ 53"
  shows "f64_counter fl ns = real (sum_list ns)"
  using assms(2)
proof (induction ns rule: rev_induct)
  case (snoc n ns)
  then show ?case
    using exact [of n] exact [of "sum_list ns + n"] by (simp add: f64_counter_def)
qed (simp add: f64_counter_def)

lemma gather_utf8: "utf8_valid (gather encode cell)"
  by (simp add: gather_def split: option.splits)

end
