(* ===== verification/Hub.thy ===== *)
theory Hub
  imports Ring_Buffer Emitters Middleware_Chain Metrics
begin

text \<open>
  The pipeline of \<open>gateway/src/hub.rs\<close>: the builder, the sender's side of the channel, the
  receive loop of \<open>HubRunner::run\<close> and the flush loop that it spawns. The two loops run
  concurrently and share the buffer and the metrics; each of their steps up to the next
  await point that lets the other in is one transformer of the record \<open>HubSys\<close>, and \<open>hub_step\<close>
  interleaves them with the senders. The bounded channel is \<open>tokio\<close>'s: a queue of at most \<open>1024\<close>
  messages; the texts of its errors are a parameter. The last fields of the record only remember
  what happened and no step depends on them.
\<close>

section \<open>The builder\<close>

record Hub =
  hub_buffer_capacity :: nat
  hub_batch_size :: nat
  hub_flush_interval_ms :: u64
  hub_middleware :: MiddlewareChain
  hub_emitters :: "Emitter list"

definition hub_new :: Hub where
  "hub_new = \<lparr>hub_buffer_capacity = 10000, hub_batch_size = 100, hub_flush_interval_ms = 10,
     hub_middleware = chain_new, hub_emitters = []\<rparr>"

definition batch_size :: "nat \<Rightarrow> Hub \<Rightarrow> Hub" where
  "batch_size n self = self\<lparr>hub_batch_size := n\<rparr>"

definition flush_interval_ms :: "u64 \<Rightarrow> Hub \<Rightarrow> Hub" where
  "flush_interval_ms ms self = self\<lparr>hub_flush_interval_ms := ms\<rparr>"

definition buffer_capacity :: "nat \<Rightarrow> Hub \<Rightarrow> Hub" where
  "buffer_capacity n self = self\<lparr>hub_buffer_capacity := n\<rparr>"

definition add_middleware :: "Middleware \<Rightarrow> Hub \<Rightarrow> Hub" where
  "add_middleware mw self = self\<lparr>hub_middleware := chain_add mw (hub_middleware self)\<rparr>"

definition emitter_arc :: "Emitter \<Rightarrow> Hub \<Rightarrow> Hub" where
  "emitter_arc em self = self\<lparr>hub_emitters := hub_emitters self @ [em]\<rparr>"

record HubRunner =
  runner_buffer :: RingBuffer
  runner_batch_size :: nat
  runner_flush_interval_ms :: u64
  runner_middleware :: MiddlewareChain
  runner_emitters :: "Emitter list"

definition hub_build :: "Hub \<Rightarrow> HubRunner" where
  "hub_build self =
     \<lparr>runner_buffer = ring_buffer_new (hub_buffer_capacity self), runner_batch_size = hub_batch_size self,
      runner_flush_interval_ms = hub_flush_interval_ms self, runner_middleware = hub_middleware self,
      runner_emitters = hub_emitters self\<rparr>"

section \<open>The running hub\<close>

datatype flush_pc = Checking | Waiting | Emitting "Event list" nat | Finished

record 'x HubSys =
  channel :: "Message list"
  senders :: bool
  receiving :: bool
  run_panicked :: bool
  shutdown_flag :: bool
  flusher :: flush_pc
  hub_buffer :: RingBuffer
  hub_chain :: MiddlewareChain
  hub_world :: "'x World"
  hub_metrics :: "Metrics option"
  accepted :: "Message list"
  received :: "(Call \<times> Message) list"
  passed_log :: "Message list"
  overflowed :: nat
  drained_log :: "Message list"
  deliveries :: "(nat \<times> Event list \<times> plugin_result) list"

text \<open>The start of \<open>run\<close>, up to the spawning of the flush loop.\<close>

definition hub_start :: "(string \<Rightarrow> string option) \<Rightarrow> HubRunner \<Rightarrow> Metrics option \<Rightarrow> 'x World \<Rightarrow> 'x HubSys" where
  "hub_start register self registered w =
     (let registered = (case metrics_init register registered of
          (Inr _, registered) \<Rightarrow> map_option (set_buffer_capacity (rb_capacity (runner_buffer self))) registered
        | (Inl _, registered) \<Rightarrow> registered)
      in \<lparr>channel = [], senders = True, receiving = True, run_panicked = False, shutdown_flag = False,
          flusher = Checking, hub_buffer = runner_buffer self, hub_chain = runner_middleware self, hub_world = w,
          hub_metrics = registered, accepted = [], received = [], passed_log = [], overflowed = 0,
          drained_log = [], deliveries = []\<rparr>)"

text \<open>\<open>MessageSender::try_send\<close>: the texts are those of a full and of a closed channel.\<close>

definition try_send :: "string \<times> string \<Rightarrow> Message \<Rightarrow> 'x HubSys \<Rightarrow> plugin_result \<times> 'x HubSys" where
  "try_send texts msg s =
     (if run_panicked s then (Inl (Send (snd texts)), s)
      else if 1024 \<le> length (channel s) then (Inl (Send (fst texts)), s)
      else (Inr (), s\<lparr>channel := channel s @ [msg], accepted := accepted s @ [msg]\<rparr>))"

text \<open>One round of the receive loop. A panic of a middleware ends \<open>run\<close> without the shutdown signal.\<close>

definition hub_receive :: "'j MwEnv \<Rightarrow> Call \<Rightarrow> 'x HubSys \<Rightarrow> 'x HubSys" where
  "hub_receive M c s =
     (case channel s of
        [] \<Rightarrow> s
      | msg # rest \<Rightarrow>
          let s = s\<lparr>channel := rest,
                    hub_metrics := map_option (record_received (source msg) (message_type msg) 1) (hub_metrics s)\<rparr>
          in (case chain_process M c msg (hub_chain s) of
                Inl p \<Rightarrow> s\<lparr>receiving := False, run_panicked := True\<rparr>
              | Inr (Some m, chain) \<Rightarrow>
                  let (dropped, buffer) = ring_buffer_push [m] (hub_buffer s)
                  in s\<lparr>hub_chain := chain, hub_buffer := buffer,
                       hub_metrics := (if dropped > 0
                         then map_option (record_dropped ''buffer_overflow'' dropped) (hub_metrics s) else hub_metrics s),
                       received := received s @ [(c, msg)], passed_log := passed_log s @ [m],
                       overflowed := overflowed s + dropped\<rparr>
              | Inr (None, chain) \<Rightarrow>
                  s\<lparr>hub_chain := chain,
                    hub_metrics := map_option (record_dropped ''middleware_filtered'' 1) (hub_metrics s),
                    received := received s @ [(c, msg)]\<rparr>))"

text \<open>The end of the receive loop: all senders are gone and the channel is empty.\<close>

definition hub_finish :: "'x HubSys \<Rightarrow> 'x HubSys" where
  "hub_finish s = s\<lparr>receiving := False, shutdown_flag := True\<rparr>"

text \<open>The part of the flush loop for one emitter.\<close>

definition emit_one :: "'x Env \<Rightarrow> nat \<Rightarrow> Emitter \<Rightarrow> Event list \<Rightarrow> 'x HubSys \<Rightarrow> 'x HubSys" where
  "emit_one E i em events s =
     (let routed_events = filter (event_routed_to (name_of E em)) events in
      if routed_events = [] then s
      else (case emit E em routed_events (hub_world s) of
          (Inl e, w) \<Rightarrow>
            s\<lparr>hub_world := w, deliveries := deliveries s @ [(i, routed_events, Inl e)],
              hub_metrics := map_option (record_dropped (name_of E em) (length routed_events)) (hub_metrics s)\<rparr>
        | (Inr u, w) \<Rightarrow>
            s\<lparr>hub_world := w, deliveries := deliveries s @ [(i, routed_events, Inr u)],
              hub_metrics := map_option
                (fold (\<lambda>event. record_forwarded (name_of E em) (event_type event) 1) routed_events) (hub_metrics s)\<rparr>))"

definition flush_step :: "'x Env \<Rightarrow> Emitter list \<Rightarrow> nat \<Rightarrow> 'x HubSys \<Rightarrow> 'x HubSys" where
  "flush_step E ems bs s =
     (case flusher s of
        Checking \<Rightarrow>
          s\<lparr>flusher := (if shutdown_flag s \<and> ring_buffer_is_empty (hub_buffer s) then Finished else Waiting)\<rparr>
      | Waiting \<Rightarrow>
          let (msgs, buffer) = ring_buffer_drain bs (hub_buffer s) in
          s\<lparr>hub_buffer := buffer, drained_log := drained_log s @ msgs,
            hub_metrics := map_option (set_buffer_size (ring_buffer_len buffer)) (hub_metrics s),
            flusher := (if msgs = [] then Checking else Emitting (map event_from_message msgs) 0)\<rparr>
      | Emitting events i \<Rightarrow>
          if i < length ems then (emit_one E i (ems ! i) events s)\<lparr>flusher := Emitting events (Suc i)\<rparr>
          else s\<lparr>flusher := Checking\<rparr>
      | Finished \<Rightarrow> s)"

inductive hub_step :: "'j MwEnv \<Rightarrow> 'x Env \<Rightarrow> HubRunner \<Rightarrow> 'x HubSys \<Rightarrow> 'x HubSys \<Rightarrow> bool"
  for M :: "'j MwEnv" and E :: "'x Env" and R :: HubRunner where
  send: "senders s \<Longrightarrow> try_send texts msg s = (Inr (), s') \<Longrightarrow> hub_step M E R s s'"
| close: "hub_step M E R s (s\<lparr>senders := False\<rparr>)"
| receive: "receiving s \<Longrightarrow> channel s \<noteq> [] \<Longrightarrow> hub_step M E R s (hub_receive M c s)"
| finish: "receiving s \<Longrightarrow> channel s = [] \<Longrightarrow> \<not> senders s \<Longrightarrow> hub_step M E R s (hub_finish s)"
| flush: "flusher s \<noteq> Finished \<Longrightarrow> hub_step M E R s (flush_step E (runner_emitters R) (runner_batch_size R) s)"

inductive_cases hub_stepE: "hub_step M E R s s'"

section \<open>What the hub remembers\<close>

definition delivered_to :: "nat \<Rightarrow> 'x HubSys \<Rightarrow> Event list" where
  "delivered_to i s = concat (map (\<lambda>(_, events, _). events) (filter (\<lambda>(j, _). j = i) (deliveries s)))"

text \<open>What an emitter is still going to get of the batch in hand.\<close>

definition in_hand :: "'x Env \<Rightarrow> Emitter list \<Rightarrow> nat \<Rightarrow> 'x HubSys \<Rightarrow> Event list" where
  "in_hand E ems i s =
     (case flusher s of
        Emitting events j \<Rightarrow> if j \<le> i then filter (event_routed_to (name_of E (ems ! i))) events else []
      | _ \<Rightarrow> [])"

definition buffer_inv :: "'x HubSys \<Rightarrow> bool" where
  "buffer_inv s \<longleftrightarrow> rb_wf (hub_buffer s) \<and> subseq (drained_log s @ messages (hub_buffer s)) (passed_log s) \<and>
     length (passed_log s) = length (drained_log s) + length (messages (hub_buffer s)) + overflowed s"

definition chain_inv :: "'j MwEnv \<Rightarrow> HubRunner \<Rightarrow> 'x HubSys \<Rightarrow> bool" where
  "chain_inv M R s \<longleftrightarrow> (\<exists>outs. mw_run (chain_process M) (received s) (runner_middleware R) = Inr (outs, hub_chain s) \<and>
     passed outs = passed_log s) \<and> (\<not> run_panicked s \<longrightarrow> accepted s = map snd (received s) @ channel s)"

definition delivery_inv :: "'x Env \<Rightarrow> HubRunner \<Rightarrow> 'x HubSys \<Rightarrow> bool" where
  "delivery_inv E R s \<longleftrightarrow> (\<forall>i<length (runner_emitters R). delivered_to i s @ in_hand E (runner_emitters R) i s =
     filter (event_routed_to (name_of E (runner_emitters R ! i))) (map event_from_message (drained_log s)))"

definition shutdown_inv :: "'x HubSys \<Rightarrow> bool" where
  "shutdown_inv s \<longleftrightarrow>
     (shutdown_flag s \<longrightarrow> \<not> receiving s \<and> \<not> run_panicked s \<and> channel s = [] \<and> \<not> senders s) \<and>
     (flusher s = Finished \<longrightarrow> shutdown_flag s \<and> messages (hub_buffer s) = [])"

lemma emit_one_frame [simp]:
  "channel (emit_one E i em evs s) = channel s" "senders (emit_one E i em evs s) = senders s"
  "receiving (emit_one E i em evs s) = receiving s" "run_panicked (emit_one E i em evs s) = run_panicked s"
  "shutdown_flag (emit_one E i em evs s) = shutdown_flag s" "hub_buffer (emit_one E i em evs s) = hub_buffer s"
  "hub_chain (emit_one E i em evs s) = hub_chain s" "accepted (emit_one E i em evs s) = accepted s"
  "received (emit_one E i em evs s) = received s" "passed_log (emit_one E i em evs s) = passed_log s"
  "overflowed (emit_one E i em evs s) = overflowed s" "drained_log (emit_one E i em evs s) = drained_log s"
  by (simp_all add: emit_one_def Let_def split: prod.splits sum.splits)

lemma delivered_to_emit_one:
  "delivered_to k (emit_one E i em evs s) =
     delivered_to k s @ (if k = i then filter (event_routed_to (name_of E em)) evs else [])"
  by (auto simp: emit_one_def delivered_to_def Let_def split: prod.splits sum.splits)

lemma mw_run_snoc:
  "mw_run process (ms @ [(c, m)]) s =
     (case mw_run process ms s of
        Inl p \<Rightarrow> Inl p
      | Inr (outs, s1) \<Rightarrow> (case process c m s1 of Inl p \<Rightarrow> Inl p | Inr (out, s2) \<Rightarrow> Inr (outs @ [out], s2)))"
  by (induction ms arbitrary: s) (auto split: sum.splits prod.splits)

lemma passed_snoc [simp]: "passed (outs @ [out]) = passed outs @ (case out of None \<Rightarrow> [] | Some m \<Rightarrow> [m])"
  by (simp add: passed_def)

lemma push_one_inv:
  assumes "rb_wf b" and "subseq (ds @ messages b) ps" and "length ps = length ds + length (messages b) + k"
  shows "subseq (ds @ messages (rb_put [m] b)) (ps @ [m])"
    and "Suc (length ps) = length ds + length (messages (rb_put [m] b)) + (k + fst (ring_buffer_push [m] b))"
proof -
  have "subseq (messages (rb_put [m] b)) (messages b @ [m])"
    unfolding messages_push [OF assms(1)] by (rule suffix_imp_subseq [OF suffix_drop])
  then have "subseq (ds @ messages (rb_put [m] b)) (ds @ messages b @ [m])"
    by (simp add: list_emb_append_mono)
  also have "subseq (ds @ messages b @ [m]) (ps @ [m])"
    using list_emb_append_mono [OF assms(2), of "[m]" "[m]"] by simp
  finally show "subseq (ds @ messages (rb_put [m] b)) (ps @ [m])" .
  show "Suc (length ps) = length ds + length (messages (rb_put [m] b)) + (k + fst (ring_buffer_push [m] b))"
    using push_balance [OF assms(1), of "[m]"] assms(3) by simp
qed

section \<open>The invariants hold\<close>

lemma buffer_inv_receive: "buffer_inv s \<Longrightarrow> buffer_inv (hub_receive M c s)"
  using push_one_inv [of "hub_buffer s" "drained_log s" "passed_log s" "overflowed s"]
  by (auto simp: buffer_inv_def hub_receive_def Let_def case_prod_beta split: list.splits sum.splits option.splits)

lemma buffer_inv_flush: "buffer_inv s \<Longrightarrow> buffer_inv (flush_step E ems bs s)"
  by (auto simp: buffer_inv_def flush_step_def Let_def case_prod_beta split: flush_pc.splits)

lemma chain_inv_receive: "chain_inv M R s \<Longrightarrow> \<not> run_panicked s \<Longrightarrow> chain_inv M R (hub_receive M c s)"
  by (auto simp: chain_inv_def hub_receive_def mw_run_snoc Let_def case_prod_beta
      split: list.splits sum.splits option.splits)

lemma chain_inv_flush: "chain_inv M R s \<Longrightarrow> chain_inv M R (flush_step E ems bs s)"
  by (auto simp: chain_inv_def flush_step_def Let_def case_prod_beta split: flush_pc.splits)

lemma delivered_to_receive [simp]:
  "delivered_to i (hub_receive M c s) = delivered_to i s" "in_hand E ems i (hub_receive M c s) = in_hand E ems i s"
  "drained_log (hub_receive M c s) = drained_log s" "flusher (hub_receive M c s) = flusher s"
  "shutdown_flag (hub_receive M c s) = shutdown_flag s"
  by (simp_all add: delivered_to_def in_hand_def hub_receive_def Let_def case_prod_beta
      split: list.splits sum.splits option.splits)

lemma delivery_inv_flush:
  assumes "delivery_inv E R s"
  shows "delivery_inv E R (flush_step E (runner_emitters R) bs s)"
proof (cases "flusher s")
  case (Emitting events j)
  show ?thesis
  proof (cases "j < length (runner_emitters R)")
    case True
    let ?ems = "runner_emitters R"
    have "delivered_to i (s1\<lparr>flusher := p\<rparr>) = delivered_to i s1" for i p and s1 :: "'a HubSys"
      by (simp add: delivered_to_def)
    note skip = this
    show ?thesis unfolding delivery_inv_def
    proof (intro allI impI)
      fix i assume "i < length ?ems"
      then have "delivered_to i s @ (if j \<le> i then filter (event_routed_to (name_of E (?ems ! i))) events else []) =
          filter (event_routed_to (name_of E (?ems ! i))) (map event_from_message (drained_log s))"
        using assms Emitting by (simp add: delivery_inv_def in_hand_def)
      then show "delivered_to i (flush_step E ?ems bs s) @ in_hand E ?ems i (flush_step E ?ems bs s) =
          filter (event_routed_to (name_of E (?ems ! i))) (map event_from_message (drained_log (flush_step E ?ems bs s)))"
        using Emitting True
        by (cases i j rule: linorder_cases) (simp_all add: flush_step_def in_hand_def skip delivered_to_emit_one)
    qed
  next
    case False
    with assms Emitting show ?thesis
      by (auto simp: delivery_inv_def flush_step_def in_hand_def delivered_to_def)
  qed
qed (use assms in \<open>auto simp: delivery_inv_def flush_step_def in_hand_def delivered_to_def Let_def case_prod_beta\<close>)

lemma shutdown_inv_flush: "shutdown_inv s \<Longrightarrow> shutdown_inv (flush_step E ems bs s)"
  by (auto simp: shutdown_inv_def flush_step_def ring_buffer_is_empty_def Let_def case_prod_beta
      split: flush_pc.splits)

lemma shutdown_inv_receive: "receiving s \<Longrightarrow> shutdown_inv s \<Longrightarrow> shutdown_inv (hub_receive M c s)"
  by (auto simp: shutdown_inv_def)

definition hub_inv :: "'j MwEnv \<Rightarrow> 'x Env \<Rightarrow> HubRunner \<Rightarrow> 'x HubSys \<Rightarrow> bool" where
  "hub_inv M E R s \<longleftrightarrow> buffer_inv s \<and> chain_inv M R s \<and> delivery_inv E R s \<and> shutdown_inv s \<and>
     (receiving s \<longrightarrow> \<not> run_panicked s)"

lemma hub_receive_panicked: "receiving (hub_receive M c s) \<Longrightarrow> run_panicked (hub_receive M c s) \<longleftrightarrow> run_panicked s"
  by (auto simp: hub_receive_def Let_def case_prod_beta split: list.splits sum.splits option.splits)

lemma receiving_receive: "receiving (hub_receive M c s) \<Longrightarrow> receiving s"
  by (auto simp: hub_receive_def Let_def case_prod_beta split: list.splits sum.splits option.splits)

lemma flush_frame [simp]:
  "receiving (flush_step E ems bs s) = receiving s" "run_panicked (flush_step E ems bs s) = run_panicked s"
  "shutdown_flag (flush_step E ems bs s) = shutdown_flag s"
  by (auto simp: flush_step_def Let_def case_prod_beta split: flush_pc.splits)

lemma hub_step_inv:
  assumes "hub_step M E R s t" and "hub_inv M E R s"
  shows "hub_inv M E R t"
  using assms(1)
proof cases
  case (send texts msg)
  then have "t = s\<lparr>channel := channel s @ [msg], accepted := accepted s @ [msg]\<rparr>" "\<not> run_panicked s"
    by (auto simp: try_send_def split: if_splits)
  with assms(2) send(1) show ?thesis
    by (auto simp: hub_inv_def buffer_inv_def chain_inv_def delivery_inv_def shutdown_inv_def delivered_to_def in_hand_def)
next
  case close
  with assms(2) show ?thesis
    by (auto simp: hub_inv_def buffer_inv_def chain_inv_def delivery_inv_def shutdown_inv_def delivered_to_def in_hand_def)
next
  case (receive c)
  with assms(2) show ?thesis
    by (auto simp: hub_inv_def buffer_inv_receive chain_inv_receive shutdown_inv_receive delivery_inv_def
        dest: hub_receive_panicked receiving_receive)
next
  case finish
  with assms(2) show ?thesis
    by (auto simp: hub_finish_def hub_inv_def buffer_inv_def chain_inv_def delivery_inv_def shutdown_inv_def
        delivered_to_def in_hand_def)
next
  case flush
  with assms(2) show ?thesis
    by (simp add: hub_inv_def buffer_inv_flush chain_inv_flush delivery_inv_flush shutdown_inv_flush)
qed

lemma hub_steps_inv: "(hub_step M E R)\<^sup>*\<^sup>* s t \<Longrightarrow> hub_inv M E R s \<Longrightarrow> hub_inv M E R t"
  by (induction rule: rtranclp_induct) (auto intro: hub_step_inv)

lemma hub_inv_start:
  assumes "0 < rb_capacity (runner_buffer R)" and "messages (runner_buffer R) = []"
  shows "hub_inv M E R (hub_start register R registered w)"
  using assms
  by (simp add: hub_inv_def hub_start_def buffer_inv_def chain_inv_def delivery_inv_def shutdown_inv_def
      delivered_to_def in_hand_def rb_wf_def Let_def)

text \<open>A small hub, for the examples: one emitter that always succeeds, no middleware.\<close>

definition ok_env :: "nat Env" where
  "ok_env = \<lparr>round_f64 = (\<lambda>x. x), powi_f64 = (\<lambda>x n. x),
     leaves = (\<lambda>_. \<lparr>leaf_name = ''out'', leaf_emit = (\<lambda>evs t x. (Inr (), 0, x + length evs)),
       leaf_health = (\<lambda>t x. (True, 0, x)), leaf_shutdown = (\<lambda>t x. (Inr (), 0, x))\<rparr>)\<rparr>"

definition small_hub :: Hub where
  "small_hub = emitter_arc (Leaf 0) (buffer_capacity 2 (batch_size 1 hub_new))"

definition idle_world :: "nat World" where
  "idle_world = \<lparr>time_now = 0, jitter_rng = 1, breakers = (\<lambda>_. breaker_cell_new), retries = (\<lambda>_. retry_cell_new),
     failure_buffers = (\<lambda>_. failure_buffer_new 10), backend = 0\<rparr>"

definition closed_hub :: "'j MwEnv \<Rightarrow> Message \<Rightarrow> nat HubSys" where
  "closed_hub M m = hub_finish (hub_receive M \<lparr>call_time = 0, call_wall = None, call_ulid = []\<rparr>
     ((snd (try_send ([], []) m (hub_start (\<lambda>_. None) (hub_build small_hub) None idle_world)))\<lparr>senders := False\<rparr>))"

lemmas small_hub_defs = ok_env_def small_hub_def idle_world_def hub_build_def hub_start_def hub_new_def
  emitter_arc_def buffer_capacity_def batch_size_def chain_new_def ring_buffer_new_def

lemma closed_hub_reachable:
  "(hub_step M ok_env (hub_build small_hub))\<^sup>*\<^sup>*
     (hub_start (\<lambda>_. None) (hub_build small_hub) None idle_world) (closed_hub M m)"
proof -
  let ?R = "hub_build small_hub" and ?c = "\<lparr>call_time = 0, call_wall = None, call_ulid = []\<rparr>"
  let ?start = "hub_start (\<lambda>_. None) ?R None idle_world"
  let ?sent = "snd (try_send ([], []) m ?start)"
  let ?closed = "?sent\<lparr>senders := False\<rparr>"
  have "hub_step M ok_env ?R ?start ?sent"
    by (rule hub_step.send [of _ "([], [])" m]) (simp_all add: try_send_def hub_start_def Let_def)
  moreover have "hub_step M ok_env ?R ?sent ?closed" by (rule hub_step.close)
  moreover have "hub_step M ok_env ?R ?closed (hub_receive M ?c ?closed)"
    by (rule hub_step.receive) (simp_all add: try_send_def hub_start_def Let_def)
  moreover have "hub_step M ok_env ?R (hub_receive M ?c ?closed) (closed_hub M m)"
    unfolding closed_hub_def
    by (rule hub_step.finish)
      (simp_all add: hub_receive_def try_send_def hub_start_def hub_build_def small_hub_def emitter_arc_def
        buffer_capacity_def batch_size_def hub_new_def chain_new_def Let_def case_prod_beta)
  ultimately show ?thesis by (meson rtranclp.rtrancl_into_rtrancl rtranclp.rtrancl_refl)
qed

lemma flush_steps:
  "(\<And>k. k < n \<Longrightarrow> flusher ((flush_step E (runner_emitters R) (runner_batch_size R) ^^ k) s) \<noteq> Finished) \<Longrightarrow>
   (hub_step M E R)\<^sup>*\<^sup>* s ((flush_step E (runner_emitters R) (runner_batch_size R) ^^ n) s)"
  by (induction n) (auto intro: rtranclp.rtrancl_into_rtrancl hub_step.flush)

lemma closed_hub_fields:
  "flusher (closed_hub M m) = Checking" "shutdown_flag (closed_hub M m)" "messages (hub_buffer (closed_hub M m)) = [m]"
  "overflowed (closed_hub M m) = 0" "passed_log (closed_hub M m) = [m]"
  by (simp_all add: closed_hub_def hub_finish_def hub_receive_def try_send_def small_hub_defs
      ring_buffer_push_def Let_def case_prod_beta)

text \<open>C1. The pipeline, end to end. In every state a hub can reach, under any interleaving of senders, receive
  loop and flush loop: the messages that came through the middleware chain are what the chain gives for the messages
  received so far; those drained, followed by those buffered, are a subsequence of them, missing exactly as many as
  overflow dropped; and each emitter has been handed, in order, the drained messages routed to it, except those of the batch in hand. When the flush
  loop has finished, nothing is left in the channel or the buffer, so without overflow
  every emitter was handed every message that was accepted, came through the chain and is routed to it.\<close>

theorem hub_end_to_end:
  assumes "0 < hub_buffer_capacity hub"
    and "(hub_step M E (hub_build hub))\<^sup>*\<^sup>* (hub_start register (hub_build hub) registered w) s"
  shows "(\<exists>outs. mw_run (chain_process M) (received s) (hub_middleware hub) = Inr (outs, hub_chain s) \<and>
      passed outs = passed_log s) \<and>
    subseq (drained_log s @ messages (hub_buffer s)) (passed_log s) \<and>
    length (passed_log s) = length (drained_log s) + length (messages (hub_buffer s)) + overflowed s \<and>
    (\<forall>i<length (hub_emitters hub). delivered_to i s @ in_hand E (hub_emitters hub) i s =
       filter (event_routed_to (name_of E (hub_emitters hub ! i))) (map event_from_message (drained_log s))) \<and>
    (flusher s = Finished \<longrightarrow> map snd (received s) = accepted s \<and> messages (hub_buffer s) = [] \<and>
       (overflowed s = 0 \<longrightarrow> (\<forall>i<length (hub_emitters hub). delivered_to i s =
          filter (event_routed_to (name_of E (hub_emitters hub ! i))) (map event_from_message (passed_log s)))))"
proof -
  let ?R = "hub_build hub"
  have R: "runner_emitters ?R = hub_emitters hub" "runner_middleware ?R = hub_middleware hub"
    "0 < rb_capacity (runner_buffer ?R)" "messages (runner_buffer ?R) = []"
    using assms(1) by (simp_all add: hub_build_def ring_buffer_new_def)
  have inv: "hub_inv M E ?R s"
    using hub_steps_inv [OF assms(2) hub_inv_start [OF R(3,4)]] .
  then have chain: "\<exists>outs. mw_run (chain_process M) (received s) (hub_middleware hub) = Inr (outs, hub_chain s) \<and>
      passed outs = passed_log s"
    and buf: "subseq (drained_log s @ messages (hub_buffer s)) (passed_log s)"
      "length (passed_log s) = length (drained_log s) + length (messages (hub_buffer s)) + overflowed s"
    and del: "\<forall>i<length (hub_emitters hub). delivered_to i s @ in_hand E (hub_emitters hub) i s =
       filter (event_routed_to (name_of E (hub_emitters hub ! i))) (map event_from_message (drained_log s))"
    by (simp_all add: hub_inv_def chain_inv_def buffer_inv_def delivery_inv_def R)
  have fin: "map snd (received s) = accepted s" "messages (hub_buffer s) = []" "in_hand E (hub_emitters hub) i s = []"
    if "flusher s = Finished" for i
    using inv that by (auto simp: hub_inv_def shutdown_inv_def chain_inv_def in_hand_def)
  moreover have "drained_log s = passed_log s" if "flusher s = Finished" "overflowed s = 0"
    using buf fin(2) [OF that(1)] that(2) by (simp add: subseq_same_length)
  ultimately show ?thesis using chain buf del by auto
qed

theorem hub_end_to_end_witness:
  "\<exists>s. (hub_step sample_mw_env ok_env (hub_build small_hub))\<^sup>*\<^sup>*
      (hub_start (\<lambda>_. None) (hub_build small_hub) None idle_world) s \<and>
    flusher s = Finished \<and> delivered_to 0 s = [event_from_message (sample_message ''m'')]"
proof -
  let ?M = "sample_mw_env" and ?R = "hub_build small_hub" and ?m = "sample_message ''m''"
  let ?f = "flush_step ok_env (runner_emitters ?R) (runner_batch_size ?R)" and ?c = "closed_hub ?M ?m"
  have R: "runner_emitters ?R = [Leaf 0]" "runner_batch_size ?R = 1" "hub_emitters small_hub = [Leaf 0]"
    by (simp_all add: small_hub_defs)
  have msg: "event_routed_to ''out'' (event_from_message ?m)"
    by (simp add: should_route_to_def message_with_id_def)
  have run: "flusher ((?f ^^ 0) ?c) = Checking" "flusher ((?f ^^ 1) ?c) = Waiting"
    "flusher ((?f ^^ 2) ?c) = Emitting [event_from_message ?m] 0"
    "flusher ((?f ^^ 3) ?c) = Emitting [event_from_message ?m] 1"
    "flusher ((?f ^^ 4) ?c) = Checking" "flusher ((?f ^^ 5) ?c) = Finished"
    "overflowed ((?f ^^ 5) ?c) = 0" "passed_log ((?f ^^ 5) ?c) = [?m]"
    by (simp_all add: eval_nat_numeral flush_step_def emit_one_def closed_hub_fields R ok_env_def msg
        ring_buffer_drain_def ring_buffer_is_empty_def Let_def del: event_routed_to_from_message)
  have "flusher ((?f ^^ k) ?c) \<noteq> Finished" if "k < 5" for k
  proof -
    from that have "k = 0 \<or> k = 1 \<or> k = 2 \<or> k = 3 \<or> k = 4" by linarith
    then show ?thesis using run by (elim disjE) simp_all
  qed
  then have reach: "(hub_step ?M ok_env ?R)\<^sup>*\<^sup>* (hub_start (\<lambda>_. None) ?R None idle_world) ((?f ^^ 5) ?c)"
    using closed_hub_reachable [of ?M ?m] flush_steps [of 5 ok_env ?R ?c ?M] by (meson rtranclp_trans)
  moreover have "delivered_to 0 ((?f ^^ 5) ?c) = [event_from_message ?m]"
    using hub_end_to_end [OF _ reach] run(6-8) msg R(3)
    by (simp add: small_hub_defs del: event_routed_to_from_message)
  ultimately show ?thesis using run(6) by blast
qed

section \<open>Shutdown terminates\<close>

text \<open>How many steps the flush loop still needs, at most, once the shutdown is signalled.\<close>

definition flush_measure :: "Emitter list \<Rightarrow> 'x HubSys \<Rightarrow> nat" where
  "flush_measure ems s =
     (let n = length (messages (hub_buffer s)); L = length ems + 4 in
      case flusher s of
        Finished \<Rightarrow> 0
      | Checking \<Rightarrow> if n = 0 then 1 else n * L + 2
      | Waiting \<Rightarrow> if n = 0 then 2 else n * L + 1
      | Emitting _ i \<Rightarrow> n * L + (length ems - i) + 3)"

lemma flush_measure_decreases:
  assumes "shutdown_flag s" and "0 < bs" and "flusher s \<noteq> Finished"
  shows "flush_measure ems (flush_step E ems bs s) < flush_measure ems s"
proof (cases "flusher s")
  case Waiting
  have "(Suc k - bs) * (length ems + 4) \<le> k * (length ems + 4)" for k
    using assms(2) by (intro mult_le_mono1) linarith
  with Waiting assms(2) show ?thesis
    by (cases "messages (hub_buffer s)")
      (auto simp: flush_measure_def flush_step_def Let_def case_prod_beta less_Suc_eq_le intro: le_SucI)
qed (use assms in \<open>auto simp: flush_measure_def flush_step_def ring_buffer_is_empty_def Let_def\<close>)

lemma zero_batch_step:
  assumes "hub_step M E R s t" and "runner_batch_size R = 0"
    and "rb_wf (hub_buffer s)" and "messages (hub_buffer s) \<noteq> []" and "flusher s \<noteq> Finished"
  shows "rb_wf (hub_buffer t) \<and> messages (hub_buffer t) \<noteq> [] \<and> flusher t \<noteq> Finished"
  using assms(1)
proof cases
  case (send texts msg)
  with assms show ?thesis by (auto simp: try_send_def split: if_splits)
next
  case (receive c)
  have "messages (rb_put [m] (hub_buffer s)) \<noteq> []" for m
    using messages_push [OF assms(3), of "[m]"] assms(3) by (simp add: rb_wf_def)
  with receive assms(3-) show ?thesis
    by (auto simp: hub_receive_def Let_def case_prod_beta split: list.splits sum.splits option.splits)
qed (use assms in \<open>auto simp: hub_finish_def flush_step_def ring_buffer_is_empty_def Let_def case_prod_beta
  split: flush_pc.splits\<close>)

text \<open>C2. Graceful shutdown terminates: once the shutdown is signalled, a hub with a positive batch size needs at most
  \<open>flush_measure\<close> further steps of the flush loop to hand out what is buffered and finish, however
  many emissions fail. With a batch size of zero a flush loop that finds the
  buffer non-empty never finishes, whatever the rest of the hub does.\<close>

theorem hub_shutdown_terminates:
  "(shutdown_flag s \<and> 0 < bs \<longrightarrow>
      (\<exists>n\<le>flush_measure ems s. flusher ((flush_step E ems bs ^^ n) s) = Finished)) \<and>
   (runner_batch_size R = 0 \<and> rb_wf (hub_buffer s) \<and> messages (hub_buffer s) \<noteq> [] \<and> flusher s \<noteq> Finished \<and>
      (hub_step M E R)\<^sup>*\<^sup>* s t \<longrightarrow> flusher t \<noteq> Finished)"
proof (intro conjI impI)
  assume "shutdown_flag s \<and> 0 < bs"
  then show "\<exists>n\<le>flush_measure ems s. flusher ((flush_step E ems bs ^^ n) s) = Finished"
  proof (induction "flush_measure ems s" arbitrary: s rule: less_induct)
    case less
    show ?case
    proof (cases "flusher s = Finished")
      case True
      then show ?thesis by (intro exI [of _ 0]) simp
    next
      case False
      then have dec: "flush_measure ems (flush_step E ems bs s) < flush_measure ems s"
        using flush_measure_decreases less.prems by blast
      then obtain n where "n \<le> flush_measure ems (flush_step E ems bs s)"
        "flusher ((flush_step E ems bs ^^ n) (flush_step E ems bs s)) = Finished"
        using less.hyps less.prems by (metis flush_frame(3))
      with dec show ?thesis by (intro exI [of _ "Suc n"]) (simp add: funpow_swap1)
    qed
  qed
next
  assume stuck: "runner_batch_size R = 0 \<and> rb_wf (hub_buffer s) \<and> messages (hub_buffer s) \<noteq> [] \<and>
      flusher s \<noteq> Finished \<and> (hub_step M E R)\<^sup>*\<^sup>* s t"
  then have "(hub_step M E R)\<^sup>*\<^sup>* s t" by blast
  then have "rb_wf (hub_buffer t) \<and> messages (hub_buffer t) \<noteq> [] \<and> flusher t \<noteq> Finished"
  proof induction
    case base
    with stuck show ?case by blast
  next
    case (step t u)
    with stuck show ?case using zero_batch_step by blast
  qed
  then show "flusher t \<noteq> Finished" by blast
qed

theorem hub_shutdown_terminates_witness:
  "\<exists>n\<le>flush_measure [Leaf 0] (closed_hub sample_mw_env (sample_message ''m'')).
     flusher ((flush_step ok_env [Leaf 0] 1 ^^ n) (closed_hub sample_mw_env (sample_message ''m''))) = Finished"
  using hub_shutdown_terminates [of "closed_hub sample_mw_env (sample_message ''m'')" 1 "[Leaf 0]" ok_env
      "hub_build small_hub" sample_mw_env] closed_hub_fields(2)
  by blast

end
