(* ===== verification/Hub_Metrics.thy ===== *)
theory Hub_Metrics
  imports Hub
begin

text \<open>
  What the metrics of a running hub say: the counters that \<open>HubRunner::run\<close> and \<open>flush_loop\<close> (\<open>gateway/src/hub.rs\<close>) update
  through \<open>gateway/src/metrics.rs\<close>, compared with what the hub did. The process may have other users of
  the same metrics before the hub starts: the counts are relative to the metrics \<open>m0\<close> at the start.
\<close>

definition received_count :: "string \<times> string \<Rightarrow> 'x HubSys \<Rightarrow> nat" where
  "received_count k s = length (filter (\<lambda>(c, msg). (source msg, message_type msg) = k) (received s))"

definition failed_count :: "'x Env \<Rightarrow> Emitter list \<Rightarrow> string \<Rightarrow> 'x HubSys \<Rightarrow> nat" where
  "failed_count E ems name s =
     sum_list (map (\<lambda>(j, events, r). length events)
       (filter (\<lambda>(j, events, r). \<not> is_ok r \<and> name_of E (ems ! j) = name) (deliveries s)))"

definition forwarded_count :: "'x Env \<Rightarrow> Emitter list \<Rightarrow> string \<times> string \<Rightarrow> 'x HubSys \<Rightarrow> nat" where
  "forwarded_count E ems k s =
     sum_list (map (\<lambda>(j, events, r). length (filter (\<lambda>event. event_type event = snd k) events))
       (filter (\<lambda>(j, events, r). is_ok r \<and> name_of E (ems ! j) = fst k) (deliveries s)))"

definition dropped_count :: "'x Env \<Rightarrow> Emitter list \<Rightarrow> string \<Rightarrow> 'x HubSys \<Rightarrow> nat" where
  "dropped_count E ems reason s =
     (if reason = ''buffer_overflow'' then overflowed s else 0) +
     (if reason = ''middleware_filtered'' then length (received s) - length (passed_log s) else 0) +
     failed_count E ems reason s"

definition metrics_inv :: "'x Env \<Rightarrow> Emitter list \<Rightarrow> Metrics \<Rightarrow> 'x HubSys \<Rightarrow> bool" where
  "metrics_inv E ems m0 s \<longleftrightarrow> length (passed_log s) \<le> length (received s) \<and> (receiving s \<longrightarrow> \<not> run_panicked s) \<and>
     (\<exists>m. hub_metrics s = Some m \<and>
        (\<not> run_panicked s \<longrightarrow> (\<forall>k. events_received m k = events_received m0 k + received_count k s)) \<and>
        (\<forall>reason. events_dropped m reason = events_dropped m0 reason + dropped_count E ems reason s) \<and>
        (\<forall>k. events_forwarded m k = events_forwarded m0 k + forwarded_count E ems k s))"

lemmas count_defs = received_count_def failed_count_def forwarded_count_def dropped_count_def

lemma record_simps [simp]:
  "events_received (record_received a b n m) k = events_received m k + (if k = (a, b) then n else 0)"
  "events_dropped (record_received a b n m) = events_dropped m"
  "events_forwarded (record_received a b n m) = events_forwarded m"
  "events_received (record_dropped r n m) = events_received m"
  "events_dropped (record_dropped r n m) r' = events_dropped m r' + (if r' = r then n else 0)"
  "events_forwarded (record_dropped r n m) = events_forwarded m"
  "events_received (set_buffer_size n m) = events_received m"
  "events_dropped (set_buffer_size n m) = events_dropped m"
  "events_forwarded (set_buffer_size n m) = events_forwarded m"
  by (auto simp: record_received_def record_dropped_def set_buffer_size_def)

lemma fold_record_forwarded:
  fixes m :: Metrics and name :: string and events :: "Event list"
  defines "m' \<equiv> fold (\<lambda>event. record_forwarded name (event_type event) 1) events m"
  shows "events_received m' = events_received m" and "events_dropped m' = events_dropped m"
    and "events_forwarded m' k = events_forwarded m k +
      (if fst k = name then length (filter (\<lambda>event. event_type event = snd k) events) else 0)"
  unfolding m'_def by (induction events arbitrary: m) (auto simp: record_forwarded_def)

lemma metrics_inv_receive:
  assumes "metrics_inv E ems m0 s" and "receiving s"
  shows "metrics_inv E ems m0 (hub_receive M c s)"
proof (cases "channel s")
  case Nil
  with assms show ?thesis by (simp add: hub_receive_def)
next
  case (Cons msg rest)
  obtain m where m: "hub_metrics s = Some m" "\<not> run_panicked s"
    using assms by (auto simp: metrics_inv_def)
  show ?thesis
  proof (cases "chain_process M c msg (hub_chain s)")
    case (Inl p)
    with Cons m assms(1) show ?thesis
      by (auto simp: hub_receive_def metrics_inv_def count_defs)
  next
    case (Inr r)
    then show ?thesis
      using Cons m assms(1)
      by (cases "fst r") (auto simp: hub_receive_def metrics_inv_def count_defs Let_def case_prod_beta Suc_diff_le split: prod.splits)
  qed
qed

lemma delivery_counts:
  "failed_count E ems name (s\<lparr>hub_world := w, deliveries := deliveries s @ [(i, events, r)], hub_metrics := mm\<rparr>) =
     failed_count E ems name s + (if \<not> is_ok r \<and> name_of E (ems ! i) = name then length events else 0)"
  "forwarded_count E ems k (s\<lparr>hub_world := w, deliveries := deliveries s @ [(i, events, r)], hub_metrics := mm\<rparr>) =
     forwarded_count E ems k s +
       (if is_ok r \<and> name_of E (ems ! i) = fst k then length (filter (\<lambda>event. event_type event = snd k) events) else 0)"
  by (simp_all add: failed_count_def forwarded_count_def)

lemma metrics_inv_emit_one:
  assumes inv: "metrics_inv E ems m0 s" and "i < length ems"
  shows "metrics_inv E ems m0 (emit_one E i (ems ! i) events s)"
proof -
  let ?evs = "filter (event_routed_to (name_of E (ems ! i))) events"
  obtain m where m: "hub_metrics s = Some m" using inv by (auto simp: metrics_inv_def)
  obtain r w where step: "emit E (ems ! i) ?evs (hub_world s) = (r, w)" by fastforce
  show ?thesis
  proof (cases "?evs = []")
    case True
    with inv show ?thesis by (simp add: emit_one_def)
  next
    case False
    let ?m = "if is_ok r then fold (\<lambda>event. record_forwarded (name_of E (ems ! i)) (event_type event) 1) ?evs m
      else record_dropped (name_of E (ems ! i)) (length ?evs) m"
    let ?t = "s\<lparr>hub_world := w, deliveries := deliveries s @ [(i, ?evs, r)], hub_metrics := Some ?m\<rparr>"
    have t: "emit_one E i (ems ! i) events s = ?t"
      using False step m by (cases r) (simp_all add: emit_one_def Let_def)
    have "events_received ?m = events_received m"
      "events_dropped ?m reason = events_dropped m reason +
        (if \<not> is_ok r \<and> name_of E (ems ! i) = reason then length ?evs else 0)"
      "events_forwarded ?m k = events_forwarded m k +
        (if is_ok r \<and> name_of E (ems ! i) = fst k then length (filter (\<lambda>event. event_type event = snd k) ?evs) else 0)"
      for reason k
      by (auto simp: fold_record_forwarded [unfolded One_nat_def])
    moreover have "received_count k ?t = received_count k s" for k by (simp add: received_count_def)
    ultimately show ?thesis
      using inv m unfolding t metrics_inv_def dropped_count_def delivery_counts by simp
  qed
qed

lemma metrics_inv_frame:
  assumes "metrics_inv E ems m0 s" and "received t = received s" and "passed_log t = passed_log s"
    and "overflowed t = overflowed s" and "deliveries t = deliveries s" and "run_panicked t = run_panicked s"
    and "receiving t \<longrightarrow> receiving s" and "hub_metrics t = hub_metrics s"
  shows "metrics_inv E ems m0 t"
proof -
  have counts: "received_count k t = received_count k s" "dropped_count E ems reason t = dropped_count E ems reason s"
    "forwarded_count E ems k t = forwarded_count E ems k s" for k reason
    by (simp_all add: count_defs assms(2-5))
  show ?thesis using assms(1,7) unfolding metrics_inv_def counts assms(2,3,6,8) by blast
qed

lemma metrics_inv_flush:
  assumes inv: "metrics_inv E ems m0 s"
  shows "metrics_inv E ems m0 (flush_step E ems bs s)"
proof (cases "flusher s")
  case Waiting
  obtain m where "hub_metrics s = Some m" using inv by (auto simp: metrics_inv_def)
  with inv Waiting show ?thesis
    by (simp add: flush_step_def metrics_inv_def count_defs Let_def case_prod_beta)
next
  case (Emitting events i)
  show ?thesis
  proof (cases "i < length ems")
    case True
    with Emitting show ?thesis
      using metrics_inv_frame [OF metrics_inv_emit_one [OF inv True, of events]] by (simp add: flush_step_def)
  qed (use Emitting inv in \<open>auto simp: flush_step_def intro: metrics_inv_frame\<close>)
qed (use inv in \<open>auto simp: flush_step_def intro: metrics_inv_frame\<close>)

lemma hub_step_metrics_inv:
  assumes "hub_step M E R s t" and inv: "metrics_inv E (runner_emitters R) m0 s"
  shows "metrics_inv E (runner_emitters R) m0 t"
  using assms(1)
proof cases
  case (send texts msg)
  with inv show ?thesis by (auto simp: try_send_def intro: metrics_inv_frame split: if_splits)
next
  case (receive c)
  with inv show ?thesis by (simp add: metrics_inv_receive)
next
  case flush
  with inv show ?thesis by (simp add: metrics_inv_flush)
qed (use inv in \<open>auto simp: hub_finish_def intro: metrics_inv_frame\<close>)

text \<open>C14. The metrics tell the truth. In every state of a hub whose metrics could be initialised, the counters have grown by exactly what happened: the receive
  counter of each source and type by the messages received; the drop counter of each reason by the messages lost to
  overflow, by those that the middleware held back, and by the events of the batches that emitters of that name failed to deliver; and the forward
  counter of each emitter name and event type by the events that emitters of that name delivered. The counters are
  those of \<open>Metrics\<close>, which the \<open>f64\<close> of the library shows exactly up to \<open>2 ^ 53\<close>.\<close>

theorem hub_metrics_exact:
  assumes "(hub_step M E R)\<^sup>*\<^sup>* (hub_start register R registered w) s"
    and "hub_metrics (hub_start register R registered w) = Some m0"
  shows "\<exists>m. hub_metrics s = Some m \<and>
    (\<not> run_panicked s \<longrightarrow> (\<forall>k. events_received m k = events_received m0 k + received_count k s)) \<and>
    (\<forall>reason. events_dropped m reason = events_dropped m0 reason + dropped_count E (runner_emitters R) reason s) \<and>
    (\<forall>k. events_forwarded m k = events_forwarded m0 k + forwarded_count E (runner_emitters R) k s)"
proof -
  have start: "metrics_inv E (runner_emitters R) m0 (hub_start register R registered w)"
    using assms(2) unfolding metrics_inv_def
    by (intro conjI exI [of _ m0]) (simp_all add: hub_start_def count_defs Let_def)
  have "metrics_inv E (runner_emitters R) m0 s"
    using assms(1) by (induction rule: rtranclp_induct) (auto intro: start hub_step_metrics_inv)
  then show ?thesis unfolding metrics_inv_def by blast
qed

text \<open>A closed instance: a hub that has received one message.\<close>

theorem hub_metrics_exact_witness:
  "\<exists>m. hub_metrics (closed_hub sample_mw_env (sample_message ''m'')) = Some m \<and>
     events_received m (''svc'', ''evt'') = 1 \<and> events_dropped m ''buffer_overflow'' = 0"
proof -
  let ?s = "closed_hub sample_mw_env (sample_message ''m'')"
  have start: "hub_metrics (hub_start (\<lambda>_. None) (hub_build small_hub) None idle_world) =
      Some (set_buffer_capacity 2 metrics_zero)"
    by (simp add: hub_start_def metrics_init_def registrations_def small_hub_defs)
  have "received_count (''svc'', ''evt'') ?s = 1" "\<not> run_panicked ?s"
    "dropped_count ok_env (runner_emitters (hub_build small_hub)) ''buffer_overflow'' ?s = 0"
    by (simp_all add: closed_hub_def hub_finish_def hub_receive_def try_send_def small_hub_defs ring_buffer_push_def
        message_with_id_def count_defs Let_def case_prod_beta)
  then show ?thesis
    using hub_metrics_exact [OF closed_hub_reachable start, of sample_mw_env "sample_message ''m''"]
    by (auto simp: set_buffer_capacity_def metrics_zero_def)
qed

end
