(* ===== verification/Hub_Panics.thy ===== *)
theory Hub_Panics
  imports Hub
begin

text \<open>
  The hub of \<open>gateway/src/hub.rs\<close> with emitters that may panic. The flush loop is a spawned task: a panic of an
  emitter's \<open>emit\<close> unwinds that task only. \<open>HubRunner::run\<close> awaits the task after its receive loop; it logs the error of a
  task that panicked and returns \<open>Ok(())\<close> all the same. The record \<open>hub_run\<close> adds to the state of the hub whether the flush task has
  panicked and what \<open>run\<close> has returned. Steps that are not the flush loop's are those of \<open>hub_step\<close>: they leave \<open>flusher\<close> alone.
\<close>

record 'x hub_run =
  hub :: "'x HubSys"
  flush_panicked :: bool
  run_returned :: "plugin_result option"

definition hp_start :: "'x HubSys \<Rightarrow> 'x hub_run" where
  "hp_start h = \<lparr>hub = h, flush_panicked = False, run_returned = None\<rparr>"

text \<open>What awaiting the handle of the flush task gives, once the task is over.\<close>

definition await_flusher :: "'x hub_run \<Rightarrow> (unit + unit) option" where
  "await_flusher s =
     (if flush_panicked s then Some (Inl ())
      else if flusher (hub s) = Finished then Some (Inr ()) else None)"

text \<open>The end of \<open>run\<close>: an error of the task is logged.\<close>

definition finish_run :: "'x hub_run \<Rightarrow> 'x hub_run" where
  "finish_run s =
     (case await_flusher s of
        None \<Rightarrow> s
      | Some (Inl e) \<Rightarrow> s\<lparr>run_returned := Some (Inr ())\<rparr>
      | Some (Inr u) \<Rightarrow> s\<lparr>run_returned := Some (Inr ())\<rparr>)"

text \<open>The emitter whose turn it is; it is called when some event of the batch is routed to it.\<close>

definition calling :: "'x Env \<Rightarrow> Emitter list \<Rightarrow> 'x HubSys \<Rightarrow> bool" where
  "calling E ems h \<longleftrightarrow>
     (case flusher h of
        Emitting events i \<Rightarrow> i < length ems \<and> filter (event_routed_to (name_of E (ems ! i))) events \<noteq> []
      | _ \<Rightarrow> False)"

inductive hp_step :: "'j MwEnv \<Rightarrow> 'x Env \<Rightarrow> HubRunner \<Rightarrow> 'x hub_run \<Rightarrow> 'x hub_run \<Rightarrow> bool"
  for M :: "'j MwEnv" and E :: "'x Env" and R :: HubRunner where
  other: "hub_step M E R (hub s) h \<Longrightarrow> flusher h = flusher (hub s) \<Longrightarrow> hp_step M E R s (s\<lparr>hub := h\<rparr>)"
| flush: "\<not> flush_panicked s \<Longrightarrow> flusher (hub s) \<noteq> Finished \<Longrightarrow>
    hp_step M E R s (s\<lparr>hub := flush_step E (runner_emitters R) (runner_batch_size R) (hub s)\<rparr>)"
| panic: "\<not> flush_panicked s \<Longrightarrow> calling E (runner_emitters R) (hub s) \<Longrightarrow>
    hp_step M E R s (s\<lparr>hub := (hub s)\<lparr>hub_world := w\<rparr>, flush_panicked := True\<rparr>)"
| return: "shutdown_flag (hub s) \<Longrightarrow> run_returned s = None \<Longrightarrow> await_flusher s \<noteq> None \<Longrightarrow>
    hp_step M E R s (finish_run s)"

inductive_cases hp_stepE: "hp_step M E R s t"

lemma flush_step_moves: "flusher h \<noteq> Finished \<Longrightarrow> flusher (flush_step E ems bs h) \<noteq> flusher h"
  by (auto simp: flush_step_def Let_def case_prod_beta split: flush_pc.splits)

text \<open>A step that leaves the flusher alone is one of a sender or of the receive loop.\<close>

lemma other_step_cases:
  assumes "hub_step M E R h h'" and "flusher h' = flusher h"
  obtains (send) texts msg where "senders h" "try_send texts msg h = (Inr (), h')"
  | (close) "h' = h\<lparr>senders := False\<rparr>"
  | (receive) c where "receiving h" "channel h \<noteq> []" "h' = hub_receive M c h"
  | (finish) "receiving h" "channel h = []" "\<not> senders h" "h' = hub_finish h"
  using assms(1)
proof cases
  case flush
  with assms(2) flush_step_moves [of h] show ?thesis by simp
qed (use that in auto)

text \<open>Without a panic the runs are those of the hub.\<close>

lemma hp_step_hub:
  assumes "hp_step M E R s t" and "\<not> flush_panicked t"
  shows "\<not> flush_panicked s \<and> (hub_step M E R)\<^sup>*\<^sup>* (hub s) (hub t)"
  using assms(1)
proof cases
  case (other h)
  with assms(2) show ?thesis by auto
next
  case flush
  with hub_step.flush [of "hub s" M E R] show ?thesis by auto
next
  case (panic w)
  with assms(2) show ?thesis by simp
next
  case return
  with assms(2) show ?thesis by (auto simp: finish_run_def split: option.splits sum.splits)
qed

lemma hp_steps_hub:
  assumes "(hp_step M E R)\<^sup>*\<^sup>* (hp_start h0) s" and "\<not> flush_panicked s"
  shows "(hub_step M E R)\<^sup>*\<^sup>* h0 (hub s)"
  using assms
proof (induction rule: rtranclp_induct)
  case base
  then show ?case by (simp add: hp_start_def)
next
  case (step s t)
  from hp_step_hub [OF step.hyps(2) step.prems] step.IH show ?case by auto
qed

section \<open>After a panic\<close>

text \<open>What stays as it was: the deliveries, the drained messages and the place of the flush loop. The buffer only gains messages.\<close>

definition after_panic :: "'x hub_run \<Rightarrow> 'x hub_run \<Rightarrow> bool" where
  "after_panic s t \<longleftrightarrow> flush_panicked t \<and> deliveries (hub t) = deliveries (hub s) \<and>
     drained_log (hub t) = drained_log (hub s) \<and> flusher (hub t) = flusher (hub s) \<and>
     (\<exists>ms. passed_log (hub t) = passed_log (hub s) @ ms \<and>
        messages (hub_buffer (hub t)) = messages (rb_put ms (hub_buffer (hub s)))) \<and>
     rb_wf (hub_buffer (hub t)) \<and> rb_capacity (hub_buffer (hub t)) = rb_capacity (hub_buffer (hub s)) \<and>
     (\<forall>e. run_returned t \<noteq> Some (Inl e))"

lemma after_panic_refl:
  "flush_panicked s \<Longrightarrow> rb_wf (hub_buffer (hub s)) \<Longrightarrow> run_returned s \<in> {None, Some (Inr ())} \<Longrightarrow> after_panic s s"
  by (auto simp: after_panic_def messages_push rb_wf_def intro!: exI [of _ "[]"])

text \<open>The receive loop touches the buffer by pushing at most one message.\<close>

lemma hub_receive_buffer:
  "\<exists>ms. passed_log (hub_receive M c h) = passed_log h @ ms \<and>
     hub_buffer (hub_receive M c h) = (if ms = [] then hub_buffer h else rb_put ms (hub_buffer h))"
  by (cases "channel h") (auto simp: hub_receive_def Let_def case_prod_beta split: sum.splits option.splits)

lemma hub_receive_deliveries [simp]: "deliveries (hub_receive M c h) = deliveries h"
  by (simp add: hub_receive_def Let_def case_prod_beta split: list.splits sum.splits option.splits)

lemma after_panic_hub:
  assumes "after_panic s t" and "deliveries h = deliveries (hub t)" and "drained_log h = drained_log (hub t)"
    and "flusher h = flusher (hub t)" and "passed_log h = passed_log (hub t) @ ms"
    and "hub_buffer h = (if ms = [] then hub_buffer (hub t) else rb_put ms (hub_buffer (hub t)))"
    and "rb_wf (hub_buffer (hub s))"
  shows "after_panic s (t\<lparr>hub := h\<rparr>)"
proof -
  obtain ns where ns: "passed_log (hub t) = passed_log (hub s) @ ns" "messages (hub_buffer (hub t)) = messages (rb_put ns (hub_buffer (hub s)))"
    using assms(1) by (auto simp: after_panic_def)
  have wf: "rb_wf (hub_buffer (hub t))" "rb_capacity (hub_buffer (hub t)) = rb_capacity (hub_buffer (hub s))"
    using assms(1) by (auto simp: after_panic_def)
  have "messages (hub_buffer h) = messages (rb_put (ns @ ms) (hub_buffer (hub s)))"
  proof (cases "ms = []")
    case True
    with assms(6) ns show ?thesis by simp
  next
    case False
    then have "messages (hub_buffer h) = messages (rb_put ms (rb_put ns (hub_buffer (hub s))))"
      using assms(6) messages_push [OF wf(1), of ms] messages_push [OF rb_wf_push [OF assms(7)], of ms ns] wf(2) ns(2)
      by simp
    then show ?thesis by (simp add: messages_push_push [OF assms(7)])
  qed
  moreover have "rb_wf (hub_buffer h)" "rb_capacity (hub_buffer h) = rb_capacity (hub_buffer (hub s))"
    using wf assms(6) by auto
  ultimately show ?thesis
    using assms(1-5) ns(1) by (auto simp: after_panic_def intro!: exI [of _ "ns @ ms"])
qed

lemma after_panic_step:
  assumes "after_panic s t" and "hp_step M E R t u" and "rb_wf (hub_buffer (hub s))"
  shows "after_panic s u"
  using assms(2)
proof cases
  case (other h)
  have "\<exists>ms. deliveries h = deliveries (hub t) \<and> drained_log h = drained_log (hub t) \<and>
      passed_log h = passed_log (hub t) @ ms \<and>
      hub_buffer h = (if ms = [] then hub_buffer (hub t) else rb_put ms (hub_buffer (hub t)))"
    using other(2,3)
  proof (rule other_step_cases, goal_cases)
    case (1 texts msg)
    then have "h = (hub t)\<lparr>channel := channel (hub t) @ [msg], accepted := accepted (hub t) @ [msg]\<rparr>"
      by (simp add: try_send_def split: if_splits)
    then show ?case by (intro exI [of _ "[]"]) simp
  next
    case (3 c)
    with hub_receive_buffer [of M c "hub t"] show ?case by simp
  qed (auto simp: hub_finish_def)
  with other assms show ?thesis by (auto intro: after_panic_hub)
next
  case return
  with assms(1) show ?thesis
    by (auto simp: after_panic_def finish_run_def split: option.splits sum.splits)
qed (use assms(1) in \<open>auto simp: after_panic_def\<close>)

lemma after_panic_steps:
  assumes "(hp_step M E R)\<^sup>*\<^sup>* s t" and "after_panic s s"
  shows "after_panic s t"
  using assms(1)
proof (induction rule: rtranclp_induct)
  case base
  show ?case by (rule assms(2))
next
  case (step t u)
  with after_panic_step assms(2) show ?case by (metis after_panic_def)
qed


lemma hub_step_wf: "hub_step M E R h h' \<Longrightarrow> rb_wf (hub_buffer h) \<Longrightarrow> rb_wf (hub_buffer h')"
proof (erule hub_step.cases, goal_cases)
  case (3 h1 c)
  with hub_receive_buffer [of M c h1] show ?case by (auto split: if_splits)
qed (auto simp: try_send_def hub_finish_def flush_step_def Let_def case_prod_beta split: if_splits flush_pc.splits)

lemma hp_reachable:
  assumes "(hp_step M E R)\<^sup>*\<^sup>* (hp_start h0) s" and "rb_wf (hub_buffer h0)"
  shows "rb_wf (hub_buffer (hub s)) \<and> run_returned s \<in> {None, Some (Inr ())}"
  using assms(1)
proof (induction rule: rtranclp_induct)
  case base
  with assms(2) show ?case by (simp add: hp_start_def)
next
  case (step s t)
  from step.hyps(2) show ?case
  proof cases
    case flush
    with hub_step_wf [OF hub_step.flush [OF flush(3)]] step.IH show ?thesis by simp
  qed (use step.IH hub_step_wf in \<open>auto simp: finish_run_def split: option.splits sum.splits\<close>)
qed

lemma after_panic_reachable:
  assumes "(hp_step M E R)\<^sup>*\<^sup>* (hp_start h0) s" and "rb_wf (hub_buffer h0)" and "flush_panicked s"
    and "(hp_step M E R)\<^sup>*\<^sup>* s t"
  shows "after_panic s t"
  using after_panic_steps [OF assms(4)] after_panic_refl [OF assms(3)] hp_reachable [OF assms(1,2)] by blast

text \<open>C15. A panicking emitter. When the flush task of a hub has panicked, then in every later state nothing more has been drained or
  delivered, to no emitter; the messages that come through the chain only pile up in the buffer, evicting the oldest
  at its capacity; a sender still succeeds while the channel has room and \<open>run\<close> itself has not panicked; and \<open>run\<close>
  never returns an error: once the channel has closed, it returns \<open>Ok(())\<close>, whatever the buffer still holds.\<close>

theorem hub_flush_panic:
  assumes "0 < hub_buffer_capacity hub_cfg"
    and "(hp_step M E (hub_build hub_cfg))\<^sup>*\<^sup>* (hp_start (hub_start register (hub_build hub_cfg) registered w)) s"
    and "flush_panicked s" and "(hp_step M E (hub_build hub_cfg))\<^sup>*\<^sup>* s t"
  shows "deliveries (hub t) = deliveries (hub s) \<and> drained_log (hub t) = drained_log (hub s) \<and>
    (\<exists>ms. passed_log (hub t) = passed_log (hub s) @ ms \<and> messages (hub_buffer (hub t)) =
       drop (length (messages (hub_buffer (hub s))) + length ms - rb_capacity (hub_buffer (hub s)))
         (messages (hub_buffer (hub s)) @ ms)) \<and>
    (\<not> run_panicked (hub t) \<and> length (channel (hub t)) < 1024 \<longrightarrow> fst (try_send texts msg (hub t)) = Inr ()) \<and>
    (\<forall>e. run_returned t \<noteq> Some (Inl e)) \<and>
    (shutdown_flag (hub t) \<and> run_returned t = None \<longrightarrow>
       hp_step M E (hub_build hub_cfg) t (t\<lparr>run_returned := Some (Inr ())\<rparr>))"
proof -
  have wf: "rb_wf (hub_buffer (hub_start register (hub_build hub_cfg) registered w))"
    using assms(1) by (simp add: hub_start_def hub_build_def ring_buffer_new_def rb_wf_def Let_def)
  have s: "rb_wf (hub_buffer (hub s))" using hp_reachable [OF assms(2) wf] ..
  have t: "after_panic s t" by (rule after_panic_reachable [OF assms(2) wf assms(3,4)])
  then have "flush_panicked t" by (simp add: after_panic_def)
  then have "shutdown_flag (hub t) \<and> run_returned t = None \<Longrightarrow>
      hp_step M E (hub_build hub_cfg) t (t\<lparr>run_returned := Some (Inr ())\<rparr>)"
    using hp_step.return [of t M E "hub_build hub_cfg"] by (simp add: await_flusher_def finish_run_def)
  moreover have "\<not> run_panicked (hub t) \<and> length (channel (hub t)) < 1024 \<Longrightarrow> fst (try_send texts msg (hub t)) = Inr ()"
    by (simp add: try_send_def)
  ultimately show ?thesis
    using t unfolding after_panic_def messages_push [OF s] by blast
qed

text \<open>A run of the small hub: the message is drained, the emitter panics, and \<open>run\<close> returns without an error.\<close>

lemma hub_run_is_hp_run:
  assumes "hub_step M E R h h'"
  shows "hp_step M E R \<lparr>hub = h, flush_panicked = False, run_returned = r\<rparr>
    \<lparr>hub = h', flush_panicked = False, run_returned = r\<rparr>"
  using assms
proof cases
  case (send texts msg)
  then have "flusher h' = flusher h" by (auto simp: try_send_def split: if_splits)
  with hp_step.other [of M E R "\<lparr>hub = h, flush_panicked = False, run_returned = r\<rparr>" h'] assms show ?thesis by simp
next
  case flush
  then show ?thesis
    using hp_step.flush [of "\<lparr>hub = h, flush_panicked = False, run_returned = r\<rparr>" M E R] by simp
qed (use hp_step.other [of M E R "\<lparr>hub = h, flush_panicked = False, run_returned = r\<rparr>" h'] assms
  in \<open>simp_all add: hub_finish_def\<close>)

lemma hub_runs_are_hp_runs:
  "(hub_step M E R)\<^sup>*\<^sup>* h h' \<Longrightarrow> (hp_step M E R)\<^sup>*\<^sup>* \<lparr>hub = h, flush_panicked = False, run_returned = r\<rparr>
    \<lparr>hub = h', flush_panicked = False, run_returned = r\<rparr>"
  by (induction rule: rtranclp_induct) (auto intro: rtranclp.rtrancl_into_rtrancl hub_run_is_hp_run)

lemma closed_hub_deliveries: "deliveries (closed_hub M m) = []"
  by (simp add: closed_hub_def hub_finish_def try_send_def small_hub_defs Let_def)

theorem hub_flush_panic_witness:
  "\<exists>t. (hp_step sample_mw_env ok_env (hub_build small_hub))\<^sup>*\<^sup>*
      (hp_start (hub_start (\<lambda>_. None) (hub_build small_hub) None idle_world)) t \<and>
    run_returned t = Some (Inr ()) \<and> passed_log (hub t) = [sample_message ''m''] \<and> deliveries (hub t) = []"
proof -
  let ?M = "sample_mw_env" and ?R = "hub_build small_hub" and ?m = "sample_message ''m''"
  let ?f = "flush_step ok_env (runner_emitters ?R) (runner_batch_size ?R)" and ?c = "closed_hub ?M ?m"
  let ?h = "(?f ^^ 2) ?c"
  let ?a = "\<lparr>hub = ?h, flush_panicked = False, run_returned = None\<rparr>"
  let ?s = "?a\<lparr>hub := ?h\<lparr>hub_world := idle_world\<rparr>, flush_panicked := True\<rparr>"
  let ?start = "hp_start (hub_start (\<lambda>_. None) ?R None idle_world)"
  have R: "runner_emitters ?R = [Leaf 0]" "runner_batch_size ?R = 1" "0 < hub_buffer_capacity small_hub"
    by (simp_all add: small_hub_defs)
  have msg: "event_routed_to ''out'' (event_from_message ?m)"
    by (simp add: should_route_to_def message_with_id_def)
  have run: "flusher ((?f ^^ 0) ?c) \<noteq> Finished" "flusher ((?f ^^ 1) ?c) \<noteq> Finished"
    "flusher ?h = Emitting [event_from_message ?m] 0" "passed_log ?h = [?m]" "deliveries ?h = []" "shutdown_flag ?h"
    by (simp_all add: eval_nat_numeral flush_step_def closed_hub_fields closed_hub_deliveries R
        ring_buffer_drain_def ring_buffer_is_empty_def Let_def del: event_routed_to_from_message)
  have "flusher ((?f ^^ k) ?c) \<noteq> Finished" if "k < 2" for k
    using that run(1,2) by (auto simp: less_2_cases_iff)
  then have "(hub_step ?M ok_env ?R)\<^sup>*\<^sup>* (hub_start (\<lambda>_. None) ?R None idle_world) ?h"
    using closed_hub_reachable [of ?M ?m] flush_steps [of 2 ok_env ?R ?c ?M] by (meson rtranclp_trans)
  then have "(hp_step ?M ok_env ?R)\<^sup>*\<^sup>* ?start ?a"
    unfolding hp_start_def by (rule hub_runs_are_hp_runs)
  moreover have "hp_step ?M ok_env ?R ?a ?s"
    using hp_step.panic [of ?a ok_env ?R ?M idle_world] run(3) msg
    by (simp add: calling_def R ok_env_def del: event_routed_to_from_message)
  ultimately have reach: "(hp_step ?M ok_env ?R)\<^sup>*\<^sup>* ?start ?s" by (rule rtranclp.rtrancl_into_rtrancl)
  then have "hp_step ?M ok_env ?R ?s (?s\<lparr>run_returned := Some (Inr ())\<rparr>)"
    using hub_flush_panic [OF R(3) reach _ rtranclp.rtrancl_refl] run(6) by simp
  then have "(hp_step ?M ok_env ?R)\<^sup>*\<^sup>* ?start (?s\<lparr>run_returned := Some (Inr ())\<rparr>)"
    by (rule rtranclp.rtrancl_into_rtrancl [OF reach])
  then show ?thesis by (intro exI [of _ "?s\<lparr>run_returned := Some (Inr ())\<rparr>"]) (simp add: run)
qed

end
