(* ===== verification/Utf8.thy ===== *)
theory Utf8
  imports Messages
begin

text \<open>
  The characters of a \<open>String\<close>, which is a list of bytes here: \<open>str::chars\<close> splits at the lengths that the leading
  bytes announce. Prefixes of whole characters of valid text are valid text again.
\<close>

text \<open>How many continuation bytes follow a leading byte.\<close>

definition tail_length :: "char \<Rightarrow> nat" where
  "tail_length c =
     (let n = (of_char c :: nat) in if n < 0x80 then 0 else if n < 0xE0 then 1 else if n < 0xF0 then 2 else 3)"

function utf8_chars :: "bytes \<Rightarrow> bytes list" where
  "utf8_chars [] = []"
| "utf8_chars (a # as) = (a # take (tail_length a) as) # utf8_chars (drop (tail_length a) as)"
  by pat_completeness auto

termination
  by (relation "measure length") auto

lemma concat_utf8_chars [simp]: "concat (utf8_chars s) = s"
  by (induction s rule: utf8_chars.induct) simp_all

lemma utf8_char_nonempty: "c \<in> set (utf8_chars s) \<Longrightarrow> c \<noteq> []"
  by (induction s rule: utf8_chars.induct) auto

lemma utf8_char_bytes: "c \<in> set (utf8_chars s) \<Longrightarrow> length c \<le> 4"
  by (induction s rule: utf8_chars.induct) (auto simp: tail_length_def Let_def)

lemma length_utf8_chars: "length (utf8_chars s) \<le> length s"
  by (induction s rule: utf8_chars.induct) simp_all

text \<open>The continuation bytes that a leading byte accepts.\<close>

fun tail_ok :: "char \<Rightarrow> bytes \<Rightarrow> bool" where
  "tail_ok a [] = True"
| "tail_ok a [b] = (in_range 0xC2 0xDF a \<and> continuation b)"
| "tail_ok a [b, c] =
     ((if in_range 0xE0 0xE0 a then in_range 0xA0 0xBF b
       else if in_range 0xED 0xED a then in_range 0x80 0x9F b else continuation b) \<and> continuation c)"
| "tail_ok a [b, c, d] =
     ((if in_range 0xF0 0xF0 a then in_range 0x90 0xBF b
       else if in_range 0xF1 0xF3 a then continuation b
       else in_range 0xF4 0xF4 a \<and> in_range 0x80 0x8F b) \<and> continuation c \<and> continuation d)"
| "tail_ok a (b # c # d # e # es) = False"

definition utf8_char :: "bytes \<Rightarrow> bool" where
  "utf8_char c \<longleftrightarrow> c \<noteq> [] \<and> length (tl c) = tail_length (hd c) \<and> tail_ok (hd c) (tl c)"

lemma utf8_valid_Cons:
  "utf8_valid (a # as) \<longleftrightarrow> utf8_char (a # take (tail_length a) as) \<and> utf8_valid (drop (tail_length a) as)"
proof -
  define n where "n = (of_char a :: nat)"
  have range: "in_range lo hi a \<longleftrightarrow> lo \<le> n \<and> n \<le> hi" for lo hi by (simp add: in_range_def n_def)
  have tail: "tail_length a = (if n < 128 then 0 else if n < 224 then 1 else if n < 240 then 2 else 3)"
    by (simp add: tail_length_def n_def)
  consider "n < 128" | "128 \<le> n" "n < 224" | "224 \<le> n" "n < 240" | "240 \<le> n" by linarith
  then show ?thesis
  proof cases
    case 1
    then show ?thesis by (simp add: utf8_char_def tail range)
  next
    case 2
    then show ?thesis by (cases as) (auto simp: utf8_char_def tail range split: list.splits)
  next
    case 3
    then show ?thesis
      by (cases as; cases "tl as") (auto simp: utf8_char_def tail range numeral_2_eq_2 split: list.splits)
  next
    case 4
    then show ?thesis
      by (cases as; cases "tl as"; cases "tl (tl as)")
        (auto simp: utf8_char_def tail range numeral_3_eq_3 split: list.splits)
  qed
qed

lemma utf8_valid_char_append: "utf8_char c \<Longrightarrow> utf8_valid (c @ s) \<longleftrightarrow> utf8_valid s"
proof -
  assume "utf8_char c"
  moreover from this obtain a as where "c = a # as" "length as = tail_length a"
    by (cases c) (auto simp: utf8_char_def)
  ultimately show ?thesis using utf8_valid_Cons [of a "as @ s"] by simp
qed

lemma utf8_valid_chars: "utf8_valid s \<longleftrightarrow> list_all utf8_char (utf8_chars s)"
  by (induction s rule: utf8_chars.induct) (simp_all only: utf8_valid_Cons utf8_chars.simps list.pred_inject utf8_valid.simps(1))

lemma utf8_valid_concat: "list_all utf8_char cs \<Longrightarrow> utf8_valid (concat cs @ s) = utf8_valid s"
  by (induction cs) (simp_all add: utf8_valid_char_append)

lemma utf8_chars_concat: "list_all utf8_char cs \<Longrightarrow> utf8_chars (concat cs @ s) = cs @ utf8_chars s"
proof (induction cs)
  case (Cons c cs)
  then obtain a as where "c = a # as" "length as = tail_length a" by (cases c) (auto simp: utf8_char_def)
  with Cons show ?case by simp
qed simp

lemma utf8_valid_append: "utf8_valid s \<Longrightarrow> utf8_valid (s @ t) = utf8_valid t"
  using utf8_valid_concat [of "utf8_chars s" t] by (simp add: utf8_valid_chars [of s])

lemma utf8_chars_append: "utf8_valid s \<Longrightarrow> utf8_chars (s @ t) = utf8_chars s @ utf8_chars t"
  using utf8_chars_concat [of "utf8_chars s" t] by (simp add: utf8_valid_chars [of s])

lemma utf8_valid_take:
  assumes "utf8_valid s"
  shows "utf8_valid (concat (take n (utf8_chars s)))" and "utf8_chars (concat (take n (utf8_chars s))) = take n (utf8_chars s)"
proof -
  have "list_all utf8_char (take n (utf8_chars s))"
    using assms by (auto simp: utf8_valid_chars list_all_iff dest: in_set_takeD)
  then show "utf8_valid (concat (take n (utf8_chars s)))" "utf8_chars (concat (take n (utf8_chars s))) = take n (utf8_chars s)"
    using utf8_valid_concat [of "take n (utf8_chars s)" "[]"] utf8_chars_concat [of "take n (utf8_chars s)" "[]"] by simp_all
qed

lemma utf8_chars_ascii: "list_all (in_range 0 0x7F) s \<Longrightarrow> utf8_chars s = map (\<lambda>c. [c]) s"
  by (induction s) (simp_all add: tail_length_def in_range_def)

section \<open>Plain ASCII\<close>

named_theorems ascii_text "texts that are plain ASCII"

lemma ascii_show_nat [ascii_text]: "list_all (in_range 0 0x7F) (show_nat n)"
proof (induction n rule: show_nat.induct)
  case (1 n)
  show ?case
    by (cases "n < 10"; subst show_nat.simps) (simp_all add: 1 in_range_def)
qed

lemma length_concat_le: "(\<And>x. x \<in> set xss \<Longrightarrow> length x \<le> k) \<Longrightarrow> length (concat xss) \<le> k * length xss"
  by (induction xss) (simp_all add: add_mono)

end
