(* ===== verification/Parsers.thy ===== *)
theory Parsers
  imports Utf8
begin

text \<open>
  The parsers of Rust's standard library that \<open>gateway/src/config.rs\<close> calls through \<open>str::parse\<close>: unsigned decimal
  integers (\<open>FromStr\<close> of \<open>usize\<close> and \<open>u64\<close>) and socket addresses (\<open>FromStr\<close> of \<open>SocketAddr\<close>), with the texts of their
  errors, and the \<open>Display\<close> forms that the parsers read back. A reader of the address parser takes the remaining
  input and gives a value with the input left over, or \<open>None\<close>, in which case nothing is consumed.
\<close>

type_synonym u16 = "16 word"
type_synonym 'a reader = "string \<Rightarrow> ('a \<times> string) option"

section \<open>Digits and integers\<close>

text \<open>\<open>char::to_digit\<close>.\<close>

definition to_digit :: "nat \<Rightarrow> char \<Rightarrow> nat option" where
  "to_digit radix c =
     (let n = of_char c;
          d = (if 48 \<le> n \<and> n \<le> 57 then n - 48
               else if 97 \<le> n \<and> n \<le> 122 then n - 97 + 10
               else if 65 \<le> n \<and> n \<le> 90 then n - 65 + 10
               else radix)
      in if d < radix then Some d else None)"

text \<open>
  The checked loop of \<open>from_str_radix\<close>: a bad character is noticed before the overflow of the same round, an overflow of an
  earlier round before it.
\<close>

fun parse_digits :: "nat \<Rightarrow> nat \<Rightarrow> string \<Rightarrow> string + nat" where
  "parse_digits max_value result [] = Inr result"
| "parse_digits max_value result (c # cs) =
     (case to_digit 10 c of
        None \<Rightarrow> Inl ''invalid digit found in string''
      | Some d \<Rightarrow>
          if max_value < 10 * result + d then Inl ''number too large to fit in target type''
          else parse_digits max_value (10 * result + d) cs)"

definition parse_unsigned :: "nat \<Rightarrow> string \<Rightarrow> string + nat" where
  "parse_unsigned max_value s =
     (case s of
        [] \<Rightarrow> Inl ''cannot parse integer from empty string''
      | c # cs \<Rightarrow>
          if cs = [] \<and> (c = CHR ''+'' \<or> c = CHR ''-'') then Inl ''invalid digit found in string''
          else parse_digits max_value 0 (if c = CHR ''+'' then cs else s))"

text \<open>\<open>usize\<close> has 64 bits on the targets of the gateway.\<close>

definition parse_usize :: "string \<Rightarrow> string + nat" where
  "parse_usize = parse_unsigned (2 ^ 64 - 1)"

definition parse_u64 :: "string \<Rightarrow> string + u64" where
  "parse_u64 s = map_sum id of_nat (parse_unsigned (2 ^ 64 - 1) s)"

section \<open>Socket addresses\<close>

datatype Ipv4Addr = Ipv4Addr u8 u8 u8 u8

text \<open>An IPv6 address is its eight groups; the flow information of a parsed address is always zero and is left out.\<close>

datatype SocketAddr =
    V4 Ipv4Addr u16
  | V6 (v6_groups: "u16 list") (v6_port: u16) (v6_scope: u32)

definition read_given_char :: "char \<Rightarrow> unit reader" where
  "read_given_char c s = (case s of [] \<Rightarrow> None | x # xs \<Rightarrow> if x = c then Some ((), xs) else None)"

definition read_separator :: "char \<Rightarrow> nat \<Rightarrow> 'a reader \<Rightarrow> 'a reader" where
  "read_separator sep index inner s =
     (if 0 < index
      then (case read_given_char sep s of None \<Rightarrow> None | Some (_, rest) \<Rightarrow> inner rest)
      else inner s)"

text \<open>
  The digit loop of \<open>read_number\<close>: with a limit on the digits it fails at the first digit too many; without one it fails at the
  first overflow of the target type. It gives the value and how many digits it took.
\<close>

fun read_digits :: "nat \<Rightarrow> nat option \<Rightarrow> nat \<Rightarrow> nat \<Rightarrow> nat \<Rightarrow> (nat \<times> nat) reader" where
  "read_digits radix max_digits max_value result digit_count [] = Some ((result, digit_count), [])"
| "read_digits radix max_digits max_value result digit_count (c # cs) =
     (case to_digit radix c of
        None \<Rightarrow> Some ((result, digit_count), c # cs)
      | Some d \<Rightarrow>
          if (case max_digits of Some m \<Rightarrow> m < digit_count + 1 | None \<Rightarrow> max_value < radix * result + d) then None
          else read_digits radix max_digits max_value (radix * result + d) (digit_count + 1) cs)"

definition read_number :: "nat \<Rightarrow> nat option \<Rightarrow> bool \<Rightarrow> nat \<Rightarrow> nat reader" where
  "read_number radix max_digits allow_zero_prefix max_value s =
     (let has_leading_zero = (s \<noteq> [] \<and> hd s = CHR ''0'') in
      case read_digits radix max_digits max_value 0 0 s of
        None \<Rightarrow> None
      | Some ((result, digit_count), rest) \<Rightarrow>
          if digit_count = 0 then None
          else if \<not> allow_zero_prefix \<and> has_leading_zero \<and> 1 < digit_count then None
          else if max_value < result then None
          else Some (result, rest))"

definition read_octet :: "u8 reader" where
  "read_octet s = map_option (map_prod of_nat id) (read_number 10 (Some 3) False 255 s)"

definition read_ipv4_addr :: "Ipv4Addr reader" where
  "read_ipv4_addr s =
     (case read_separator CHR ''.'' 0 read_octet s of None \<Rightarrow> None | Some (a, s) \<Rightarrow>
     (case read_separator CHR ''.'' 1 read_octet s of None \<Rightarrow> None | Some (b, s) \<Rightarrow>
     (case read_separator CHR ''.'' 2 read_octet s of None \<Rightarrow> None | Some (c, s) \<Rightarrow>
     (case read_separator CHR ''.'' 3 read_octet s of None \<Rightarrow> None | Some (d, s) \<Rightarrow>
        Some (Ipv4Addr a b c d, s)))))"

definition read_group :: "u16 reader" where
  "read_group s = map_option (map_prod of_nat id) (read_number 16 (Some 4) True 65535 s)"

text \<open>The two groups of an embedded IPv4 address.\<close>

fun v4_groups :: "Ipv4Addr \<Rightarrow> u16 list" where
  "v4_groups (Ipv4Addr a b c d) = [ucast a * 256 + ucast b, ucast c * 256 + ucast d]"

text \<open>
  \<open>read_groups\<close>: from the group with number \<open>i\<close> on, at most \<open>n\<close> more groups. It cannot fail: it stops where no group follows.
  The result is the groups, whether the last two were an embedded IPv4 address, and the rest of the input.
\<close>

fun read_groups :: "nat \<Rightarrow> nat \<Rightarrow> string \<Rightarrow> (u16 list \<times> bool) \<times> string" where
  "read_groups i 0 s = (([], False), s)"
| "read_groups i (Suc n) s =
     (case (if 0 < n then read_separator CHR '':'' i read_ipv4_addr s else None) of
        Some (v4, rest) \<Rightarrow> ((v4_groups v4, True), rest)
      | None \<Rightarrow>
          (case read_separator CHR '':'' i read_group s of
             None \<Rightarrow> (([], False), s)
           | Some (g, rest) \<Rightarrow>
               (case read_groups (Suc i) n rest of ((gs, v4), rest) \<Rightarrow> ((g # gs, v4), rest))))"

definition read_ipv6_addr :: "u16 list reader" where
  "read_ipv6_addr s =
     (case read_groups 0 8 s of ((head, head_ipv4), s) \<Rightarrow>
        if length head = 8 then Some (head, s)
        else if head_ipv4 then None
        else (case read_given_char CHR '':'' s of None \<Rightarrow> None | Some (_, s) \<Rightarrow>
             (case read_given_char CHR '':'' s of None \<Rightarrow> None | Some (_, s) \<Rightarrow>
             (case read_groups 0 (8 - (length head + 1)) s of ((tail, _), s) \<Rightarrow>
                Some (head @ replicate (8 - length head - length tail) 0 @ tail, s)))))"

definition read_port :: "u16 reader" where
  "read_port s =
     (case read_given_char CHR '':'' s of None \<Rightarrow> None | Some (_, s) \<Rightarrow>
        map_option (map_prod of_nat id) (read_number 10 None True 65535 s))"

definition read_scope_id :: "u32 reader" where
  "read_scope_id s =
     (case read_given_char CHR ''%'' s of None \<Rightarrow> None | Some (_, s) \<Rightarrow>
        map_option (map_prod of_nat id) (read_number 10 None True (2 ^ 32 - 1) s))"

definition read_socket_addr_v4 :: "SocketAddr reader" where
  "read_socket_addr_v4 s =
     (case read_ipv4_addr s of None \<Rightarrow> None | Some (ip, s) \<Rightarrow>
     (case read_port s of None \<Rightarrow> None | Some (port, s) \<Rightarrow> Some (V4 ip port, s)))"

definition read_socket_addr_v6 :: "SocketAddr reader" where
  "read_socket_addr_v6 s =
     (case read_given_char CHR ''['' s of None \<Rightarrow> None | Some (_, s) \<Rightarrow>
     (case read_ipv6_addr s of None \<Rightarrow> None | Some (ip, s) \<Rightarrow>
     (let (scope_id, s) = (case read_scope_id s of None \<Rightarrow> (0, s) | Some r \<Rightarrow> r) in
     (case read_given_char CHR '']'' s of None \<Rightarrow> None | Some (_, s) \<Rightarrow>
     (case read_port s of None \<Rightarrow> None | Some (port, s) \<Rightarrow> Some (V6 ip port scope_id, s))))))"

definition read_socket_addr :: "SocketAddr reader" where
  "read_socket_addr s =
     (case read_socket_addr_v4 s of Some r \<Rightarrow> Some r | None \<Rightarrow> read_socket_addr_v6 s)"

definition parse_socket_addr :: "string \<Rightarrow> string + SocketAddr" where
  "parse_socket_addr s =
     (case read_socket_addr s of
        Some (addr, []) \<Rightarrow> Inr addr
      | _ \<Rightarrow> Inl ''invalid socket address syntax'')"

text \<open>
  A text for every address: the \<open>Display\<close> form for IPv4; for IPv6 all eight groups with four digits each and the scope.
\<close>

fun show_ipv4 :: "Ipv4Addr \<Rightarrow> string" where
  "show_ipv4 (Ipv4Addr a b c d) =
     show_nat (unat a) @ ''.'' @ show_nat (unat b) @ ''.'' @ show_nat (unat c) @ ''.'' @ show_nat (unat d)"

definition hex_char :: "nat \<Rightarrow> char" where
  "hex_char d = char_of (if d < 10 then 48 + d else 87 + d)"

definition show_group :: "u16 \<Rightarrow> string" where
  "show_group g = map (\<lambda>k. hex_char (unat g div 16 ^ k mod 16)) [3, 2, 1, 0]"

fun show_groups :: "nat \<Rightarrow> u16 list \<Rightarrow> string" where
  "show_groups i [] = []"
| "show_groups i (g # gs) = (if 0 < i then '':'' else []) @ show_group g @ show_groups (Suc i) gs"

fun show_socket_addr :: "SocketAddr \<Rightarrow> string" where
  "show_socket_addr (V4 ip port) = show_ipv4 ip @ '':'' @ show_nat (unat port)"
| "show_socket_addr (V6 groups port scope) =
     ''['' @ show_groups 0 groups @ ''%'' @ show_nat (unat scope) @ '']:'' @ show_nat (unat port)"

section \<open>Reading printed numbers back\<close>

lemma to_digit_decimal [simp]: "d < 10 \<Longrightarrow> to_digit 10 (char_of (48 + d)) = Some d"
  by (simp add: to_digit_def Let_def)

lemma length_show_nat: "n < 10 ^ k \<Longrightarrow> 0 < k \<Longrightarrow> length (show_nat n) \<le> k"
proof (induction k arbitrary: n)
  case (Suc k)
  show ?case
  proof (cases "n < 10")
    case False
    with Suc.prems have "n div 10 < 10 ^ k" "0 < k" by (auto intro: gr0I)
    with Suc.IH False show ?thesis by (subst show_nat.simps) simp
  qed (simp add: show_nat.simps)
qed simp

lemma show_nat_not_Nil [simp]: "show_nat n \<noteq> []"
  by (subst show_nat.simps) simp

lemma show_nat_leading_zero: "hd (show_nat n) = CHR ''0'' \<Longrightarrow> n = 0"
proof (induction n rule: show_nat.induct)
  case (1 n)
  show ?case
  proof (cases "n < 10")
    case True
    then have "char_of (48 + n) = (char_of 48 :: char)"
      using "1.prems" by (simp add: show_nat.simps char_of_def)
    then have "(of_char (char_of (48 + n) :: char) :: nat) = of_char (char_of (48 :: nat) :: char)"
      by (rule arg_cong)
    with True show ?thesis by simp
  next
    case False
    then have "hd (show_nat (n div 10)) = CHR ''0''"
      using "1.prems" show_nat.simps [of n] by simp
    with "1.IH" False have "n div 10 = 0" by blast
    with False show ?thesis by simp
  qed
qed

lemma show_nat_decimal: "c \<in> set (show_nat n) \<Longrightarrow> \<exists>d<10 :: nat. c = char_of (48 + d)"
proof (induction n rule: show_nat.induct)
  case (1 n)
  show ?case
  proof (cases "n < 10")
    case True
    with "1.prems" show ?thesis by (auto simp: show_nat.simps)
  next
    case False
    then have "c \<in> set (show_nat (n div 10)) \<or> c = char_of (48 + n mod 10)"
      using "1.prems" show_nat.simps [of n] by auto
    with "1.IH" False show ?thesis by (metis mod_less_divisor zero_less_numeral)
  qed
qed

lemma parse_digits_show_nat:
  "n \<le> max_value \<Longrightarrow> parse_digits max_value 0 (show_nat n @ cs) = parse_digits max_value n cs"
proof (induction n arbitrary: cs rule: show_nat.induct)
  case (1 n)
  show ?case
  proof (cases "n < 10")
    case True
    with "1.prems" show ?thesis by (simp add: show_nat.simps)
  next
    case False
    have "n div 10 \<le> max_value" using "1.prems" div_le_dividend [of n 10] by linarith
    with "1.IH" False "1.prems" show ?thesis by (subst show_nat.simps) simp
  qed
qed

lemma parse_unsigned_show_nat: "n \<le> max_value \<Longrightarrow> parse_unsigned max_value (show_nat n) = Inr n"
proof -
  assume "n \<le> max_value"
  then have parsed: "parse_digits max_value 0 (show_nat n) = Inr n"
    using parse_digits_show_nat [of n max_value "[]"] by simp
  obtain c cs where s: "show_nat n = c # cs" by (cases "show_nat n") auto
  then obtain d :: nat where d: "d < 10" "c = char_of (48 + d)"
    using show_nat_decimal [of c n] by auto
  have "(of_char c :: nat) = 48 + d" using d by simp
  then have "c \<noteq> CHR ''+''" "c \<noteq> CHR ''-''" by auto
  with parsed s show ?thesis by (simp add: parse_unsigned_def)
qed

lemma parse_usize_show_nat: "n < 2 ^ 64 \<Longrightarrow> parse_usize (show_nat n) = Inr n"
  unfolding parse_usize_def by (intro parse_unsigned_show_nat) simp

lemma parse_u64_show_nat: "parse_u64 (show_nat (unat n)) = Inr n"
proof -
  have "unat n \<le> 2 ^ 64 - 1" by simp
  then show ?thesis by (simp only: parse_u64_def parse_unsigned_show_nat) simp
qed

lemma parse_digits_range: "parse_digits max_value r s = Inr n \<Longrightarrow> r \<le> max_value \<Longrightarrow> n \<le> max_value"
  by (induction max_value r s rule: parse_digits.induct) (auto split: option.splits if_splits)

lemma parse_usize_range: "parse_usize s = Inr n \<Longrightarrow> n < 2 ^ 64"
proof -
  assume "parse_usize s = Inr n"
  then have "n \<le> 2 ^ 64 - 1"
    by (auto simp: parse_usize_def parse_unsigned_def simp del: parse_digits.simps
        split: list.splits if_splits dest: parse_digits_range)
  then show ?thesis by simp
qed

section \<open>Reading printed addresses back\<close>

text \<open>What the types of the standard library enforce: an IPv6 address has eight groups.\<close>

definition socket_addr_wf :: "SocketAddr \<Rightarrow> bool" where
  "socket_addr_wf a \<longleftrightarrow> (case a of V4 _ _ \<Rightarrow> True | V6 groups _ _ \<Rightarrow> length groups = 8)"

definition no_digit :: "string \<Rightarrow> bool" where
  "no_digit s \<longleftrightarrow> (case s of [] \<Rightarrow> True | c # _ \<Rightarrow> to_digit 10 c = None)"

lemma no_digit_simps [simp]: "no_digit []" "no_digit (CHR ''.'' # s)" "no_digit (CHR '':'' # s)" "no_digit (CHR '']'' # s)"
  by (simp_all add: no_digit_def to_digit_def)

lemma read_digits_show_nat:
  "(case max_digits of Some m \<Rightarrow> length (show_nat n) \<le> m | None \<Rightarrow> n \<le> max_value) \<Longrightarrow>
   read_digits 10 max_digits max_value 0 0 (show_nat n @ cs) =
     read_digits 10 max_digits max_value n (length (show_nat n)) cs"
proof (induction n arbitrary: cs rule: show_nat.induct)
  case (1 n)
  show ?case
  proof (cases "n < 10")
    case True
    with "1.prems" show ?thesis by (simp add: show_nat.simps split: option.splits)
  next
    case False
    then have len: "length (show_nat n) = Suc (length (show_nat (n div 10)))"
      by (subst show_nat.simps) simp
    have "n div 10 \<le> max_value" if "n \<le> max_value" using that div_le_dividend [of n 10] by linarith
    then have "case max_digits of Some m \<Rightarrow> length (show_nat (n div 10)) \<le> m | None \<Rightarrow> n div 10 \<le> max_value"
      using "1.prems" by (simp add: len split: option.splits)
    from "1.IH" [OF False this] False "1.prems" show ?thesis
      by (subst show_nat.simps) (simp add: len split: option.splits)
  qed
qed

lemma read_digits_stop: "no_digit cs \<Longrightarrow> read_digits 10 lim mx r k cs = Some ((r, k), cs)"
  by (cases cs) (simp_all add: no_digit_def)

lemma read_number_show_nat:
  assumes "n \<le> max_value" and "case max_digits of Some m \<Rightarrow> length (show_nat n) \<le> m | None \<Rightarrow> True" and "no_digit cs"
  shows "read_number 10 max_digits zero_ok max_value (show_nat n @ cs) = Some (n, cs)"
proof -
  have "read_digits 10 max_digits max_value 0 0 (show_nat n @ cs) = Some ((n, length (show_nat n)), cs)"
    using assms by (subst read_digits_show_nat) (simp_all add: read_digits_stop split: option.splits)
  moreover have "length (show_nat n) \<le> 1" if "hd (show_nat n) = CHR ''0''"
    using show_nat_leading_zero [OF that] by (simp add: show_nat.simps)
  ultimately show ?thesis using assms(1) by (auto simp: read_number_def Let_def)
qed

lemma read_octet_show [simp]: "no_digit cs \<Longrightarrow> read_octet (show_nat (unat a) @ cs) = Some (a, cs)"
proof -
  assume "no_digit cs"
  have "unat a < 256" using unsigned_less [of a] by simp
  then have "unat a \<le> 255" "length (show_nat (unat a)) \<le> 3" by (simp_all add: length_show_nat)
  with \<open>no_digit cs\<close> show ?thesis by (simp add: read_octet_def read_number_show_nat)
qed

lemma read_ipv4_show: "no_digit cs \<Longrightarrow> read_ipv4_addr (show_ipv4 ip @ cs) = Some (ip, cs)"
  by (cases ip) (simp add: read_ipv4_addr_def read_separator_def read_given_char_def)

lemma read_port_show: "read_port (CHR '':'' # show_nat (unat port)) = Some (port, [])"
proof -
  have "unat port < 65536" using unsigned_less [of port] by simp
  then have "read_number 10 None True 65535 (show_nat (unat port)) = Some (unat port, [])"
    using read_number_show_nat [of "unat port" 65535 None "[]" True] by simp
  then show ?thesis by (simp add: read_port_def read_given_char_def)
qed

lemma hex_digit [simp]: "d < 16 \<Longrightarrow> to_digit 16 (hex_char d) = Some d"
  by (simp add: to_digit_def hex_char_def Let_def)

lemma hex_digit_decimal [simp]: "d < 16 \<Longrightarrow> to_digit 10 (hex_char d) = (if d < 10 then Some d else None)"
  by (simp add: to_digit_def hex_char_def Let_def)

lemma hex_char_no_dot [simp]: "d < 16 \<Longrightarrow> hex_char d \<noteq> CHR ''.''"
proof
  assume "d < 16" "hex_char d = CHR ''.''"
  then have "(of_char (hex_char d) :: nat) = of_char CHR ''.''" by simp
  with \<open>d < 16\<close> show False by (simp add: hex_char_def split: if_splits)
qed

lemma four_hex_digits:
  "n < 65536 \<Longrightarrow> 16 * (16 * (16 * (n div 4096 mod 16) + n div 256 mod 16) + n div 16 mod 16) + n mod 16 = (n :: nat)"
proof -
  assume "n < 65536"
  then have "n div 4096 mod 16 = n div 16 div 16 div 16" by (simp flip: div_mult2_eq)
  moreover have "n div 256 = n div 16 div 16" by (simp flip: div_mult2_eq)
  ultimately show ?thesis by (simp only: mult_div_mod_eq)
qed

definition no_hex_digit :: "string \<Rightarrow> bool" where
  "no_hex_digit s \<longleftrightarrow> (case s of [] \<Rightarrow> True | c # _ \<Rightarrow> to_digit 16 c = None)"

lemma no_hex_digit_simps [simp]: "no_hex_digit (CHR '':'' # s)" "no_hex_digit (CHR ''%'' # s)"
  by (simp_all add: no_hex_digit_def to_digit_def)

lemma read_four_digits:
  assumes "a < 16" "b < 16" "c < 16" "d < 16" and "no_hex_digit cs"
  shows "read_digits 16 (Some 4) mx 0 0 (map hex_char [a, b, c, d] @ cs) =
    Some ((16 * (16 * (16 * a + b) + c) + d, 4), cs)"
proof -
  have "read_digits 16 lim mx r k cs = Some ((r, k), cs)" for lim r k
    using assms(5) by (cases cs) (simp_all add: no_hex_digit_def)
  with assms(1-4) show ?thesis by (simp add: algebra_simps)
qed

lemma show_group_digits:
  "show_group g = map hex_char [unat g div 4096 mod 16, unat g div 256 mod 16, unat g div 16 mod 16, unat g mod 16]"
  by (simp add: show_group_def)

lemma read_group_show [simp]: "no_hex_digit cs \<Longrightarrow> read_group (show_group g @ cs) = Some (g, cs)"
proof -
  assume "no_hex_digit cs"
  have "unat g < 65536" using unsigned_less [of g] by simp
  then have "read_digits 16 (Some 4) 65535 0 0 (show_group g @ cs) = Some ((unat g, 4), cs)"
    unfolding show_group_digits
    by (subst read_four_digits [OF _ _ _ _ \<open>no_hex_digit cs\<close>]; (simp only: four_hex_digits)?; simp)
  with \<open>unat g < 65536\<close> show ?thesis by (simp add: read_group_def read_number_def)
qed

lemma read_octet_hex:
  assumes "a < 16" "b < 16" "c < 16" "d < 16" and "read_octet (map hex_char [a, b, c, d] @ cs) = Some (v, rest)"
  shows "\<exists>e<16. \<exists>t. rest = hex_char e # t"
proof -
  have "read_digits 10 (Some 3) mx 0 0 (map hex_char [a, b, c, d] @ cs) =
      (if 10 \<le> a then Some ((0, 0), map hex_char [a, b, c, d] @ cs)
       else if 10 \<le> b then Some ((a, 1), map hex_char [b, c, d] @ cs)
       else if 10 \<le> c then Some ((10 * a + b, 2), map hex_char [c, d] @ cs)
       else if 10 \<le> d then Some ((10 * (10 * a + b) + c, 3), map hex_char [d] @ cs)
       else None)" for mx
    using assms(1-4) by simp
  with assms show ?thesis
    by (auto simp: read_octet_def read_number_def Let_def split: if_splits)
qed

lemma read_ipv4_show_group [simp]: "read_ipv4_addr (show_group g @ cs) = None"
proof (cases "read_octet (show_group g @ cs)")
  case (Some r)
  obtain v rest where r: "r = (v, rest)" by fastforce
  then obtain e t where "e < 16" "rest = hex_char e # t"
    using read_octet_hex [of "unat g div 4096 mod 16" "unat g div 256 mod 16" "unat g div 16 mod 16" "unat g mod 16" cs v rest]
      Some unfolding show_group_digits by auto
  with Some r show ?thesis by (simp add: read_ipv4_addr_def read_separator_def read_given_char_def)
qed (simp add: read_ipv4_addr_def read_separator_def)

lemma read_separator_simps:
  "read_separator sep 0 r t = r t" "read_separator sep (Suc i) r (sep # t) = r t"
  by (simp_all add: read_separator_def read_given_char_def)

lemma read_groups_show:
  "no_hex_digit cs \<Longrightarrow> read_groups i (length gs) (show_groups i gs @ cs) = ((gs, False), cs)"
proof (induction gs arbitrary: i)
  case (Cons g gs)
  have "no_hex_digit (show_groups (Suc i) gs @ cs)" for i
    using Cons.prems by (cases gs) simp_all
  with Cons show ?case by (cases i) (simp_all add: read_separator_simps)
qed simp

lemma read_scope_show: "read_scope_id (CHR ''%'' # show_nat (unat sc) @ CHR '']'' # cs) = Some (sc, CHR '']'' # cs)"
proof -
  have "unat sc < 2 ^ 32" using unsigned_less [of sc] by simp
  then have "read_number 10 None True (2 ^ 32 - 1) (show_nat (unat sc) @ CHR '']'' # cs) = Some (unat sc, CHR '']'' # cs)"
    by (intro read_number_show_nat) simp_all
  then show ?thesis by (simp add: read_scope_id_def read_given_char_def)
qed

lemma parse_show_socket_addr: "socket_addr_wf a \<Longrightarrow> parse_socket_addr (show_socket_addr a) = Inr a"
proof (cases a)
  case (V4 ip port)
  then show ?thesis
    by (simp add: parse_socket_addr_def read_socket_addr_def read_socket_addr_v4_def read_ipv4_show read_port_show)
next
  case (V6 groups port scope)
  assume "socket_addr_wf a"
  with V6 have "length groups = 8" by (simp add: socket_addr_wf_def)
  then have ip: "read_ipv6_addr (show_groups 0 groups @ CHR ''%'' # cs) = Some (groups, CHR ''%'' # cs)" for cs
    using read_groups_show [of "CHR ''%'' # cs" 0 groups] by (simp add: read_ipv6_addr_def)
  have "read_ipv4_addr (CHR ''['' # cs) = None" for cs
    by (simp add: read_ipv4_addr_def read_separator_def read_octet_def read_number_def to_digit_def)
  then have "read_socket_addr_v4 (show_socket_addr a) = None" by (simp add: V6 read_socket_addr_v4_def)
  moreover have given: "read_given_char c (c # cs) = Some ((), cs)" for c cs by (simp add: read_given_char_def)
  then have "read_socket_addr_v6 (show_socket_addr a) = Some (a, [])"
    by (simp add: V6 read_socket_addr_v6_def ip read_scope_show read_port_show)
  ultimately show ?thesis by (simp add: parse_socket_addr_def read_socket_addr_def)
qed

section \<open>IPv6 addresses have eight groups\<close>

lemma length_v4_groups [simp]: "length (v4_groups ip) = 2"
  by (cases ip) simp

lemma length_read_groups: "length (fst (fst (read_groups i n s))) \<le> n"
  by (induction i n s rule: read_groups.induct) (auto split: option.splits prod.splits if_splits)

lemma length_read_ipv6: "read_ipv6_addr s = Some (groups, rest) \<Longrightarrow> length groups = 8"
proof -
  assume read: "read_ipv6_addr s = Some (groups, rest)"
  obtain head v4 s1 where head: "read_groups 0 8 s = ((head, v4), s1)" by (metis surj_pair)
  have "length head \<le> 8" using length_read_groups [of 0 8 s] head by simp
  moreover have "length tail \<le> 7 - length head"
    if "read_groups 0 (7 - length head) s' = ((tail, b), s'')" for tail b s' s''
    using length_read_groups [of 0 "7 - length head" s'] that by simp
  ultimately show ?thesis
    using read by (fastforce simp: read_ipv6_addr_def head split: prod.splits if_splits option.splits)
qed

lemma parse_socket_addr_wf: "parse_socket_addr s = Inr a \<Longrightarrow> socket_addr_wf a"
  by (auto simp: parse_socket_addr_def read_socket_addr_def read_socket_addr_v4_def read_socket_addr_v6_def
      socket_addr_wf_def Let_def split: option.splits list.splits prod.splits dest: length_read_ipv6)

end
