(* ===== verification/Config.thy ===== *)
theory Config
  imports Parsers
begin

text \<open>
  The configuration of \<open>gateway/src/config.rs\<close>: the defaults and their replacement by environment variables. The
  environment is a function from names to the bytes of the values; \<open>std::env::var\<close> gives only values that are
  valid UTF-8. Lower-casing follows ASCII where the text is ASCII; for other texts it is the Unicode case mapping, the parameter \<open>lower\<close>.
\<close>

datatype LogFormat = Json_format | Pretty_format

record Config =
  grpc_addr :: SocketAddr
  metrics_addr :: SocketAddr
  cfg_buffer_capacity :: nat
  cfg_batch_size :: nat
  cfg_flush_interval_ms :: u64
  log_level :: string
  log_format :: LogFormat

definition config_default :: Config where
  "config_default =
     \<lparr>grpc_addr = V4 (Ipv4Addr 0 0 0 0) 50051, metrics_addr = V4 (Ipv4Addr 0 0 0 0) 9090,
      cfg_buffer_capacity = 100000, cfg_batch_size = 1000, cfg_flush_interval_ms = 100,
      log_level = ''info'', log_format = Pretty_format\<rparr>"

type_synonym environment = "string \<Rightarrow> bytes option"

definition env_var :: "environment \<Rightarrow> string \<Rightarrow> string option" where
  "env_var environ var =
     (case environ var of None \<Rightarrow> None | Some v \<Rightarrow> if utf8_valid v then Some v else None)"

definition ascii_lower :: "char \<Rightarrow> char" where
  "ascii_lower c = (if in_range 65 90 c then char_of ((of_char c :: nat) + 32) else c)"

definition to_lowercase :: "(string \<Rightarrow> string) \<Rightarrow> string \<Rightarrow> string" where
  "to_lowercase lower s = (if list_all (in_range 0 0x7F) s then map ascii_lower s else lower s)"

text \<open>
  One step of \<open>from_env\<close>: an absent variable leaves the configuration alone, a value that does not parse ends the loading with an
  error naming the variable.
\<close>

definition load_var ::
    "environment \<Rightarrow> string \<Rightarrow> (string \<Rightarrow> string + 'a) \<Rightarrow> ('a \<Rightarrow> Config \<Rightarrow> Config) \<Rightarrow> Config \<Rightarrow> PolkuError + Config" where
  "load_var environ var parse set_field config =
     (case env_var environ var of
        None \<Rightarrow> Inr config
      | Some s \<Rightarrow>
          (case parse s of
             Inl e \<Rightarrow> Inl (Config_error (''invalid '' @ var @ '': '' @ e))
           | Inr v \<Rightarrow> Inr (set_field v config)))"

definition parse_log_format :: "(string \<Rightarrow> string) \<Rightarrow> string \<Rightarrow> string + LogFormat" where
  "parse_log_format lower s =
     (let other = to_lowercase lower s in
      if other = ''json'' then Inr Json_format
      else if other = ''pretty'' then Inr Pretty_format
      else Inl (other @ '' (expected '' @ [CHR 0x27] @ ''json'' @ [CHR 0x27] @ '' or '' @
                [CHR 0x27] @ ''pretty'' @ [CHR 0x27] @ '')''))"

text \<open>The \<open>?\<close> operator between two steps.\<close>

definition try_then :: "'e + 'a \<Rightarrow> ('a \<Rightarrow> 'e + 'b) \<Rightarrow> 'e + 'b" where
  "try_then r f = (case r of Inl e \<Rightarrow> Inl e | Inr a \<Rightarrow> f a)"

definition config_from_env :: "(string \<Rightarrow> string) \<Rightarrow> environment \<Rightarrow> PolkuError + Config" where
  "config_from_env lower environ =
     try_then (load_var environ ''POLKU_GRPC_ADDR'' parse_socket_addr
       (\<lambda>addr config. config\<lparr>grpc_addr := addr\<rparr>) config_default) (\<lambda>config.
     try_then (load_var environ ''POLKU_METRICS_ADDR'' parse_socket_addr
       (\<lambda>addr config. config\<lparr>metrics_addr := addr\<rparr>) config) (\<lambda>config.
     try_then (load_var environ ''POLKU_BUFFER_CAPACITY'' parse_usize
       (\<lambda>cap config. config\<lparr>cfg_buffer_capacity := cap\<rparr>) config) (\<lambda>config.
     try_then (load_var environ ''POLKU_BATCH_SIZE'' parse_usize
       (\<lambda>size config. config\<lparr>cfg_batch_size := size\<rparr>) config) (\<lambda>config.
     try_then (load_var environ ''POLKU_FLUSH_INTERVAL_MS'' parse_u64
       (\<lambda>interval config. config\<lparr>cfg_flush_interval_ms := interval\<rparr>) config) (\<lambda>config.
     try_then (load_var environ ''POLKU_LOG_LEVEL'' Inr
       (\<lambda>level config. config\<lparr>log_level := level\<rparr>) config) (\<lambda>config.
     load_var environ ''POLKU_LOG_FORMAT'' (parse_log_format lower)
       (\<lambda>format config. config\<lparr>log_format := format\<rparr>) config))))))"

section \<open>Loading as an independent choice per variable\<close>

text \<open>What a variable contributes on its own: its error, or the value that its field gets.\<close>

definition var_error :: "environment \<Rightarrow> string \<Rightarrow> (string \<Rightarrow> string + 'a) \<Rightarrow> (string \<times> string) option" where
  "var_error environ var parse =
     (case env_var environ var of None \<Rightarrow> None
      | Some s \<Rightarrow> (case parse s of Inl e \<Rightarrow> Some (var, e) | Inr _ \<Rightarrow> None))"

text \<open>The errors of the environment in the order in which the variables are read.\<close>

definition config_errors :: "(string \<Rightarrow> string) \<Rightarrow> environment \<Rightarrow> (string \<times> string) list" where
  "config_errors lower environ = List.map_filter id
     [var_error environ ''POLKU_GRPC_ADDR'' parse_socket_addr,
      var_error environ ''POLKU_METRICS_ADDR'' parse_socket_addr,
      var_error environ ''POLKU_BUFFER_CAPACITY'' parse_usize,
      var_error environ ''POLKU_BATCH_SIZE'' parse_usize,
      var_error environ ''POLKU_FLUSH_INTERVAL_MS'' parse_u64,
      var_error environ ''POLKU_LOG_FORMAT'' (parse_log_format lower)]"

definition value_or :: "environment \<Rightarrow> string \<Rightarrow> (string \<Rightarrow> string + 'a) \<Rightarrow> 'a \<Rightarrow> 'a" where
  "value_or environ var parse dflt =
     (case env_var environ var of None \<Rightarrow> dflt
      | Some s \<Rightarrow> (case parse s of Inl _ \<Rightarrow> dflt | Inr v \<Rightarrow> v))"

definition config_values :: "(string \<Rightarrow> string) \<Rightarrow> environment \<Rightarrow> Config" where
  "config_values lower environ =
     \<lparr>grpc_addr = value_or environ ''POLKU_GRPC_ADDR'' parse_socket_addr (V4 (Ipv4Addr 0 0 0 0) 50051),
      metrics_addr = value_or environ ''POLKU_METRICS_ADDR'' parse_socket_addr (V4 (Ipv4Addr 0 0 0 0) 9090),
      cfg_buffer_capacity = value_or environ ''POLKU_BUFFER_CAPACITY'' parse_usize 100000,
      cfg_batch_size = value_or environ ''POLKU_BATCH_SIZE'' parse_usize 1000,
      cfg_flush_interval_ms = value_or environ ''POLKU_FLUSH_INTERVAL_MS'' parse_u64 100,
      log_level = value_or environ ''POLKU_LOG_LEVEL'' Inr ''info'',
      log_format = value_or environ ''POLKU_LOG_FORMAT'' (parse_log_format lower) Pretty_format\<rparr>"

text \<open>The interface of a field: writing back what is read changes nothing. Loading a variable then sets its field to its value.\<close>

locale config_field =
  fixes get :: "Config \<Rightarrow> 'a" and set_field :: "'a \<Rightarrow> Config \<Rightarrow> Config"
  assumes set_get: "set_field (get c) c = c"
begin

lemma load:
  "load_var environ var parse set_field config =
     (case var_error environ var parse of
        Some (var, e) \<Rightarrow> Inl (Config_error (''invalid '' @ var @ '': '' @ e))
      | None \<Rightarrow> Inr (set_field (value_or environ var parse (get config)) config))"
  by (simp add: load_var_def var_error_def value_or_def set_get split: option.splits sum.splits)

end

interpretation grpc_addr_field: config_field grpc_addr "\<lambda>v c. c\<lparr>grpc_addr := v\<rparr>"
  by unfold_locales simp

interpretation metrics_addr_field: config_field metrics_addr "\<lambda>v c. c\<lparr>metrics_addr := v\<rparr>"
  by unfold_locales simp

interpretation capacity_field: config_field cfg_buffer_capacity "\<lambda>v c. c\<lparr>cfg_buffer_capacity := v\<rparr>"
  by unfold_locales simp

interpretation batch_field: config_field cfg_batch_size "\<lambda>v c. c\<lparr>cfg_batch_size := v\<rparr>"
  by unfold_locales simp

interpretation interval_field: config_field cfg_flush_interval_ms "\<lambda>v c. c\<lparr>cfg_flush_interval_ms := v\<rparr>"
  by unfold_locales simp

interpretation level_field: config_field log_level "\<lambda>v c. c\<lparr>log_level := v\<rparr>"
  by unfold_locales simp

interpretation format_field: config_field log_format "\<lambda>v c. c\<lparr>log_format := v\<rparr>"
  by unfold_locales simp

lemmas load_fields = grpc_addr_field.load metrics_addr_field.load capacity_field.load batch_field.load
  interval_field.load level_field.load format_field.load

lemma var_error_Inr [simp]: "var_error environ var Inr = None"
  by (simp add: var_error_def split: option.splits)

lemma config_from_env_eq:
  "config_from_env lower environ =
     (case config_errors lower environ of
        [] \<Rightarrow> Inr (config_values lower environ)
      | (var, e) # _ \<Rightarrow> Inl (Config_error (''invalid '' @ var @ '': '' @ e)))"
  unfolding config_from_env_def try_then_def load_fields
  by (simp add: config_errors_def config_values_def config_default_def map_filter_simps split: option.splits)

text \<open>C29. Loading the configuration: when no variable has an error the result is the configuration in which each
  field has the parsed value of its variable, or its default when the variable is absent or not Unicode. Otherwise the
  result is the error of the first wrong variable in the order of the code, whatever the others hold. The log
  level is not checked.\<close>

theorem config_from_env_spec:
  "config_from_env lower environ =
     (case config_errors lower environ of
        [] \<Rightarrow> Inr (config_values lower environ)
      | (var, e) # _ \<Rightarrow> Inl (Config_error (''invalid '' @ var @ '': '' @ e)))"
  by (rule config_from_env_eq)

section \<open>Well-formed configurations\<close>

definition config_wf :: "Config \<Rightarrow> bool" where
  "config_wf c \<longleftrightarrow> socket_addr_wf (grpc_addr c) \<and> socket_addr_wf (metrics_addr c) \<and>
     cfg_buffer_capacity c < 2 ^ 64 \<and> cfg_batch_size c < 2 ^ 64 \<and> utf8_valid (log_level c)"

lemma value_or_induct:
  assumes "P dflt" and "\<And>s v. parse s = Inr v \<Longrightarrow> utf8_valid s \<Longrightarrow> P v"
  shows "P (value_or environ var parse dflt)"
  using assms by (simp add: value_or_def env_var_def split: option.splits sum.splits)

lemma config_from_env_wf:
  "case config_from_env lower environ of Inl e \<Rightarrow> (\<exists>m. e = Config_error m) | Inr c \<Rightarrow> config_wf c"
proof -
  have addr: "socket_addr_wf (value_or environ var parse_socket_addr (V4 ip port))" for var ip port
    using parse_socket_addr_wf
    by (rule value_or_induct [where P = socket_addr_wf, rotated]) (simp_all add: socket_addr_wf_def)
  have size: "value_or environ var parse_usize d < 2 ^ 64" if "d < 2 ^ 64" for var d
    using that parse_usize_range by (rule value_or_induct [where P = "\<lambda>n. n < 2 ^ 64"])
  have "utf8_valid (value_or environ ''POLKU_LOG_LEVEL'' Inr ''info'')"
    by (rule value_or_induct) (simp_all add: in_range_def)
  then have "config_wf (config_values lower environ)"
    using size [of 100000] size [of 1000] by (simp add: config_wf_def config_values_def addr)
  then show ?thesis
    by (simp add: config_from_env_eq split: list.splits)
qed

section \<open>Printing a configuration\<close>

fun show_log_format :: "LogFormat \<Rightarrow> string" where
  "show_log_format Json_format = ''json''"
| "show_log_format Pretty_format = ''pretty''"

text \<open>An environment that asks for a given configuration.\<close>

definition config_environ :: "Config \<Rightarrow> environment" where
  "config_environ c = map_of
     [(''POLKU_GRPC_ADDR'', show_socket_addr (grpc_addr c)),
      (''POLKU_METRICS_ADDR'', show_socket_addr (metrics_addr c)),
      (''POLKU_BUFFER_CAPACITY'', show_nat (cfg_buffer_capacity c)),
      (''POLKU_BATCH_SIZE'', show_nat (cfg_batch_size c)),
      (''POLKU_FLUSH_INTERVAL_MS'', show_nat (unat (cfg_flush_interval_ms c))),
      (''POLKU_LOG_LEVEL'', log_level c),
      (''POLKU_LOG_FORMAT'', show_log_format (log_format c))]"

lemma ascii_punctuation [ascii_text]:
  "in_range 0 0x7F CHR ''.''" "in_range 0 0x7F CHR '':''" "in_range 0 0x7F CHR ''%''" "in_range 0 0x7F CHR ''[''"
  "in_range 0 0x7F CHR '']''"
  by (simp_all add: in_range_def)

lemma ascii_show_group [ascii_text]: "list_all (in_range 0 0x7F) (show_group g)"
proof -
  have "in_range 0 0x7F (hex_char d)" if "d < 16" for d
    using that by (simp add: hex_char_def in_range_def)
  then show ?thesis by (simp add: show_group_digits)
qed

lemma ascii_show_groups [ascii_text]: "list_all (in_range 0 0x7F) (show_groups i gs)"
  by (induction i gs rule: show_groups.induct) (simp_all add: ascii_text)

lemma ascii_show_socket_addr [ascii_text]: "list_all (in_range 0 0x7F) (show_socket_addr a)"
proof (cases a)
  case (V4 ip port)
  then show ?thesis by (cases ip) (simp add: ascii_text)
qed (simp add: ascii_text)

lemma parse_show_log_format: "parse_log_format lower (show_log_format f) = Inr f"
  by (cases f) (simp_all add: parse_log_format_def to_lowercase_def in_range_def ascii_lower_def)

lemma config_environ_loads: "config_wf c \<Longrightarrow> config_from_env lower (config_environ c) = Inr c"
proof -
  assume wf: "config_wf c"
  have "list_all (in_range 0 0x7F) (show_log_format f)" for f
    by (cases f) (simp_all add: in_range_def)
  with wf have vars: "env_var (config_environ c) ''POLKU_GRPC_ADDR'' = Some (show_socket_addr (grpc_addr c))"
    "env_var (config_environ c) ''POLKU_METRICS_ADDR'' = Some (show_socket_addr (metrics_addr c))"
    "env_var (config_environ c) ''POLKU_BUFFER_CAPACITY'' = Some (show_nat (cfg_buffer_capacity c))"
    "env_var (config_environ c) ''POLKU_BATCH_SIZE'' = Some (show_nat (cfg_batch_size c))"
    "env_var (config_environ c) ''POLKU_FLUSH_INTERVAL_MS'' = Some (show_nat (unat (cfg_flush_interval_ms c)))"
    "env_var (config_environ c) ''POLKU_LOG_LEVEL'' = Some (log_level c)"
    "env_var (config_environ c) ''POLKU_LOG_FORMAT'' = Some (show_log_format (log_format c))"
    by (simp_all add: env_var_def config_environ_def config_wf_def utf8_valid_ascii ascii_text)
  have parsed: "parse_socket_addr (show_socket_addr (grpc_addr c)) = Inr (grpc_addr c)"
    "parse_socket_addr (show_socket_addr (metrics_addr c)) = Inr (metrics_addr c)"
    "parse_usize (show_nat (cfg_buffer_capacity c)) = Inr (cfg_buffer_capacity c)"
    "parse_usize (show_nat (cfg_batch_size c)) = Inr (cfg_batch_size c)"
    using wf by (simp_all only: config_wf_def parse_show_socket_addr parse_usize_show_nat)
  show ?thesis
    by (simp add: config_from_env_eq config_errors_def config_values_def var_error_def value_or_def vars parsed
        parse_u64_show_nat parse_show_log_format map_filter_simps)
qed

text \<open>C30. Every configuration can be asked for: printing the fields of a configuration into the variables and loading
  them gives the configuration back exactly when it is well formed.\<close>

theorem config_env_roundtrip: "config_from_env lower (config_environ c) = Inr c \<longleftrightarrow> config_wf c"
  using config_environ_loads [of c lower] config_from_env_wf [of lower "config_environ c"] by auto

end
