(* ===== verification/Registry.thy ===== *)
theory Registry
  imports Emitters
begin

text \<open>
  The ingestor interface of \<open>gateway/src/ingest/mod.rs\<close> and the plugin registry of
  \<open>gateway/src/registry.rs\<close>. An ingestor is code of its user: a name and a function.
  Emitters are those of the theory \<open>Emitters\<close>, called one after the other on the same world.
\<close>

record IngestContext =
  ctx_source :: string
  ctx_cluster :: string
  ctx_format :: string

record Ingestor =
  ingestor_name :: string
  ingestor_ingest :: "IngestContext \<Rightarrow> bytes \<Rightarrow> PluginError + Event list"

record PluginRegistry =
  ingestors :: "(string, Ingestor) hashmap"
  emitters :: "Emitter list"

definition plugin_registry_new :: PluginRegistry where
  "plugin_registry_new = \<lparr>ingestors = [], emitters = []\<rparr>"

definition register_ingestor :: "string \<Rightarrow> Ingestor \<Rightarrow> PluginRegistry \<Rightarrow> PluginRegistry" where
  "register_ingestor src ingestor self = self\<lparr>ingestors := AList.update src ingestor (ingestors self)\<rparr>"

definition register_emitter :: "Emitter \<Rightarrow> PluginRegistry \<Rightarrow> PluginRegistry" where
  "register_emitter emitter self = self\<lparr>emitters := emitters self @ [emitter]\<rparr>"

definition has_ingestor :: "string \<Rightarrow> PluginRegistry \<Rightarrow> bool" where
  "has_ingestor src self \<longleftrightarrow> map_of (ingestors self) src \<noteq> None"

definition ingestor_count :: "PluginRegistry \<Rightarrow> nat" where
  "ingestor_count self = length (ingestors self)"

definition emitter_count :: "PluginRegistry \<Rightarrow> nat" where
  "emitter_count self = length (emitters self)"

definition registry_ingest :: "IngestContext \<Rightarrow> bytes \<Rightarrow> PluginRegistry \<Rightarrow> PluginError + Event list" where
  "registry_ingest ctx data self =
     (case map_of (ingestors self) (ctx_source ctx) of
        None \<Rightarrow> Inl (Transform_failed (''No ingestor registered for source '' @ [CHR 0x27] @ ctx_source ctx @ [CHR 0x27]))
      | Some ingestor \<Rightarrow> ingestor_ingest ingestor ctx data)"

definition registry_transform :: "IngestContext \<Rightarrow> bytes \<Rightarrow> PluginRegistry \<Rightarrow> PluginError + Event list" where
  "registry_transform ctx data self = registry_ingest ctx data self"

text \<open>The loop of \<open>emit_to_all\<close>, with the number of successes so far.\<close>

fun emit_each :: "'x Env \<Rightarrow> Event list \<Rightarrow> Emitter list \<Rightarrow> nat \<Rightarrow> 'x World \<Rightarrow> nat \<times> 'x World" where
  "emit_each E events [] success_count w = (success_count, w)"
| "emit_each E events (em # ems) success_count w =
     (case emit E em events w of
        (Inr _, w) \<Rightarrow> emit_each E events ems (success_count + 1) w
      | (Inl e, w) \<Rightarrow> emit_each E events ems success_count w)"

definition emit_to_all :: "'x Env \<Rightarrow> Event list \<Rightarrow> PluginRegistry \<Rightarrow> 'x World \<Rightarrow> nat \<times> 'x World" where
  "emit_to_all E events self w =
     (if emitters self = [] then (0, w) else emit_each E events (emitters self) 0 w)"

text \<open>The hash map of \<open>emit_with_routing\<close>: \<open>routed.entry(route).or_default().push(event)\<close>.\<close>

definition route_entry :: "Event \<Rightarrow> string \<Rightarrow> (string \<rightharpoonup> Event list) \<Rightarrow> (string \<rightharpoonup> Event list)" where
  "route_entry event route routed =
     routed(route \<mapsto> (case routed route of None \<Rightarrow> [] | Some es \<Rightarrow> es) @ [event])"

fun split_routes :: "Event list \<Rightarrow> Event list \<Rightarrow> (string \<rightharpoonup> Event list) \<Rightarrow> Event list \<times> (string \<rightharpoonup> Event list)" where
  "split_routes [] all_emitters routed = (all_emitters, routed)"
| "split_routes (event # events) all_emitters routed =
     (if ev_route_to event = [] then split_routes events (all_emitters @ [event]) routed
      else split_routes events all_emitters (fold (route_entry event) (ev_route_to event) routed))"

fun emit_routed :: "'x Env \<Rightarrow> (string \<rightharpoonup> Event list) \<Rightarrow> Emitter list \<Rightarrow> nat \<Rightarrow> 'x World \<Rightarrow> nat \<times> 'x World" where
  "emit_routed E routed [] success_count w = (success_count, w)"
| "emit_routed E routed (em # ems) success_count w =
     (case routed (name_of E em) of
        None \<Rightarrow> emit_routed E routed ems success_count w
      | Some events \<Rightarrow>
          (case emit E em events w of
             (Inr _, w) \<Rightarrow> emit_routed E routed ems (success_count + 1) w
           | (Inl e, w) \<Rightarrow> emit_routed E routed ems success_count w))"

definition emit_with_routing :: "'x Env \<Rightarrow> Event list \<Rightarrow> PluginRegistry \<Rightarrow> 'x World \<Rightarrow> nat \<times> 'x World" where
  "emit_with_routing E events self w =
     (let (all_emitters, routed) = split_routes events [] Map.empty;
          (success_count, w) = (if all_emitters \<noteq> [] then emit_to_all E all_emitters self w else (0, w))
      in emit_routed E routed (emitters self) success_count w)"

text \<open>A later emitter with the same name overwrites the entry of an earlier one.\<close>

fun emitter_health_loop ::
  "'x Env \<Rightarrow> Emitter list \<Rightarrow> (string, bool) hashmap \<Rightarrow> 'x World \<Rightarrow> (string, bool) hashmap \<times> 'x World" where
  "emitter_health_loop E [] h w = (h, w)"
| "emitter_health_loop E (em # ems) h w =
     (case health E em w of (is_healthy, w) \<Rightarrow>
        emitter_health_loop E ems (AList.update (name_of E em) is_healthy h) w)"

definition emitter_health :: "'x Env \<Rightarrow> PluginRegistry \<Rightarrow> 'x World \<Rightarrow> (string, bool) hashmap \<times> 'x World" where
  "emitter_health E self w = emitter_health_loop E (emitters self) [] w"

text \<open>Older names of the same operations.\<close>

definition output_health :: "'x Env \<Rightarrow> PluginRegistry \<Rightarrow> 'x World \<Rightarrow> (string, bool) hashmap \<times> 'x World" where
  "output_health E self w = emitter_health E self w"

definition send_to_outputs :: "'x Env \<Rightarrow> Event list \<Rightarrow> PluginRegistry \<Rightarrow> 'x World \<Rightarrow> nat \<times> 'x World" where
  "send_to_outputs E events self w = emit_to_all E events self w"

fun shutdown_each :: "'x Env \<Rightarrow> Emitter list \<Rightarrow> 'x World \<Rightarrow> 'x World" where
  "shutdown_each E [] w = w"
| "shutdown_each E (em # ems) w = shutdown_each E ems (snd (shutdown E em w))"

definition registry_shutdown :: "'x Env \<Rightarrow> PluginRegistry \<Rightarrow> 'x World \<Rightarrow> plugin_result \<times> 'x World" where
  "registry_shutdown E self w = (Inr (), shutdown_each E (emitters self) w)"

section \<open>Deliveries\<close>

text \<open>
  A plan lists, in order, which emitter (by position) gets which events; following it is one emission
  after the other, whatever the results, counting the successes.
\<close>

type_synonym plan = "(nat \<times> Event list) list"

fun deliver :: "'x Env \<Rightarrow> Emitter list \<Rightarrow> plan \<Rightarrow> 'x World \<Rightarrow> nat \<times> 'x World" where
  "deliver E ems [] w = (0, w)"
| "deliver E ems ((i, events) # p) w =
     (case emit E (ems ! i) events w of (r, w1) \<Rightarrow>
        (case deliver E ems p w1 of (k, w2) \<Rightarrow> ((if is_ok r then 1 else 0) + k, w2)))"

definition received_by :: "nat \<Rightarrow> plan \<Rightarrow> Event list" where
  "received_by i p = concat (map snd (filter (\<lambda>(j, _). j = i) p))"

text \<open>The events addressed to a name, once per mention.\<close>

definition addressed_to :: "string \<Rightarrow> Event list \<Rightarrow> Event list" where
  "addressed_to name events = concat (map (\<lambda>e. replicate (count_list (ev_route_to e) name) e) events)"

definition broadcast :: "Event list \<Rightarrow> Event list" where
  "broadcast events = filter (\<lambda>e. ev_route_to e = []) events"

definition routing_plan :: "'x Env \<Rightarrow> Emitter list \<Rightarrow> Event list \<Rightarrow> plan" where
  "routing_plan E ems events =
     (if broadcast events = [] then [] else map (\<lambda>i. (i, broadcast events)) [0..<length ems]) @
     filter (\<lambda>(_, evs). evs \<noteq> []) (map (\<lambda>i. (i, addressed_to (name_of E (ems ! i)) events)) [0..<length ems])"

lemma deliver_append:
  "deliver E ems (p @ q) w =
     (case deliver E ems p w of (k, w1) \<Rightarrow> (case deliver E ems q w1 of (k', w2) \<Rightarrow> (k + k', w2)))"
  by (induction p arbitrary: w) (auto split: prod.splits)

lemma emit_each_deliver:
  "emit_each E events (drop i ems) k w =
     (case deliver E ems (map (\<lambda>j. (j, events)) [i..<length ems]) w of (n, w1) \<Rightarrow> (k + n, w1))"
proof (induction "length ems - i" arbitrary: i k w)
  case 0
  then show ?case by simp
next
  case (Suc n)
  then have i: "i < length ems" and n: "n = length ems - Suc i" by linarith+
  show ?case
    unfolding Cons_nth_drop_Suc [OF i, symmetric] upt_conv_Cons [OF i]
    using Suc.hyps(1) [OF n] by (auto split: prod.splits sum.splits)
qed

lemma route_entry_other: "route \<noteq> name \<Longrightarrow> route_entry e route routed name = routed name"
  by (simp add: route_entry_def)

lemma fold_route_entry:
  "fold (route_entry e) routes routed name =
     (if name \<in> set routes
      then Some ((case routed name of None \<Rightarrow> [] | Some es \<Rightarrow> es) @ replicate (count_list routes name) e)
      else routed name)"
proof (induction routes arbitrary: routed)
  case (Cons r routes)
  show ?case
  proof (cases "r = name")
    case True
    have "routed' name = Some (old @ [e])" if "routed' = route_entry e name routed"
        "old = (case routed name of None \<Rightarrow> [] | Some es \<Rightarrow> es)" for routed' old
      using that by (simp add: route_entry_def)
    then show ?thesis
      using True by (cases "name \<in> set routes") (simp_all add: Cons.IH count_notin)
  next
    case False
    then show ?thesis by (auto simp: Cons.IH route_entry_other)
  qed
qed simp

lemma split_routes_eq:
  "split_routes events bs routed =
     (bs @ broadcast events,
      \<lambda>name. if addressed_to name events = [] then routed name
              else Some ((case routed name of None \<Rightarrow> [] | Some es \<Rightarrow> es) @ addressed_to name events))"
proof (induction events arbitrary: bs routed)
  case Nil
  then show ?case by (simp add: broadcast_def addressed_to_def)
next
  case (Cons e events)
  have cons: "addressed_to name (e # events) = replicate (count_list (ev_route_to e) name) e @ addressed_to name events" for name
    by (simp add: addressed_to_def)
  have zero: "count_list (ev_route_to e) name = 0 \<longleftrightarrow> name \<notin> set (ev_route_to e)" for name
    by (rule count_list_0_iff)
  show ?case
  proof (cases "ev_route_to e = []")
    case True
    then have "addressed_to name (e # events) = addressed_to name events" for name by (simp add: cons)
    with True show ?thesis by (simp add: Cons.IH broadcast_def fun_eq_iff)
  next
    case False
    then show ?thesis
      by (auto simp: Cons.IH cons broadcast_def fold_route_entry fun_eq_iff zero split: option.splits)
  qed
qed

lemma split_routes_start:
  "split_routes events [] Map.empty =
     (broadcast events, \<lambda>name. if addressed_to name events = [] then None else Some (addressed_to name events))"
  by (simp add: split_routes_eq fun_eq_iff)

lemma emit_routed_deliver:
  assumes "\<And>name. routed name = (if f name = [] then None else Some (f name))"
  shows "emit_routed E routed (drop i ems) k w =
     (case deliver E ems (filter (\<lambda>(_, evs). evs \<noteq> []) (map (\<lambda>j. (j, f (name_of E (ems ! j)))) [i..<length ems])) w
      of (n, w1) \<Rightarrow> (k + n, w1))"
proof (induction "length ems - i" arbitrary: i k w)
  case 0
  then show ?case by simp
next
  case (Suc n)
  then have i: "i < length ems" and n: "n = length ems - Suc i" by linarith+
  show ?case
    unfolding Cons_nth_drop_Suc [OF i, symmetric] upt_conv_Cons [OF i]
    using Suc.hyps(1) [OF n] by (auto simp: assms split: prod.splits sum.splits)
qed

lemma emit_with_routing_deliver:
  "emit_with_routing E events self w = deliver E (emitters self) (routing_plan E (emitters self) events) w"
proof -
  let ?ems = "emitters self" and ?routed = "\<lambda>name. if addressed_to name events = [] then None else Some (addressed_to name events)"
  have all: "emit_to_all E bs self w = deliver E ?ems (map (\<lambda>j. (j, bs)) [0..<length ?ems]) w" for bs
    using emit_each_deliver [of E bs 0 ?ems 0 w] by (simp add: emit_to_all_def)
  have routed: "emit_routed E ?routed ?ems k w =
      (case deliver E ?ems (filter (\<lambda>(_, evs). evs \<noteq> []) (map (\<lambda>j. (j, addressed_to (name_of E (?ems ! j)) events)) [0..<length ?ems])) w
       of (n, w1) \<Rightarrow> (k + n, w1))" for k w
    using emit_routed_deliver [of ?routed "\<lambda>name. addressed_to name events" E 0 ?ems k w] by simp
  show ?thesis
    by (simp add: emit_with_routing_def split_routes_start routed all routing_plan_def deliver_append split: prod.splits)
qed

lemma received_by_append [simp]: "received_by i (p @ q) = received_by i p @ received_by i q"
  by (simp add: received_by_def)

lemma received_by_map:
  "i < n \<Longrightarrow> received_by i (map (\<lambda>j. (j, f j)) [0..<n]) = f i"
proof (induction n)
  case (Suc n)
  have "received_by i (map (\<lambda>j. (j, f j)) [0..<n]) = []" if "i \<ge> n"
    using that by (auto simp: received_by_def filter_empty_conv)
  with Suc show ?case by (cases "i = n") (simp_all add: received_by_def)
qed simp

lemma received_by_nonempty: "received_by i (filter (\<lambda>(_, evs). evs \<noteq> []) p) = received_by i p"
  by (induction p) (auto simp: received_by_def)

lemma received_by_plan:
  assumes "i < length ems"
  shows "received_by i (routing_plan E ems events) = broadcast events @ addressed_to (name_of E (ems ! i)) events"
  using received_by_map [OF assms] by (simp add: routing_plan_def received_by_nonempty received_by_def [of _ "[]"])

lemma count_addressed_to:
  "count_list (addressed_to name events) e = count_list events e * count_list (ev_route_to e) name"
proof -
  have "count_list (replicate n x) y = (if x = y then n else 0)" for n and x y :: Event
    by (induction n) auto
  then show ?thesis by (induction events) (auto simp: addressed_to_def)
qed

lemma count_broadcast: "count_list (broadcast events) e = (if ev_route_to e = [] then count_list events e else 0)"
  by (induction events) (auto simp: broadcast_def)

text \<open>C31. Routed emission makes every delivery and no other: it emits in order and
  regardless of failures, returns the number of successful emissions, and each emitter receives
  each event with no routes once, and each event with routes as often as its routes name the emitter. An
  event that names an emitter twice is delivered to it twice.\<close>

theorem emit_with_routing_deliveries:
  "emit_with_routing E events self w = deliver E (emitters self) (routing_plan E (emitters self) events) w \<and>
   (\<forall>i<length (emitters self). \<forall>e.
      count_list (received_by i (routing_plan E (emitters self) events)) e =
        count_list events e *
        (if ev_route_to e = [] then 1 else count_list (ev_route_to e) (name_of E (emitters self ! i))))"
  by (simp add: emit_with_routing_deliver received_by_plan count_addressed_to count_broadcast)

text \<open>A closed instance: the event names the only emitter twice and is delivered to it twice.\<close>

theorem emit_with_routing_deliveries_witness:
  "\<exists>E :: nat Env. let self = register_emitter (Leaf 0) plugin_registry_new;
     e = event_from_message (with_routes (sample_message ''m'') [''out'', ''out'']) in
   count_list (received_by 0 (routing_plan E (emitters self) [e])) e = 2"
proof -
  let ?leaf = "\<lparr>leaf_name = ''out'', leaf_emit = (\<lambda>evs t x. (Inr (), 0, x)), leaf_health = (\<lambda>t x. (True, 0, x)),
    leaf_shutdown = (\<lambda>t x. (Inr (), 0, x))\<rparr>"
  let ?E = "\<lparr>round_f64 = (\<lambda>x. x), powi_f64 = (\<lambda>x n. x), leaves = (\<lambda>_. ?leaf)\<rparr> :: nat Env"
  let ?self = "register_emitter (Leaf 0) plugin_registry_new"
  let ?e = "event_from_message (with_routes (sample_message ''m'') [''out'', ''out''])"
  have "length (emitters ?self) = 1" "emitters ?self ! 0 = Leaf 0"
    by (simp_all add: register_emitter_def plugin_registry_new_def)
  then show ?thesis
    using emit_with_routing_deliveries [of ?E "[?e]" ?self]
    by (intro exI [of _ ?E]) (simp add: Let_def with_routes_def)
qed

end
