(* ===== verification/Gateway_Server.thy ===== *)
theory Gateway_Server
  imports Ring_Buffer Registry
begin

text \<open>
  The gRPC service of \<open>gateway/src/server.rs\<close>. The service shares its buffer with the rest of the
  program; a handler here runs without others between its steps. What a handler
  returns to the client is \<open>status + Ack\<close>. \<open>stream_events\<close> is the loop of the task it spawns: the
  batches that the stream yields before it ends, each with whether the client still listens when the answer is sent; the task itself is in \<open>Stream_Task\<close>.
\<close>

record GatewayService =
  svc_buffer :: RingBuffer
  svc_registry :: PluginRegistry
  start_time :: nat
  events_processed :: u64

definition gateway_service_new :: "nat \<Rightarrow> RingBuffer \<Rightarrow> GatewayService" where
  "gateway_service_new t buffer =
     \<lparr>svc_buffer = buffer, svc_registry = plugin_registry_new, start_time = t, events_processed = 0\<rparr>"

definition gateway_service_with_registry :: "nat \<Rightarrow> RingBuffer \<Rightarrow> PluginRegistry \<Rightarrow> GatewayService" where
  "gateway_service_with_registry t buffer registry =
     \<lparr>svc_buffer = buffer, svc_registry = registry, start_time = t, events_processed = 0\<rparr>"

definition transform_failed_text :: "string \<Rightarrow> PluginError \<Rightarrow> string" where
  "transform_failed_text src e =
     ''Transform failed for source '' @ [CHR 0x27] @ src @ [CHR 0x27] @ '': '' @ plugin_error_to_string e"

definition process_event :: "IngestEvent \<Rightarrow> GatewayService \<Rightarrow> status + Event" where
  "process_event ingest self =
     (case ie_payload ingest of
        Some (Event_Event event) \<Rightarrow> Inr event
      | Some (Event_Raw data) \<Rightarrow>
          let ctx = \<lparr>ctx_source = ie_source ingest, ctx_cluster = ie_cluster ingest, ctx_format = ie_format ingest\<rparr> in
          (case registry_transform ctx data (svc_registry self) of
             Inr events \<Rightarrow>
               (case events of
                  [] \<Rightarrow> Inl (mk_status InvalidArgument ''Transform produced no events'')
                | event # _ \<Rightarrow> Inr event)
           | Inl e \<Rightarrow> Inl (mk_status Unimplemented (transform_failed_text (ie_source ingest) e)))
      | None \<Rightarrow> Inl (mk_status InvalidArgument ''Event payload is empty''))"

definition make_ack :: "string list \<Rightarrow> RingBuffer \<Rightarrow> Ack" where
  "make_ack ids buffer =
     \<lparr>event_ids = ids, errors = [], ack_buffer_size = of_nat (ring_buffer_len buffer),
      ack_buffer_capacity = of_nat (rb_capacity buffer)\<rparr>"

definition send_event :: "IngestEvent \<Rightarrow> GatewayService \<Rightarrow> (status + Ack) \<times> GatewayService" where
  "send_event ingest self =
     (case process_event ingest self of
        Inl status \<Rightarrow> (Inl status, self)
      | Inr event \<Rightarrow>
          let (dropped, buffer) = ring_buffer_push [message_from_event event] (svc_buffer self);
              self = self\<lparr>svc_buffer := buffer\<rparr>
          in if dropped > 0 then (Inl (mk_status ResourceExhausted ''Buffer full, event dropped''), self)
             else (Inr (make_ack [ev_id event] buffer),
                   self\<lparr>events_processed := events_processed self + 1\<rparr>))"

definition process_batch_with_registry :: "IngestBatch \<Rightarrow> PluginRegistry \<Rightarrow> status + Event list" where
  "process_batch_with_registry batch registry =
     (case batch_body batch of
        Some (Batch_Events p) \<Rightarrow> Inr (payload_events p)
      | Some (Batch_Raw p) \<Rightarrow>
          let ctx = \<lparr>ctx_source = batch_source batch, ctx_cluster = batch_cluster batch, ctx_format = raw_format p\<rparr> in
          (case registry_transform ctx (raw_data p) registry of
             Inr events \<Rightarrow> Inr events
           | Inl e \<Rightarrow> Inl (mk_status Unimplemented (transform_failed_text (batch_source batch) e)))
      | None \<Rightarrow> Inr [])"

text \<open>One round of the streaming loop, up to the sending of its answer.\<close>

definition stream_batch :: "IngestBatch \<Rightarrow> GatewayService \<Rightarrow> (status + Ack) \<times> GatewayService" where
  "stream_batch batch self =
     (case process_batch_with_registry batch (svc_registry self) of
        Inl status \<Rightarrow> (Inl status, self)
      | Inr events \<Rightarrow>
          if events = [] then (Inr (make_ack [] (svc_buffer self)), self)
          else
            let buffer = rb_put (map message_from_event events) (svc_buffer self)
            in (Inr (make_ack (map ev_id events) buffer),
                self\<lparr>svc_buffer := buffer,
                     events_processed := events_processed self + of_nat (length events)\<rparr>))"

text \<open>
  The loop: an acknowledgement that cannot be sent ends it; a status that cannot be sent is ignored. The answers
  are those handed to the response stream while it is open; what the client reads of them is in \<open>Grpc_Wire\<close>.
\<close>

fun stream_events :: "(IngestBatch \<times> bool) list \<Rightarrow> GatewayService \<Rightarrow> (status + Ack) list \<times> GatewayService" where
  "stream_events [] self = ([], self)"
| "stream_events ((batch, listening) # stream) self =
     (case stream_batch batch self of (answer, self) \<Rightarrow>
        if \<not> listening \<and> is_ok answer then ([], self)
        else (case stream_events stream self of (answers, self) \<Rightarrow>
                ((if listening then [answer] else []) @ answers, self)))"

definition output_component :: "bool \<Rightarrow> ComponentHealth" where
  "output_component healthy =
     \<lparr>component_healthy = healthy, component_message = (if healthy then ''OK'' else ''Unhealthy'')\<rparr>"

definition server_health :: "'x Env \<Rightarrow> GatewayService \<Rightarrow> 'x World \<Rightarrow> HealthResponse \<times> 'x World" where
  "server_health E self w =
     (let buffer_health = \<lparr>component_healthy = \<not> ring_buffer_is_full (svc_buffer self),
            component_message = ''Buffer: '' @ show_nat (ring_buffer_len (svc_buffer self)) @ ''/'' @
              show_nat (rb_capacity (svc_buffer self))\<rparr>;
          (out_health, w1) = output_health E (svc_registry self) w;
          comps = fold (\<lambda>(name, healthy) comps. comps(''output:'' @ name \<mapsto> output_component healthy))
            out_health [''buffer'' \<mapsto> buffer_health]
      in (\<lparr>resp_healthy = True, components = comps,
           uptime_seconds = of_nat ((time_now w1 - start_time self) div 10 ^ 9),
           resp_events_processed = events_processed self\<rparr>, w1))"

section \<open>The unary call\<close>

lemma process_event_buffer: "process_event ingest (self\<lparr>svc_buffer := b\<rparr>) = process_event ingest self"
  by (simp add: process_event_def split: option.splits event_payload.splits)

text \<open>C32. What a unary call does: a call whose event cannot be made changes nothing and returns the
  reason; otherwise the event is stored as the newest message of the buffer. The call succeeds exactly when the buffer had
  room. When it had not, the client is told that its event was dropped, though it is the oldest
  message that was, and the event is delivered all the same: a client that sends it again sends it twice.\<close>

theorem send_event_stores:
  assumes "rb_wf (svc_buffer self)"
  shows "case process_event ingest self of
      Inl status \<Rightarrow> send_event ingest self = (Inl status, self)
    | Inr event \<Rightarrow> (\<exists>answer self'. send_event ingest self = (answer, self') \<and>
        (let b = svc_buffer self; full = ring_buffer_is_full b in
         messages (svc_buffer self') = (if full then tl (messages b) else messages b) @ [message_from_event event] \<and>
         (if full then answer = Inl (mk_status ResourceExhausted ''Buffer full, event dropped'') \<and>
                       events_processed self' = events_processed self
          else answer = Inr (make_ack [ev_id event] (svc_buffer self')) \<and>
               events_processed self' = events_processed self + 1)))"
proof (cases "process_event ingest self")
  case (Inl status)
  then show ?thesis by (simp add: send_event_def)
next
  case (Inr event)
  let ?b = "svc_buffer self" and ?m = "[message_from_event event]"
  have len: "length (messages ?b) \<le> rb_capacity ?b" "0 < rb_capacity ?b"
    using assms by (simp_all add: rb_wf_def)
  note msgs = messages_push_one [OF assms, of "message_from_event event"]
  have drops: "fst (ring_buffer_push ?m ?b) > 0 \<longleftrightarrow> ring_buffer_is_full ?b"
    using dropped_push [OF assms, of ?m] len by (auto simp: ring_buffer_is_full_def)
  show ?thesis
    using Inr msgs drops by (auto simp: send_event_def Let_def case_prod_beta)
qed

theorem send_event_stores_witness:
  "let svc = gateway_service_new 0 (rb_put [sample_message ''old''] (ring_buffer_new 1));
       ingest = \<lparr>ie_source = ''s'', ie_cluster = ''c'', ie_format = [],
         ie_payload = Some (Event_Event (event_from_message (sample_message ''new'')))\<rparr>
   in \<exists>self'. send_event ingest svc = (Inl (mk_status ResourceExhausted ''Buffer full, event dropped''), self') \<and>
      messages (svc_buffer self') = [sample_message ''new'']"
proof -
  let ?b = "rb_put [sample_message ''old''] (ring_buffer_new 1)"
  let ?svc = "gateway_service_new 0 ?b"
  let ?ingest = "\<lparr>ie_source = ''s'', ie_cluster = ''c'', ie_format = [],
         ie_payload = Some (Event_Event (event_from_message (sample_message ''new'')))\<rparr>"
  have b: "svc_buffer ?svc = ?b" "rb_wf ?b" by (simp_all add: gateway_service_new_def)
  have full: "ring_buffer_is_full ?b" "messages ?b = [sample_message ''old'']"
    by (simp_all add: ring_buffer_is_full_def ring_buffer_push_def ring_buffer_new_def)
  have "process_event ?ingest ?svc = Inr (event_from_message (sample_message ''new''))"
    by (simp add: process_event_def)
  then show ?thesis
    using send_event_stores [of ?svc ?ingest] b full by (auto simp: Let_def)
qed

section \<open>Streams\<close>

definition batch_events :: "PluginRegistry \<Rightarrow> IngestBatch \<Rightarrow> Event list" where
  "batch_events registry batch =
     (case process_batch_with_registry batch registry of Inl _ \<Rightarrow> [] | Inr events \<Rightarrow> events)"

text \<open>The answer that fits a batch.\<close>

definition answers_batch :: "GatewayService \<Rightarrow> IngestBatch \<Rightarrow> status + Ack \<Rightarrow> bool" where
  "answers_batch self batch answer \<longleftrightarrow>
     (case process_batch_with_registry batch (svc_registry self) of
        Inl status \<Rightarrow> answer = Inl status
      | Inr events \<Rightarrow> (\<exists>b. rb_capacity b = rb_capacity (svc_buffer self) \<and> answer = Inr (make_ack (map ev_id events) b)))"

lemma rb_put_Nil: "rb_wf b \<Longrightarrow> messages (rb_put [] b) = messages b"
  by (simp add: messages_push rb_wf_def)

lemma stream_batch_spec:
  assumes wf: "rb_wf (svc_buffer self)" and step: "stream_batch batch self = (answer, self')"
  shows "rb_wf (svc_buffer self')" and "svc_registry self' = svc_registry self"
    and "rb_capacity (svc_buffer self') = rb_capacity (svc_buffer self)"
    and "messages (svc_buffer self') =
      messages (rb_put (map message_from_event (batch_events (svc_registry self) batch)) (svc_buffer self))"
    and "events_processed self' = events_processed self + of_nat (length (batch_events (svc_registry self) batch))"
    and "answers_batch self batch answer"
  using assms
  by (auto simp: stream_batch_def batch_events_def answers_batch_def rb_put_Nil Let_def
      split: sum.splits if_splits intro: exI [of _ "svc_buffer self"] exI [of _ "svc_buffer self'"])

lemma messages_put_cong:
  "messages b = messages b' \<Longrightarrow> rb_capacity b = rb_capacity b' \<Longrightarrow> rb_wf b \<Longrightarrow>
   messages (rb_put ms b) = messages (rb_put ms b')"
  by (simp add: messages_push rb_wf_def del: drop_append)

text \<open>What a stream leaves behind: the loop handles a prefix of the batches, at least those at whose answers the client still listens. The buffer then
  holds the newest messages of what it held before followed by the events of those batches, in order, and the counter has grown by
  their number. A stream that is listened to is handed one answer per batch, in order: the status of a batch that could not be read, or
  an acknowledgement of all its events by identifier, with no errors even when the buffer had to drop messages.\<close>

theorem stream_events_effect:
  assumes "rb_wf (svc_buffer self)" and "stream_events stream self = (answers, self')"
  shows "\<exists>n\<le>length stream. (let events = concat (map (\<lambda>b. batch_events (svc_registry self) (fst b)) (take n stream)) in
      messages (svc_buffer self') = messages (rb_put (map message_from_event events) (svc_buffer self)) \<and>
      events_processed self' = events_processed self + of_nat (length events)) \<and>
    (\<forall>j\<le>length stream. (\<forall>m<j. snd (stream ! m)) \<longrightarrow> j \<le> n) \<and>
    (list_all snd stream \<longrightarrow> n = length stream \<and>
      list_all2 (answers_batch self) (map fst stream) answers)"
  using assms
proof (induction stream arbitrary: self answers)
  case Nil
  then show ?case by (simp add: rb_put_Nil)
next
  case (Cons bl stream)
  obtain batch listening where bl: "bl = (batch, listening)" by fastforce
  obtain answer self1 where step: "stream_batch batch self = (answer, self1)" by fastforce
  note spec = stream_batch_spec [OF Cons.prems(1) step]
  show ?case
  proof (cases "\<not> listening \<and> is_ok answer")
    case True
    then have "self' = self1" using Cons.prems(2) by (simp add: bl step)
    moreover have "j \<le> Suc 0" if "\<forall>m<j. snd (((batch, listening) # stream) ! m)" for j
      using that [rule_format, of 0] True by (cases j) auto
    ultimately show ?thesis using True spec by (intro exI [of _ "Suc 0"]) (simp add: bl)
  next
    case False
    obtain answers1 where rest: "stream_events stream self1 = (answers1, self')"
      and answers: "answers = (if listening then [answer] else []) @ answers1"
      using Cons.prems(2) False by (auto simp: bl step split: prod.splits)
    let ?ev = "\<lambda>n. concat (map (\<lambda>b. batch_events (svc_registry self) (fst b)) (take n stream))"
    let ?head = "batch_events (svc_registry self) batch"
    obtain n where n: "n \<le> length stream"
      "messages (svc_buffer self') = messages (rb_put (map message_from_event (?ev n)) (svc_buffer self1))"
      "events_processed self' = events_processed self1 + of_nat (length (?ev n))"
      "\<forall>j\<le>length stream. (\<forall>m<j. snd (stream ! m)) \<longrightarrow> j \<le> n"
      "list_all snd stream \<longrightarrow> n = length stream \<and> list_all2 (answers_batch self1) (map fst stream) answers1"
      using Cons.IH [OF spec(1) rest] unfolding spec(2) Let_def by blast
    have "answers_batch self1 = answers_batch self"
      by (intro ext) (simp only: answers_batch_def spec(2,3))
    moreover have "messages (svc_buffer self') =
        messages (rb_put (map message_from_event (?head @ ?ev n)) (svc_buffer self))"
      using n(2) messages_put_cong [of "svc_buffer self1" "rb_put (map message_from_event ?head) (svc_buffer self)"]
        spec(1,3,4) messages_push_push [OF Cons.prems(1)] by simp
    moreover have "j \<le> Suc n" if "j \<le> Suc (length stream)" "\<forall>m<j. snd ((bl # stream) ! m)" for j
    proof (cases j)
      case (Suc i)
      have "snd (stream ! m)" if "m < i" for m
        using \<open>\<forall>m<j. snd ((bl # stream) ! m)\<close> [rule_format, of "Suc m"] that Suc by simp
      with n(4) Suc \<open>j \<le> Suc (length stream)\<close> show ?thesis by simp
    qed simp
    ultimately show ?thesis
      using n spec(5,6) answers by (intro exI [of _ "Suc n"]) (simp add: bl Let_def algebra_simps)
  qed
qed

theorem stream_events_effect_witness:
  "let svc = gateway_service_new 0 (ring_buffer_new 10);
       batch = \<lparr>batch_source = ''s'', batch_cluster = ''c'',
         batch_body = Some (Batch_Events \<lparr>payload_events = [event_from_message (sample_message ''a'')]\<rparr>)\<rparr>
   in messages (svc_buffer (snd (stream_events [(batch, True)] svc))) =
        messages (rb_put [sample_message ''a''] (ring_buffer_new 10)) \<and>
      events_processed (snd (stream_events [(batch, True)] svc)) = 1"
proof -
  let ?svc = "gateway_service_new 0 (ring_buffer_new 10)"
  let ?batch = "\<lparr>batch_source = ''s'', batch_cluster = ''c'',
         batch_body = Some (Batch_Events \<lparr>payload_events = [event_from_message (sample_message ''a'')]\<rparr>)\<rparr>"
  obtain answers self' where run: "stream_events [(?batch, True)] ?svc = (answers, self')" by fastforce
  have svc: "rb_wf (svc_buffer ?svc)" "svc_buffer ?svc = ring_buffer_new 10" "events_processed ?svc = 0"
    by (simp_all add: gateway_service_new_def)
  have "batch_events (svc_registry ?svc) ?batch = [event_from_message (sample_message ''a'')]"
    by (simp add: batch_events_def process_batch_with_registry_def)
  then have "messages (svc_buffer self') = messages (rb_put [sample_message ''a''] (ring_buffer_new 10)) \<and>
      events_processed self' = 1"
    using stream_events_effect [OF svc(1) run] svc(2,3) by (auto simp: Let_def)
  with run show ?thesis by (simp add: Let_def del: stream_events.simps)
qed

end
