(* ===== verification/Stdout_Emitter.thy ===== *)
theory Stdout_Emitter
  imports Emitters
begin

text \<open>
  The console destination of \<open>gateway/src/emit/stdout.rs\<close>, as a leaf of the emitter tree. The stream behind it is a state with an
  operation that writes one line; whether a write succeeds is ignored by the code. The \<open>Debug\<close> form
  of a string, which depends on Unicode tables, and the order in which a hash map lists its entries are parameters. Printing
  takes no time on the clock of the model.
\<close>

record 'o Console =
  write_line :: "bytes \<Rightarrow> 'o \<Rightarrow> 'o"
  debug_str :: "string \<Rightarrow> string"
  map_entries :: "(string \<rightharpoonup> string) \<Rightarrow> (string \<times> string) list"

record 'o StdoutEmitter =
  pretty :: bool
  emitted :: u64
  console :: 'o

definition stdout_emitter_new :: "'o \<Rightarrow> 'o StdoutEmitter" where
  "stdout_emitter_new out = \<lparr>pretty = False, emitted = 0, console = out\<rparr>"

definition stdout_emitter_pretty :: "'o \<Rightarrow> 'o StdoutEmitter" where
  "stdout_emitter_pretty out = \<lparr>pretty = True, emitted = 0, console = out\<rparr>"

definition emitted_count :: "'o StdoutEmitter \<Rightarrow> u64" where
  "emitted_count self = emitted self"

section \<open>Rendering\<close>

definition show_i64 :: "i64 \<Rightarrow> string" where
  "show_i64 n = (if sint n < 0 then CHR ''-'' # show_nat (nat (- sint n)) else show_nat (nat (sint n)))"

definition separated :: "string list \<Rightarrow> string" where
  "separated ts = (case ts of [] \<Rightarrow> [] | t # ts \<Rightarrow> t @ concat (map (\<lambda>t. '', '' @ t) ts))"

definition debug_list :: "'o Console \<Rightarrow> string list \<Rightarrow> string" where
  "debug_list C ts = ''['' @ separated (map (debug_str C) ts) @ '']''"

definition debug_entries :: "'o Console \<Rightarrow> (string \<times> string) list \<Rightarrow> string" where
  "debug_entries C es =
     CHR 0x7B # separated (map (\<lambda>(k, v). debug_str C k @ '': '' @ debug_str C v) es) @ [CHR 0x7D]"

text \<open>The box-drawing characters in UTF-8: corners, bar and dash.\<close>

abbreviation dash :: string where
  "dash \<equiv> [CHR 0xE2, CHR 0x94, CHR 0x80]"

abbreviation bar :: string where
  "bar \<equiv> [CHR 0xE2, CHR 0x94, CHR 0x82]"

definition top_line :: string where
  "top_line = [CHR 0xE2, CHR 0x94, CHR 0x8C] @ dash @ '' Event '' @ concat (replicate 45 dash)"

definition bottom_line :: string where
  "bottom_line = [CHR 0xE2, CHR 0x94, CHR 0x94] @ concat (replicate 53 dash)"

definition pretty_lines :: "'o Console \<Rightarrow> Event \<Rightarrow> string list" where
  "pretty_lines C event =
     (let entries = map_entries C (ev_metadata event) in
      [top_line,
       bar @ '' ID:        '' @ ev_id event,
       bar @ '' Source:    '' @ ev_source event,
       bar @ '' Type:      '' @ event_type event,
       bar @ '' Timestamp: '' @ show_i64 (timestamp_unix_ns event) @ '' ns''] @
      (if entries \<noteq> [] then [bar @ '' Metadata:  '' @ debug_entries C entries] else []) @
      [bar @ '' Payload:   '' @ show_nat (length (ev_payload event)) @ '' bytes''] @
      (if ev_route_to event \<noteq> [] then [bar @ '' Route to:  '' @ debug_list C (ev_route_to event)] else []) @
      [bottom_line])"

definition plain_line :: "Event \<Rightarrow> string" where
  "plain_line event =
     ''['' @ ev_source event @ ''] '' @ event_type event @ '':'' @ ev_id event @
     '' ('' @ show_nat (length (ev_payload event)) @ '' bytes)''"

definition event_lines :: "'o Console \<Rightarrow> bool \<Rightarrow> Event \<Rightarrow> string list" where
  "event_lines C p event = (if p then pretty_lines C event else [plain_line event])"

section \<open>The emitter\<close>

fun print_events :: "'o Console \<Rightarrow> bool \<Rightarrow> Event list \<Rightarrow> 'o \<Rightarrow> 'o" where
  "print_events C p [] out = out"
| "print_events C p (event # events) out =
     print_events C p events (fold (write_line C) (event_lines C p event) out)"

definition stdout_emit :: "'o Console \<Rightarrow> Event list \<Rightarrow> 'o StdoutEmitter \<Rightarrow> plugin_result \<times> 'o StdoutEmitter" where
  "stdout_emit C events self =
     (Inr (), self\<lparr>console := print_events C (pretty self) events (console self),
                   emitted := emitted self + of_nat (length events)\<rparr>)"

definition stdout_health :: "'o StdoutEmitter \<Rightarrow> bool" where
  "stdout_health self = True"

text \<open>The leaf, where the emitter is a part of the state of the destinations; its shutdown is the default of the trait.\<close>

definition stdout_leaf ::
    "'o Console \<Rightarrow> ('x \<Rightarrow> 'o StdoutEmitter) \<Rightarrow> ('o StdoutEmitter \<Rightarrow> 'x \<Rightarrow> 'x) \<Rightarrow> 'x leaf" where
  "stdout_leaf C get put =
     \<lparr>leaf_name = ''stdout'',
      leaf_emit = (\<lambda>events t x. case stdout_emit C events (get x) of (r, self) \<Rightarrow> (r, 0, put self x)),
      leaf_health = (\<lambda>t x. (stdout_health (get x), 0, x)),
      leaf_shutdown = (\<lambda>t x. (Inr (), 0, x))\<rparr>"

section \<open>What reaches the console\<close>

lemma print_events_eq: "print_events C p events out = fold (write_line C) (concat (map (event_lines C p) events)) out"
  by (induction events arbitrary: out) simp_all

text \<open>A run of emissions, one after the other.\<close>

fun stdout_run :: "'o Console \<Rightarrow> Event list list \<Rightarrow> 'o StdoutEmitter \<Rightarrow> 'o StdoutEmitter" where
  "stdout_run C [] self = self"
| "stdout_run C (events # batches) self = stdout_run C batches (snd (stdout_emit C events self))"

lemma stdout_run_effect:
  "emitted_count (stdout_run C batches self) = emitted_count self + of_nat (length (concat batches)) \<and>
   console (stdout_run C batches self) =
     fold (write_line C) (concat (map (event_lines C (pretty self)) (concat batches))) (console self)"
  by (induction batches arbitrary: self) (simp_all add: emitted_count_def stdout_emit_def print_events_eq)

end
