(* ===== verification/Gateway_Main.thy ===== *)
theory Gateway_Main
  imports Config Gateway_Server Stdout_Emitter
begin

text \<open>
  The program of \<open>gateway/src/main.rs\<close>: loading the configuration, building the buffer, the registry with the console emitter, and
  the service, serving requests until a signal, and the shutdown. The server of \<open>tonic\<close> is the step relation \<open>main_step\<close>: it
  runs the handlers of \<open>Gateway_Server\<close>, one step each (a round of an open stream is one step), also for requests still in flight after
  the signal. Binding the address is the parameter \<open>bind\<close>; signals and the installation of their handlers are events.
  The last field of the state remembers the events that the handlers stored. The memory that the buffer reserves for its capacity is assumed to be
  there: a capacity beyond the memory of the machine aborts the program before it serves.
\<close>

datatype phase = Serving | Draining | Stopped

record 'o Gateway =
  service :: GatewayService
  gw_world :: "'o StdoutEmitter World"
  gw_phase :: phase
  stored :: "Event list"

datatype main_error = Config_failed PolkuError | Serve_failed string

text \<open>The environment of the emitters: the console emitter is the only destination.\<close>

definition main_env :: "(real \<Rightarrow> real) \<Rightarrow> (f64 \<Rightarrow> int \<Rightarrow> f64) \<Rightarrow> 'o Console \<Rightarrow> 'o StdoutEmitter Env" where
  "main_env rnd pw C =
     \<lparr>round_f64 = rnd, powi_f64 = pw, leaves = (\<lambda>_. stdout_leaf C (\<lambda>x. x) (\<lambda>self x. self))\<rparr>"

definition main_registry :: PluginRegistry where
  "main_registry = register_emitter (Leaf 0) plugin_registry_new"

definition gateway_main ::
    "(string \<Rightarrow> string) \<Rightarrow> environment \<Rightarrow> (SocketAddr \<Rightarrow> string option) \<Rightarrow> 'o \<Rightarrow> 'o StdoutEmitter World \<Rightarrow> main_error + 'o Gateway" where
  "gateway_main lower environ bind out w =
     (case config_from_env lower environ of
        Inl e \<Rightarrow> Inl (Config_failed e)
      | Inr config \<Rightarrow>
          let buffer = ring_buffer_new (cfg_buffer_capacity config);
              service = gateway_service_with_registry (time_now w) buffer main_registry
          in (case bind (grpc_addr config) of
                Some e \<Rightarrow> Inl (Serve_failed e)
              | None \<Rightarrow> Inr
                  \<lparr>service = service,
                   gw_world = w\<lparr>backend := stdout_emitter_pretty out\<rparr>,
                   gw_phase = Serving, stored = []\<rparr>))"

text \<open>
  What \<open>shutdown_signal\<close> waits for. A Ctrl+C handler that cannot be installed completes its branch at once; a
  SIGTERM handler that cannot be installed leaves its branch pending for ever.
\<close>

datatype signal_event = Ctrl_c | Ctrl_c_not_installed | Sigterm | Sigterm_not_installed

fun shutdown_triggered :: "signal_event \<Rightarrow> bool" where
  "shutdown_triggered Ctrl_c = True"
| "shutdown_triggered Ctrl_c_not_installed = True"
| "shutdown_triggered Sigterm = True"
| "shutdown_triggered Sigterm_not_installed = False"

definition shutdown_signal :: "'x Env \<Rightarrow> signal_event \<Rightarrow> PluginRegistry \<Rightarrow> 'x World \<Rightarrow> 'x World option" where
  "shutdown_signal E ev registry w =
     (if shutdown_triggered ev then Some (snd (registry_shutdown E registry w)) else None)"

inductive main_step :: "'o StdoutEmitter Env \<Rightarrow> 'o Gateway \<Rightarrow> 'o Gateway \<Rightarrow> bool"
  for E :: "'o StdoutEmitter Env" where
  unary: "gw_phase s \<noteq> Stopped \<Longrightarrow> send_event ingest (service s) = (answer, svc) \<Longrightarrow>
    main_step E s (s\<lparr>service := svc,
      stored := stored s @ (case process_event ingest (service s) of Inl _ \<Rightarrow> [] | Inr event \<Rightarrow> [event])\<rparr>)"
| stream: "gw_phase s \<noteq> Stopped \<Longrightarrow> stream_batch batch (service s) = (answer, svc) \<Longrightarrow>
    main_step E s (s\<lparr>service := svc, stored := stored s @ batch_events (svc_registry (service s)) batch\<rparr>)"
| health: "gw_phase s \<noteq> Stopped \<Longrightarrow> server_health E (service s) (gw_world s) = (response, w) \<Longrightarrow>
    main_step E s (s\<lparr>gw_world := w\<rparr>)"
| tick: "main_step E s (s\<lparr>gw_world := (gw_world s)\<lparr>time_now := time_now (gw_world s) + dt\<rparr>\<rparr>)"
| signal: "gw_phase s = Serving \<Longrightarrow> shutdown_signal E ev (svc_registry (service s)) (gw_world s) = Some w \<Longrightarrow>
    main_step E s (s\<lparr>gw_world := w, gw_phase := Draining\<rparr>)"
| stop: "gw_phase s = Draining \<Longrightarrow> main_step E s (s\<lparr>gw_phase := Stopped\<rparr>)"

inductive_cases main_stepE: "main_step E s t"

section \<open>What the program does with the events\<close>

lemma full_push:
  "ring_buffer_is_full b \<Longrightarrow> ring_buffer_is_full (rb_put ms b)"
proof -
  have "cap \<le> length q \<Longrightarrow> cap \<le> length (fst (evict_push cap q d ms))" for cap and q :: "Message list" and d
    by (induction ms arbitrary: q d) auto
  then show "ring_buffer_is_full b \<Longrightarrow> ring_buffer_is_full (rb_put ms b)"
    by (simp add: ring_buffer_is_full_def ring_buffer_push_def case_prod_beta Let_def)
qed

text \<open>The events handed to the buffer by one handler.\<close>

lemma send_event_put:
  "send_event ingest svc = (answer, svc') \<Longrightarrow>
   svc_buffer svc' = (case process_event ingest svc of Inl _ \<Rightarrow> svc_buffer svc
      | Inr event \<Rightarrow> rb_put [message_from_event event] (svc_buffer svc)) \<and>
   svc_registry svc' = svc_registry svc"
  by (auto simp: send_event_def Let_def case_prod_beta split: sum.splits if_splits)

lemma stream_batch_put:
  "stream_batch batch svc = (answer, svc') \<Longrightarrow>
   (svc_buffer svc' = svc_buffer svc \<and> batch_events (svc_registry svc) batch = [] \<or>
    svc_buffer svc' = rb_put (map message_from_event (batch_events (svc_registry svc) batch)) (svc_buffer svc)) \<and>
   svc_registry svc' = svc_registry svc"
  by (auto simp: stream_batch_def batch_events_def Let_def split: sum.splits if_splits)

definition main_inv :: "nat \<Rightarrow> 'o \<Rightarrow> 'o Gateway \<Rightarrow> bool" where
  "main_inv cap out s \<longleftrightarrow>
     svc_registry (service s) = main_registry \<and> rb_capacity (svc_buffer (service s)) = cap \<and>
     total_drained (svc_buffer (service s)) = 0 \<and> backend (gw_world s) = stdout_emitter_pretty out \<and>
     (0 < cap \<longrightarrow> messages (svc_buffer (service s)) =
        drop (length (stored s) - cap) (map message_from_event (stored s)))"

lemma main_leaf_quiet:
  "backend (snd (emitter_health (main_env rnd pw C) main_registry w)) = backend w"
  "backend (snd (registry_shutdown (main_env rnd pw C) main_registry w)) = backend w"
  by (simp_all add: emitter_health_def registry_shutdown_def main_registry_def register_emitter_def plugin_registry_new_def
      main_env_def stdout_leaf_def case_prod_beta)

lemma put_newest:
  assumes "0 < rb_capacity b" and "messages b = drop (length xs - rb_capacity b) xs"
  shows "messages (rb_put ys b) = drop (length (xs @ ys) - rb_capacity b) (xs @ ys)"
proof -
  have "rb_wf b" using assms by (simp add: rb_wf_def)
  then have "messages (rb_put ys b) = drop (length (messages b) + length ys - rb_capacity b) (messages b @ ys)"
    by (rule messages_push)
  also have "messages b @ ys = drop (length xs - rb_capacity b) (xs @ ys)"
    by (simp add: assms(2))
  finally have "messages (rb_put ys b) =
      drop (length (messages b) + length ys - rb_capacity b + (length xs - rb_capacity b)) (xs @ ys)"
    by (simp only: drop_drop)
  moreover have "length (messages b) + length ys - rb_capacity b + (length xs - rb_capacity b) =
      length (xs @ ys) - rb_capacity b"
    by (simp add: assms(2))
  ultimately show ?thesis by (simp only:)
qed

lemma main_step_inv:
  assumes "main_step (main_env rnd pw C) s t" and "main_inv cap out s"
  shows "main_inv cap out t"
  using assms(1)
proof cases
  case (unary ingest answer svc)
  note put = send_event_put [OF unary(3)]
  show ?thesis
  proof (cases "process_event ingest (service s)")
    case (Inl e)
    with unary put assms(2) show ?thesis by (simp add: main_inv_def)
  next
    case (Inr event)
    with unary put assms(2) show ?thesis
      using put_newest [of "svc_buffer (service s)" "map message_from_event (stored s)" "[message_from_event event]"]
      by (auto simp: main_inv_def total_drained_push simp del: drop_append)
  qed
next
  case (stream batch answer svc)
  note put = stream_batch_put [OF stream(3)]
  with stream assms(2) show ?thesis
    using put_newest [of "svc_buffer (service s)" "map message_from_event (stored s)"
        "map message_from_event (batch_events (svc_registry (service s)) batch)"]
    by (auto simp: main_inv_def total_drained_push simp del: drop_append)
next
  case (health response w)
  then have "w = snd (emitter_health (main_env rnd pw C) (svc_registry (service s)) (gw_world s))"
    by (auto simp: server_health_def output_health_def Let_def case_prod_beta)
  with health assms(2) show ?thesis by (simp add: main_inv_def main_leaf_quiet)
next
  case (signal ev w)
  then have "w = snd (registry_shutdown (main_env rnd pw C) (svc_registry (service s)) (gw_world s))"
    by (simp add: shutdown_signal_def split: if_splits)
  with signal assms(2) show ?thesis by (simp add: main_inv_def main_leaf_quiet)
qed (use assms(2) in \<open>simp_all add: main_inv_def\<close>)

lemma main_start_inv:
  assumes "gateway_main lower environ bind out w = Inr s"
  obtains config where "config_from_env lower environ = Inr config"
    and "main_inv (cfg_buffer_capacity config) out s" and "gw_phase s = Serving" and "stored s = []"
  using assms
  by (auto simp: gateway_main_def main_inv_def gateway_service_with_registry_def ring_buffer_new_def
      total_drained_def buffer_metrics_default_def split: sum.splits option.splits)

lemma main_steps_inv:
  assumes "(main_step (main_env rnd pw C))\<^sup>*\<^sup>* s t" and "main_inv cap out s"
  shows "main_inv cap out t"
  using assms by (induction rule: rtranclp_induct) (auto intro: main_step_inv)

text \<open>C6. The gateway as it is built by \<open>main\<close> stores events and never forwards them. Whatever the environment and whatever
  requests arrive, in any order, before and after the shutdown signal: nothing is ever printed by the registered console emitter, which is asked for its health and shut down but handed no event, its counter
  stays zero, no message is ever drained, and the buffer holds the newest events that were stored, up to its
  capacity. So once as many events as the capacity have been stored, every further unary call with an event is answered with an error for
  good. Raw payloads are always refused, since no ingestor is registered.\<close>

theorem gateway_main_never_forwards:
  assumes start: "gateway_main lower environ bind out w = Inr s" and load: "config_from_env lower environ = Inr config"
    and run: "(main_step (main_env rnd pw C))\<^sup>*\<^sup>* s t"
  shows "console (backend (gw_world t)) = out \<and> emitted_count (backend (gw_world t)) = 0 \<and>
    total_drained (svc_buffer (service t)) = 0 \<and>
    (0 < cfg_buffer_capacity config \<longrightarrow> messages (svc_buffer (service t)) =
       drop (length (stored t) - cfg_buffer_capacity config) (map message_from_event (stored t))) \<and>
    (cfg_buffer_capacity config \<le> length (stored t) \<longrightarrow>
       (\<forall>ingest. \<exists>e. fst (send_event ingest (service t)) = Inl e)) \<and>
    (\<forall>ingest data. ie_payload ingest = Some (Event_Raw data) \<longrightarrow>
       (\<exists>m. fst (send_event ingest (service t)) = Inl (mk_status Unimplemented m)))"
proof -
  have inv: "main_inv (cfg_buffer_capacity config) out t"
    using main_start_inv [OF start] load main_steps_inv [OF run] by (metis sum.inject(2))
  then have msgs: "0 < cfg_buffer_capacity config \<longrightarrow> messages (svc_buffer (service t)) =
       drop (length (stored t) - cfg_buffer_capacity config) (map message_from_event (stored t))"
    and cap: "rb_capacity (svc_buffer (service t)) = cfg_buffer_capacity config"
    by (simp_all add: main_inv_def)
  have full: "ring_buffer_is_full (svc_buffer (service t))" if "cfg_buffer_capacity config \<le> length (stored t)"
    using that msgs cap by (cases "cfg_buffer_capacity config") (auto simp: ring_buffer_is_full_def)
  have refused: "\<exists>e. fst (send_event ingest svc) = Inl e" if "ring_buffer_is_full (svc_buffer svc)" for ingest svc
    using that by (simp add: send_event_def ring_buffer_push_def ring_buffer_is_full_def Let_def case_prod_beta split: sum.splits)
  have raw: "\<exists>m. fst (send_event ingest (service t)) = Inl (mk_status Unimplemented m)"
    if "ie_payload ingest = Some (Event_Raw data)" for ingest data
    using that inv by (simp add: main_inv_def send_event_def process_event_def registry_transform_def registry_ingest_def
        main_registry_def register_emitter_def plugin_registry_new_def) blast
  show ?thesis
    using inv msgs full refused raw by (auto simp: main_inv_def stdout_emitter_pretty_def emitted_count_def)
qed

text \<open>A closed instance: a capacity of one, and one event.\<close>

definition quiet_console :: "string list Console" where
  "quiet_console = \<lparr>write_line = (\<lambda>line out. out @ [line]), debug_str = (\<lambda>t. t), map_entries = (\<lambda>_. [])\<rparr>"

theorem gateway_main_never_forwards_witness:
  "\<exists>(s :: string list Gateway) t environ w. gateway_main id environ (\<lambda>_. None) [] w = Inr s \<and>
     (main_step (main_env id (\<lambda>x n. x) quiet_console))\<^sup>*\<^sup>* s t \<and> stored t = [event_from_message (sample_message ''m'')] \<and>
     console (backend (gw_world t)) = [] \<and> messages (svc_buffer (service t)) = [sample_message ''m''] \<and>
     (\<forall>ingest. \<exists>e. fst (send_event ingest (service t)) = Inl e)"
proof -
  let ?config = "config_default\<lparr>cfg_buffer_capacity := 1\<rparr>" and ?e = "event_from_message (sample_message ''m'')"
  let ?w = "\<lparr>time_now = 0, jitter_rng = 1, breakers = (\<lambda>_. breaker_cell_new), retries = (\<lambda>_. retry_cell_new),
    failure_buffers = (\<lambda>_. failure_buffer_new 10), backend = stdout_emitter_new []\<rparr> :: string list StdoutEmitter World"
  let ?in = "\<lparr>ie_source = ''s'', ie_cluster = ''c'', ie_format = [], ie_payload = Some (Event_Event ?e)\<rparr>"
  have "config_wf ?config"
    by (simp add: config_wf_def config_default_def socket_addr_wf_def in_range_def)
  then have load: "config_from_env id (config_environ ?config) = Inr ?config" by (rule config_environ_loads)
  then obtain s :: "string list Gateway" where
    s: "gateway_main id (config_environ ?config) (\<lambda>_. None) [] ?w = Inr s" "gw_phase s = Serving" "stored s = []"
    by (simp add: gateway_main_def)
  obtain answer svc where send: "send_event ?in (service s) = (answer, svc)" by fastforce
  let ?t = "s\<lparr>service := svc, stored := [?e]\<rparr>"
  have "main_step (main_env id (\<lambda>x n. x) quiet_console) s ?t"
    using main_step.unary [OF _ send, of "main_env id (\<lambda>x n. x) quiet_console"] s(2,3) by (simp add: process_event_def)
  then have run: "(main_step (main_env id (\<lambda>x n. x) quiet_console))\<^sup>*\<^sup>* s ?t" by blast
  show ?thesis
    using gateway_main_never_forwards [OF s(1) load run] s(1) run
    by (intro exI [of _ s] exI [of _ ?t] exI [of _ "config_environ ?config"] exI [of _ ?w]) (simp add: config_default_def)
qed

end
