(* ===== verification/Resilience.thy ===== *)
theory Resilience
  imports Emitters
begin

text \<open>
  What the resilience wrappers guarantee: the circuit breaker for one caller who emits again
  and again (opening, failing fast, recovering, and the configurations that never recover),
  the retry loop (the first success or the last error), failure capture (transparent), and
  the stack that the builder makes of them. The wrappers rely on their inner emitter not
  touching their own cell; the locales \<open>breaker_host\<close> and \<open>retry_host\<close> state that and are
  interpreted on the emitters of the model.
\<close>

section \<open>What an emission leaves alone\<close>

lemma emit_breaker_fn: "emit E (CircuitBreakerEmitter a cfg inner) = breaker_emit a cfg (emit E inner)"
  by (intro ext) simp

fun breaker_addrs :: "Emitter \<Rightarrow> nat list" where
  "breaker_addrs (Leaf n) = []"
| "breaker_addrs (RetryEmitter a cfg inner) = breaker_addrs inner"
| "breaker_addrs (CircuitBreakerEmitter a cfg inner) = a # breaker_addrs inner"
| "breaker_addrs (FailureCaptureEmitter a cfg inner) = breaker_addrs inner"

fun retry_addrs :: "Emitter \<Rightarrow> nat list" where
  "retry_addrs (Leaf n) = []"
| "retry_addrs (RetryEmitter a cfg inner) = a # retry_addrs inner"
| "retry_addrs (CircuitBreakerEmitter a cfg inner) = retry_addrs inner"
| "retry_addrs (FailureCaptureEmitter a cfg inner) = retry_addrs inner"

fun capture_addrs :: "Emitter \<Rightarrow> nat list" where
  "capture_addrs (Leaf n) = []"
| "capture_addrs (RetryEmitter a cfg inner) = capture_addrs inner"
| "capture_addrs (CircuitBreakerEmitter a cfg inner) = capture_addrs inner"
| "capture_addrs (FailureCaptureEmitter a cfg inner) = a # capture_addrs inner"

lemma put_breaker_simps [simp]:
  "breakers (put_breaker a c w) = (breakers w)(a := c)"
  "time_now (put_breaker a c w) = time_now w"
  "retries (put_breaker a c w) = retries w"
  "failure_buffers (put_breaker a c w) = failure_buffers w"
  "jitter_rng (put_breaker a c w) = jitter_rng w"
  "backend (put_breaker a c w) = backend w"
  by (simp_all add: put_breaker_def)

lemma retry_wait_frame [frame]:
  "breakers (retry_wait E a cfg n w) = breakers w"
  "failure_buffers (retry_wait E a cfg n w) = failure_buffers w"
  "backend (retry_wait E a cfg n w) = backend w"
  "b \<noteq> a \<Longrightarrow> retries (retry_wait E a cfg n w) b = retries w b"
  by (simp_all add: retry_wait_def bump_retry_def case_prod_beta Let_def)

lemma bump_recovered_frame [frame]:
  "breakers (bump_recovered a w) = breakers w"
  "failure_buffers (bump_recovered a w) = failure_buffers w"
  "backend (bump_recovered a w) = backend w"
  "b \<noteq> a \<Longrightarrow> retries (bump_recovered a w) b = retries w b"
  by (simp_all add: bump_recovered_def)

text \<open>A part of the world that neither the inner emitter nor the bookkeeping touches is kept by the loop.\<close>

lemma retry_loop_frame:
  assumes inner: "\<And>evs w. f (snd (inner evs w)) = f w"
    and wait: "\<And>n w. f (retry_wait E a cfg n w) = f w"
    and recovered: "\<And>w. f (bump_recovered a w) = f w"
  shows "f (snd (retry_loop E a cfg inner i n e evs w)) = f w"
proof (induction n arbitrary: i e w)
  case 0
  then show ?case by simp
next
  case (Suc n)
  have "f (snd (inner evs (retry_wait E a cfg i w))) = f w"
    by (simp add: inner wait)
  with Suc show ?case
    by (auto simp: recovered split: prod.splits sum.splits)
qed

lemma retry_emit_frame:
  assumes "\<And>evs w. f (snd (inner evs w)) = f w" and "\<And>n w. f (retry_wait E a cfg n w) = f w"
    and "\<And>w. f (bump_recovered a w) = f w"
  shows "f (snd (retry_emit E a cfg inner evs w)) = f w"
  unfolding retry_emit_def by (rule retry_loop_frame) (fact assms)+

lemma breaker_emit_frame:
  assumes inner: "\<And>evs w. f (snd (inner evs w)) = f w" and put: "\<And>c w. f (put_breaker a c w) = f w"
  shows "f (snd (breaker_emit a cfg inner evs w)) = f w"
proof -
  let ?w = "put_breaker a (snd (should_allow_request cfg (time_now w) (breakers w a))) w"
  have "f (snd (inner evs ?w)) = f w" by (simp add: inner put)
  then show ?thesis
    by (cases "inner evs ?w") (simp add: breaker_emit_def case_prod_beta Let_def put split: sum.splits)
qed

lemma capture_emit_frame:
  assumes inner: "\<And>evs w. f (snd (inner evs w)) = f w"
    and put: "\<And>b w. f (w\<lparr>failure_buffers := (failure_buffers w)(a := b)\<rparr>) = f w"
  shows "f (snd (capture_emit a cfg nm inner evs w)) = f w"
  using inner [of evs w]
  by (cases "inner evs w") (simp add: capture_emit_def put split: sum.splits)

lemma leaf_emit_frame:
  assumes "\<And>t x. f (w\<lparr>time_now := t, backend := x\<rparr>) = f w"
  shows "f (snd (emit E (Leaf n) evs w)) = f w"
  by (simp add: case_prod_beta Let_def assms)

lemma breakers_emit: "b \<notin> set (breaker_addrs em) \<Longrightarrow> breakers (snd (emit E em evs w)) b = breakers w b"
proof (induction em arbitrary: evs w)
  case (Leaf n)
  show ?case by (rule leaf_emit_frame [where f = "\<lambda>w. breakers w b"]) simp
next
  case (RetryEmitter a cfg inner)
  then show ?case
    by (simp add: retry_emit_frame [where f = "\<lambda>w. breakers w b"] frame)
next
  case (CircuitBreakerEmitter a cfg inner)
  then show ?case
    by (simp add: breaker_emit_frame [where f = "\<lambda>w. breakers w b"])
next
  case (FailureCaptureEmitter a cfg inner)
  then show ?case
    by (simp add: capture_emit_frame [where f = "\<lambda>w. breakers w b"])
qed

lemma retries_emit: "b \<notin> set (retry_addrs em) \<Longrightarrow> retries (snd (emit E em evs w)) b = retries w b"
proof (induction em arbitrary: evs w)
  case (Leaf n)
  show ?case by (rule leaf_emit_frame [where f = "\<lambda>w. retries w b"]) simp
next
  case (RetryEmitter a cfg inner)
  then show ?case
    by (simp add: retry_emit_frame [where f = "\<lambda>w. retries w b"] frame)
next
  case (CircuitBreakerEmitter a cfg inner)
  then show ?case
    by (simp add: breaker_emit_frame [where f = "\<lambda>w. retries w b"])
next
  case (FailureCaptureEmitter a cfg inner)
  then show ?case
    by (simp add: capture_emit_frame [where f = "\<lambda>w. retries w b"])
qed

lemma failure_buffers_emit:
  "b \<notin> set (capture_addrs em) \<Longrightarrow> failure_buffers (snd (emit E em evs w)) b = failure_buffers w b"
proof (induction em arbitrary: evs w)
  case (Leaf n)
  show ?case by (rule leaf_emit_frame [where f = "\<lambda>w. failure_buffers w b"]) simp
next
  case (RetryEmitter a cfg inner)
  then show ?case
    by (simp add: retry_emit_frame [where f = "\<lambda>w. failure_buffers w b"] frame)
next
  case (CircuitBreakerEmitter a cfg inner)
  then show ?case
    by (simp add: breaker_emit_frame [where f = "\<lambda>w. failure_buffers w b"])
next
  case (FailureCaptureEmitter a cfg inner)
  then show ?case
    by (simp add: capture_emit_frame [where f = "\<lambda>w. failure_buffers w b"])
qed

section \<open>One caller of a circuit breaker\<close>

text \<open>A caller's script: how long to wait, then what to emit, again and again.\<close>

fun run_emits :: "'x emit_fn \<Rightarrow> (nat \<times> Event list) list \<Rightarrow> 'x World \<Rightarrow> plugin_result list \<times> 'x World"
  where
  "run_emits f [] w = ([], w)"
| "run_emits f ((d, evs) # script) w =
     (let (r, w1) = f evs (w\<lparr>time_now := time_now w + d\<rparr>);
          (rs, w2) = run_emits f script w1
      in (r # rs, w2))"

text \<open>What one emission does to the cell, given the clock readings and the inner outcome.\<close>

definition cell_emit :: "CircuitBreakerConfig \<Rightarrow> nat \<Rightarrow> bool \<Rightarrow> nat \<Rightarrow> BreakerCell \<Rightarrow> BreakerCell" where
  "cell_emit cfg t ok t' c =
     (case should_allow_request cfg t c of
        (False, c1) \<Rightarrow> c1
      | (True, c1) \<Rightarrow> if ok then record_success cfg c1 else record_failure cfg t' c1)"

text \<open>
  The circuit is open or probing, and the successes of the probing period are at most the
  probes admitted in it.
\<close>

definition trapped :: "CircuitBreakerConfig \<Rightarrow> BreakerCell \<Rightarrow> bool" where
  "trapped cfg c \<longleftrightarrow>
     (case cb_state (breaker c) of
        Closed \<Rightarrow> False
      | Open \<Rightarrow> True
      | HalfOpen \<Rightarrow>
          unat (consecutive_successes (breaker c)) \<le> unat (half_open_requests (breaker c)) \<and>
          unat (half_open_requests (breaker c)) \<le> max 1 (unat (half_open_max_requests cfg)))"

lemma trapped_cell_emit:
  assumes few: "max 1 (unat (half_open_max_requests cfg)) < unat (success_threshold cfg)"
    and "trapped cfg c"
  shows "trapped cfg (cell_emit cfg t ok t' c)"
proof (cases "cb_state (breaker c)")
  case Closed
  with assms show ?thesis by (simp add: trapped_def)
next
  case Open
  have "\<not> success_threshold cfg \<le> 1" using few by (simp add: word_le_nat_alt)
  with Open show ?thesis
    by (auto simp: cell_emit_def trapped_def breaker_ops split: option.splits)
next
  case HalfOpen
  show ?thesis
  proof (cases "half_open_requests (breaker c) < half_open_max_requests cfg")
    case True
    then have "unat (half_open_requests (breaker c) + 1) = Suc (unat (half_open_requests (breaker c)))"
      and "Suc (unat (half_open_requests (breaker c))) \<le> unat (half_open_max_requests cfg)"
      by (simp_all add: unat_Suc_less word_less_nat_alt)
    moreover have "unat (consecutive_successes (breaker c) + 1) \<le> Suc (unat (consecutive_successes (breaker c)))"
      by (rule unat_inc_le)
    ultimately show ?thesis using HalfOpen True assms
      by (auto simp: cell_emit_def trapped_def breaker_ops word_le_nat_alt)
  next
    case False
    with HalfOpen assms show ?thesis
      by (auto simp: cell_emit_def trapped_def breaker_ops)
  qed
qed

locale breaker_host =
  fixes inner :: "'x emit_fn" and a :: nat and cfg :: CircuitBreakerConfig
  assumes own_cell: "breakers (snd (inner evs w)) a = breakers w a"
begin

text \<open>The world the inner emitter is called in, when the request is admitted.\<close>

abbreviation admitted :: "'x World \<Rightarrow> 'x World" where
  "admitted w \<equiv> put_breaker a (snd (should_allow_request cfg (time_now w) (breakers w a))) w"

lemma emit_cell:
  "breakers (snd (breaker_emit a cfg inner evs w)) a =
     cell_emit cfg (time_now w) (is_ok (fst (inner evs (admitted w))))
       (time_now (snd (inner evs (admitted w)))) (breakers w a)"
  using own_cell [of evs "admitted w"]
  by (auto simp: breaker_emit_def cell_emit_def case_prod_beta Let_def split: sum.splits prod.splits bool.splits)

lemma emit_result:
  "fst (should_allow_request cfg (time_now w) (breakers w a)) \<Longrightarrow>
   fst (breaker_emit a cfg inner evs w) = fst (inner evs (admitted w))"
  by (auto simp: breaker_emit_def case_prod_beta Let_def split: sum.splits)

lemma trapped_run:
  assumes "max 1 (unat (half_open_max_requests cfg)) < unat (success_threshold cfg)"
    and "trapped cfg (breakers w a)"
  shows "trapped cfg (breakers (snd (run_emits (breaker_emit a cfg inner) script w)) a)"
  using assms(2)
proof (induction script arbitrary: w)
  case Nil
  then show ?case by simp
next
  case (Cons step script)
  obtain d evs where step: "step = (d, evs)" by (cases step)
  let ?w = "w\<lparr>time_now := time_now w + d\<rparr>"
  have "trapped cfg (breakers (snd (breaker_emit a cfg inner evs ?w)) a)"
    using Cons.prems by (simp add: emit_cell trapped_cell_emit [OF assms(1)])
  from Cons.IH [OF this] show ?case by (simp add: step case_prod_beta Let_def)
qed

text \<open>A failing destination: the circuit stays closed until the threshold is reached.\<close>

lemma failing_run:
  assumes fails: "\<And>evs w. \<not> is_ok (fst (inner evs w))"
    and "cb_state (breaker (breakers w a)) = Closed"
    and "unat (consecutive_failures (breaker (breakers w a))) + length script \<le> unat (failure_threshold cfg)"
  shows "cb_state (breaker (breakers (snd (run_emits (breaker_emit a cfg inner) script w)) a)) =
     (if script \<noteq> [] \<and>
         unat (consecutive_failures (breaker (breakers w a))) + length script = unat (failure_threshold cfg)
      then Open else Closed)"
  using assms(2,3)
proof (induction script arbitrary: w)
  case Nil
  then show ?case by simp
next
  case (Cons step script)
  obtain d evs where step: "step = (d, evs)" by (cases step)
  let ?w = "w\<lparr>time_now := time_now w + d\<rparr>"
  let ?c = "breakers (snd (breaker_emit a cfg inner evs ?w)) a"
  let ?f = "consecutive_failures (breaker (breakers w a))"
  have less: "unat ?f < unat (failure_threshold cfg)" using Cons.prems by simp
  then have inc: "unat (?f + 1) = Suc (unat ?f)"
    by (simp add: unat_Suc_less flip: word_less_nat_alt)
  have cell: "\<exists>t. ?c = record_failure cfg t (breakers w a)"
    using Cons.prems(1) fails by (auto simp: emit_cell cell_emit_def)
  show ?case
  proof (cases "script = []")
    case True
    with cell inc Cons.prems show ?thesis
      by (auto simp: step breaker_ops word_le_nat_alt case_prod_beta)
  next
    case False
    then have "Suc (unat ?f) < unat (failure_threshold cfg)"
      using Cons.prems(2) by (cases script) auto
    with cell inc Cons.prems(1)
    have "cb_state (breaker ?c) = Closed" "unat (consecutive_failures (breaker ?c)) = Suc (unat ?f)"
      by (auto simp: breaker_ops word_le_nat_alt)
    with Cons.IH [of "snd (breaker_emit a cfg inner evs ?w)"] Cons.prems(2) False show ?thesis
      by (simp add: step case_prod_beta Let_def)
  qed
qed

text \<open>A healthy destination while the circuit probes: every admitted request counts as a success.\<close>

lemma probing_run:
  assumes ok: "\<And>evs w. is_ok (fst (inner evs w))"
    and "cb_state (breaker (breakers w a)) = HalfOpen"
    and "unat (half_open_requests (breaker (breakers w a))) + length script \<le> unat (half_open_max_requests cfg)"
    and "unat (consecutive_successes (breaker (breakers w a))) + length script \<le> unat (success_threshold cfg)"
  shows "list_all is_ok (fst (run_emits (breaker_emit a cfg inner) script w)) \<and>
     cb_state (breaker (breakers (snd (run_emits (breaker_emit a cfg inner) script w)) a)) =
     (if script \<noteq> [] \<and>
         unat (consecutive_successes (breaker (breakers w a))) + length script = unat (success_threshold cfg)
      then Closed else HalfOpen)"
  using assms(2-4)
proof (induction script arbitrary: w)
  case Nil
  then show ?case by simp
next
  case (Cons step script)
  obtain d evs where step: "step = (d, evs)" by (cases step)
  let ?w = "w\<lparr>time_now := time_now w + d\<rparr>"
  let ?c = "breakers (snd (breaker_emit a cfg inner evs ?w)) a"
  let ?h = "half_open_requests (breaker (breakers w a))"
  let ?s = "consecutive_successes (breaker (breakers w a))"
  have h: "?h < half_open_max_requests cfg" and s: "?s < success_threshold cfg"
    using Cons.prems by (simp_all add: word_less_nat_alt)
  note inc = unat_Suc_less [OF h] unat_Suc_less [OF s]
  have allow: "fst (should_allow_request cfg (time_now ?w) (breakers ?w a))"
    using Cons.prems(1) h by (simp add: breaker_ops)
  have res: "is_ok (fst (breaker_emit a cfg inner evs ?w))"
    using emit_result [OF allow] ok by simp
  have cell: "?c = record_success cfg (snd (should_allow_request cfg (time_now ?w) (breakers w a)))"
    using allow ok by (auto simp: emit_cell cell_emit_def split: prod.splits bool.splits)
  show ?case
  proof (cases "script = []")
    case True
    with cell inc h Cons.prems res show ?thesis
      by (auto simp: step breaker_ops word_le_nat_alt case_prod_beta)
  next
    case False
    then have "Suc (unat ?s) < unat (success_threshold cfg)"
      using Cons.prems(3) by (cases script) auto
    with cell inc h Cons.prems(1)
    have "cb_state (breaker ?c) = HalfOpen" "unat (half_open_requests (breaker ?c)) = Suc (unat ?h)"
        "unat (consecutive_successes (breaker ?c)) = Suc (unat ?s)"
      by (auto simp: breaker_ops word_le_nat_alt)
    with Cons.IH [of "snd (breaker_emit a cfg inner evs ?w)"] Cons.prems False res show ?thesis
      by (simp add: step case_prod_beta Let_def)
  qed
qed

text \<open>After the reset timeout, enough successful requests close the circuit.\<close>

lemma recovering_run:
  assumes ok: "\<And>evs w. is_ok (fst (inner evs w))"
    and "cb_state (breaker (breakers w a)) = Open"
    and "last_failure_time (breaker (breakers w a)) = Some t"
    and "reset_timeout cfg \<le> time_now w - t"
    and "0 < success_threshold cfg" and "success_threshold cfg \<le> half_open_max_requests cfg"
    and "length script = unat (success_threshold cfg)"
  shows "list_all is_ok (fst (run_emits (breaker_emit a cfg inner) script w)) \<and>
         cb_state (breaker (breakers (snd (run_emits (breaker_emit a cfg inner) script w)) a)) = Closed"
proof -
  have "0 < length script" using assms(5,7) by (simp add: word_less_nat_alt)
  then obtain d evs rest where script: "script = (d, evs) # rest" by (cases script) auto
  let ?w = "w\<lparr>time_now := time_now w + d\<rparr>"
  let ?c = "breakers (snd (breaker_emit a cfg inner evs ?w)) a"
  have late: "reset_timeout cfg \<le> time_now ?w - t" using assms(4) by simp
  have allow: "should_allow_request cfg (time_now ?w) (breakers ?w a) =
      (True, (breakers w a)\<lparr>breaker := (breaker (breakers w a))\<lparr>cb_state := HalfOpen,
         half_open_requests := 1, consecutive_successes := 0\<rparr>\<rparr>)"
    using allow_open_late [OF _ _ late, of "breakers ?w a"] assms(2,3) by simp
  then have res: "is_ok (fst (breaker_emit a cfg inner evs ?w))"
    using emit_result [of ?w] ok by simp
  have cell: "?c = record_success cfg (snd (should_allow_request cfg (time_now ?w) (breakers ?w a)))"
    using allow ok by (auto simp: emit_cell cell_emit_def)
  show ?thesis
  proof (cases "rest = []")
    case True
    with assms(7) have "success_threshold cfg = 1"
      by (simp add: script word_unat_eq_iff)
    with True cell allow res show ?thesis by (simp add: script breaker_ops case_prod_beta)
  next
    case False
    with assms(7) have one: "\<not> success_threshold cfg \<le> 1"
      by (cases rest) (auto simp: script word_le_nat_alt)
    with cell allow have "cb_state (breaker ?c) = HalfOpen" "half_open_requests (breaker ?c) = 1"
        "consecutive_successes (breaker ?c) = 1"
      by (simp_all add: breaker_ops)
    moreover have "1 + length rest \<le> unat (half_open_max_requests cfg)"
      using assms(6,7) by (simp add: script word_le_nat_alt)
    ultimately show ?thesis
      using probing_run [OF ok, of "snd (breaker_emit a cfg inner evs ?w)" rest] assms(7) False res
      by (simp add: script case_prod_beta Let_def)
  qed
qed

end

text \<open>Every emitter that does not contain the breaker itself can be hosted.\<close>

lemma breaker_host_emit: "a \<notin> set (breaker_addrs em) \<Longrightarrow> breaker_host (emit E em) a"
  by unfold_locales (rule breakers_emit)

interpretation over_leaf: breaker_host "emit E (Leaf n)" a cfg for E n a cfg
  by (rule breaker_host_emit) simp

interpretation over_retry: breaker_host "emit E (RetryEmitter b rc (Leaf n))" a cfg for E b rc n a cfg
  by (rule breaker_host_emit) simp

text \<open>An open circuit before its timeout: nothing is called, whatever the inner emitter is.\<close>

lemma breaker_emit_rejects:
  assumes "cb_state (breaker (breakers w a)) = Open"
    and "last_failure_time (breaker (breakers w a)) = Some t"
    and "time_now w - t < reset_timeout cfg"
  shows "breaker_emit a cfg inner evs w =
    (Inl NotReady, put_breaker a ((breakers w a)\<lparr>rejected_count := rejected_count (breakers w a) + 1\<rparr>) w)"
  using allow_open_early [OF assms] by (simp add: breaker_emit_def reject_def)

lemma put_breaker_put_breaker [simp]: "put_breaker a c (put_breaker a c' w) = put_breaker a c w"
  by (simp add: put_breaker_def)

lemma put_breaker_time: "(put_breaker a c w)\<lparr>time_now := t\<rparr> = put_breaker a c (w\<lparr>time_now := t\<rparr>)"
  by (simp add: put_breaker_def)

lemma rejecting_run:
  assumes "cb_state (breaker (breakers w a)) = Open"
    and "last_failure_time (breaker (breakers w a)) = Some t"
    and "time_now w + sum_list (map fst script) - t < reset_timeout cfg"
  shows "run_emits (breaker_emit a cfg inner) script w =
    (replicate (length script) (Inl NotReady),
     put_breaker a ((breakers w a)\<lparr>rejected_count := rejected_count (breakers w a) + of_nat (length script)\<rparr>)
       (w\<lparr>time_now := time_now w + sum_list (map fst script)\<rparr>))"
  using assms
proof (induction script arbitrary: w)
  case Nil
  then show ?case by (simp add: put_breaker_def)
next
  case (Cons step script)
  obtain d evs where step: "step = (d, evs)" by (cases step)
  let ?w = "w\<lparr>time_now := time_now w + d\<rparr>"
  have "breaker_emit a cfg inner evs ?w =
     (Inl NotReady, put_breaker a ((breakers w a)\<lparr>rejected_count := rejected_count (breakers w a) + 1\<rparr>) ?w)"
    using breaker_emit_rejects [of ?w a t cfg inner evs] Cons.prems by (simp add: step)
  with Cons.IH [of "snd (breaker_emit a cfg inner evs ?w)"] Cons.prems show ?case
    by (simp add: step put_breaker_time add.assoc algebra_simps)
qed

section \<open>The retry loop\<close>

text \<open>
  Attempt \<open>k\<close> of an emission, after all the attempts before it: its outcome and the world
  after it. \<open>before_attempt\<close> is the world that attempt \<open>k\<close> starts from.
\<close>

fun attempt_at ::
    "'x Env \<Rightarrow> nat \<Rightarrow> BackoffConfig \<Rightarrow> 'x emit_fn \<Rightarrow> Event list \<Rightarrow> nat \<Rightarrow> 'x World \<Rightarrow> plugin_result \<times> 'x World"
  where
  "attempt_at E a cfg inner evs 0 w = inner evs (retry_wait E a cfg 0 w)"
| "attempt_at E a cfg inner evs (Suc k) w =
     inner evs (retry_wait E a cfg (Suc k) (snd (attempt_at E a cfg inner evs k w)))"

definition before_attempt ::
    "'x Env \<Rightarrow> nat \<Rightarrow> BackoffConfig \<Rightarrow> 'x emit_fn \<Rightarrow> Event list \<Rightarrow> nat \<Rightarrow> 'x World \<Rightarrow> 'x World" where
  "before_attempt E a cfg inner evs k w =
     (case k of 0 \<Rightarrow> w | Suc j \<Rightarrow> snd (attempt_at E a cfg inner evs j w))"

lemma before_attempt_simps [simp]:
  "before_attempt E a cfg inner evs 0 w = w"
  "before_attempt E a cfg inner evs (Suc k) w = snd (attempt_at E a cfg inner evs k w)"
  by (simp_all add: before_attempt_def)

lemma attempt_at_before:
  "attempt_at E a cfg inner evs k w = inner evs (retry_wait E a cfg k (before_attempt E a cfg inner evs k w))"
  by (cases k) simp_all

lemma retry_loop_attempt:
  "retry_loop E a cfg inner i (Suc n) last_error evs (before_attempt E a cfg inner evs i w) =
     (case attempt_at E a cfg inner evs i w of
        (Inr _, w1) \<Rightarrow> (Inr (), if 0 < i then bump_recovered a w1 else w1)
      | (Inl e, w1) \<Rightarrow> retry_loop E a cfg inner (i + 1) n (Some e) evs w1)"
  by (simp add: attempt_at_before)

lemma retry_loop_succeeds:
  assumes "i \<le> k" and "k < i + n"
    and "\<And>j. i \<le> j \<Longrightarrow> j < k \<Longrightarrow> \<not> is_ok (fst (attempt_at E a cfg inner evs j w))"
    and "attempt_at E a cfg inner evs k w = (Inr u, wk)"
  shows "retry_loop E a cfg inner i n last_error evs (before_attempt E a cfg inner evs i w) =
     (Inr (), if 0 < k then bump_recovered a wk else wk)"
  using assms(1-3)
proof (induction n arbitrary: i last_error)
  case 0
  then show ?case by simp
next
  case (Suc n)
  show ?case
  proof (cases "i = k")
    case True
    with assms(4) show ?thesis by (simp add: retry_loop_attempt del: retry_loop.simps)
  next
    case False
    with Suc.prems obtain e wi where "attempt_at E a cfg inner evs i w = (Inl e, wi)"
      by (metis le_neq_implies_less not_is_ok_iff order_refl surjective_pairing)
    with Suc.IH [of "i + 1" "Some e"] Suc.prems False show ?thesis
      by (simp add: retry_loop_attempt del: retry_loop.simps)
  qed
qed

lemma retry_loop_exhausts:
  assumes "\<And>j. i \<le> j \<Longrightarrow> j \<le> i + n \<Longrightarrow> \<not> is_ok (fst (attempt_at E a cfg inner evs j w))"
  shows "retry_loop E a cfg inner i (Suc n) last_error evs (before_attempt E a cfg inner evs i w) =
     attempt_at E a cfg inner evs (i + n) w"
  using assms
proof (induction n arbitrary: i last_error)
  case 0
  then obtain e wi where "attempt_at E a cfg inner evs i w = (Inl e, wi)"
    by (metis add_0_right not_is_ok_iff order_refl surjective_pairing)
  then show ?case
    unfolding retry_loop_attempt by simp
next
  case (Suc n)
  then obtain e wi where "attempt_at E a cfg inner evs i w = (Inl e, wi)"
    by (metis le_add1 not_is_ok_iff order_refl surjective_pairing)
  with Suc.IH [of "i + 1" "Some e"] Suc.prems show ?case
    unfolding retry_loop_attempt [of E a cfg inner i "Suc n"] by simp
qed

text \<open>Which attempt decides, and that the loop leaves the destination as that attempt left it.\<close>

lemma retry_deciding_attempt:
  obtains m where "m \<le> unat (max_attempts cfg)"
    and "\<And>j. j < m \<Longrightarrow> \<not> is_ok (fst (attempt_at E a cfg (emit E inner) evs j w))"
    and "is_ok (fst (attempt_at E a cfg (emit E inner) evs m w)) \<or> m = unat (max_attempts cfg)"
    and "fst (emit E (RetryEmitter a cfg inner) evs w) = fst (attempt_at E a cfg (emit E inner) evs m w)"
    and "backend (snd (emit E (RetryEmitter a cfg inner) evs w)) =
      backend (snd (attempt_at E a cfg (emit E inner) evs m w))"
proof (cases "\<exists>m\<le>unat (max_attempts cfg). is_ok (fst (attempt_at E a cfg (emit E inner) evs m w))")
  case True
  let ?ok = "\<lambda>m. m \<le> unat (max_attempts cfg) \<and> is_ok (fst (attempt_at E a cfg (emit E inner) evs m w))"
  have "\<exists>m. ?ok m" using True by simp
  then obtain m where m: "?ok m" and first: "\<forall>j<m. \<not> ?ok j"
    unfolding exists_least_iff [of ?ok] by blast
  have least: "\<not> is_ok (fst (attempt_at E a cfg (emit E inner) evs j w))" if "j < m" for j
    using first that m by (meson less_le_trans less_or_eq_imp_le)
  obtain wm where wm: "attempt_at E a cfg (emit E inner) evs m w = (Inr (), wm)"
    using m by (metis is_ok_unit_iff surjective_pairing)
  then have "emit E (RetryEmitter a cfg inner) evs w = (Inr (), if 0 < m then bump_recovered a wm else wm)"
    using retry_loop_succeeds [of 0 m "unat (max_attempts cfg) + 1" E a cfg "emit E inner" evs w "()" wm None] m least
    by (simp add: retry_emit_def del: retry_loop.simps)
  then show thesis using that [of m] m least wm by (simp add: frame)
next
  case False
  then have "emit E (RetryEmitter a cfg inner) evs w = attempt_at E a cfg (emit E inner) evs (unat (max_attempts cfg)) w"
    using retry_loop_exhausts [of 0 "unat (max_attempts cfg)" E a cfg "emit E inner" evs w None]
    by (simp add: retry_emit_def del: retry_loop.simps)
  then show thesis using that [of "unat (max_attempts cfg)"] False by auto
qed

locale retry_host =
  fixes inner :: "'x emit_fn" and a :: nat
  assumes own_counters: "retries (snd (inner evs w)) a = retries w a"
begin

lemma attempt_counters:
  "k < 2 ^ 32 \<Longrightarrow> retries (snd (attempt_at E a cfg inner evs k w)) a =
     (retries w a)\<lparr>retry_count := retry_count (retries w a) + of_nat k\<rparr>"
proof (induction k)
  case 0
  then show ?case
    by (simp add: own_counters retry_wait_def case_prod_beta Let_def)
next
  case (Suc k)
  have "unat (of_nat (Suc k) :: u32) = Suc k"
    using Suc.prems by (simp add: unat_of_nat del: of_nat_Suc)
  then have "(of_nat (Suc k) :: u32) \<noteq> 0"
    by (metis nat.distinct(1) unsigned_0)
  with Suc show ?case
    by (simp add: own_counters retry_wait_def bump_retry_def case_prod_beta Let_def algebra_simps
        del: of_nat_Suc) (simp add: algebra_simps)
qed

end

lemma retry_host_emit: "a \<notin> set (retry_addrs em) \<Longrightarrow> retry_host (emit E em) a"
  by unfold_locales (rule retries_emit)

interpretation retry_leaf: retry_host "emit E (Leaf n)" a for E n a
  by (rule retry_host_emit) simp

section \<open>Example destinations\<close>

text \<open>
  Leaf \<open>0\<close> always accepts and counts its calls, leaf \<open>1\<close> always fails, and leaf \<open>2\<close> fails
  until it has been called twice. The destination's state is the number of calls.
\<close>

definition sample_leaf :: "nat \<Rightarrow> nat leaf" where
  "sample_leaf k =
     \<lparr>leaf_name = ''grpc'',
      leaf_emit = (\<lambda>evs t x. (if k = 0 \<or> k = 2 \<and> 2 \<le> x then Inr () else Inl (Send ''down''), 5, Suc x)),
      leaf_health = (\<lambda>t x. (k = 0, 1, x)),
      leaf_shutdown = (\<lambda>t x. (Inr (), 1, x))\<rparr>"

definition sample_env :: "nat Env" where
  "sample_env = \<lparr>round_f64 = (\<lambda>x. x), powi_f64 = (\<lambda>x i. x ^ nat i), leaves = sample_leaf\<rparr>"

definition sample_world :: "nat World" where
  "sample_world =
     \<lparr>time_now = 0, jitter_rng = 1, breakers = (\<lambda>_. breaker_cell_new), retries = (\<lambda>_. retry_cell_new),
      failure_buffers = (\<lambda>_. failure_buffer_new 10), backend = 0\<rparr>"

text \<open>A cell whose circuit opened at time \<open>t\<close>.\<close>

definition opened_at :: "nat \<Rightarrow> BreakerCell" where
  "opened_at t = breaker_cell_new\<lparr>breaker := circuit_breaker_state_new\<lparr>cb_state := Open,
     consecutive_failures := 5, last_failure_time := Some t\<rparr>, open_count := 1\<rparr>"

abbreviation open_world :: "nat World" where
  "open_world \<equiv> put_breaker 7 (opened_at 0) sample_world"

lemmas sample_defs = sample_env_def sample_leaf_def sample_world_def opened_at_def
  breaker_cell_new_def circuit_breaker_state_new_def circuit_breaker_config_default_def

lemma sample_leaf_ok: "is_ok (fst (emit sample_env (Leaf 0) evs w))"
  by (simp add: sample_env_def sample_leaf_def)

lemma sample_leaf_fails: "\<not> is_ok (fst (emit sample_env (Leaf 1) evs w))"
  by (simp add: sample_env_def sample_leaf_def)

section \<open>Properties of the circuit breaker for one caller\<close>

text \<open>Fail fast: while the circuit is open and its reset timeout has not passed since the
  last failure, every emission returns \<open>NotReady\<close> at once; the inner emitter is never called,
  so nothing but the count of rejected requests and the clock changes.\<close>

theorem breaker_fails_fast:
  assumes "current_state (breakers w a) = Open"
    and "last_failure_time (breaker (breakers w a)) = Some t"
    and "time_now w + sum_list (map fst script) - t < reset_timeout cfg"
  shows "run_emits (emit E (CircuitBreakerEmitter a cfg inner)) script w =
    (replicate (length script) (Inl NotReady),
     put_breaker a ((breakers w a)\<lparr>rejected_count := rejected_count (breakers w a) + of_nat (length script)\<rparr>)
       (w\<lparr>time_now := time_now w + sum_list (map fst script)\<rparr>))"
proof -
  note emit_breaker_fn [of E a cfg inner]
  with rejecting_run [of w a t script cfg "emit E inner"] assms show ?thesis
    by (simp add: current_state_def)
qed

theorem breaker_fails_fast_witness:
  "fst (run_emits (emit sample_env (CircuitBreakerEmitter 7 circuit_breaker_config_default (Leaf 0)))
         [(1, []), (2, [])] open_world) = [Inl NotReady, Inl NotReady]"
  using breaker_fails_fast [of open_world 7 0 "[(1, []), (2, [])]" circuit_breaker_config_default sample_env "Leaf 0"]
  by (simp add: sample_defs current_state_def numeral_2_eq_2 del: run_emits.simps)

text \<open>A closed circuit in front of a failing destination opens at exactly the configured
  number of consecutive failures and not before: after fewer failing emissions than the
  threshold it is still closed, and after that many it is open.\<close>

theorem breaker_opens_at_threshold:
  assumes "a \<notin> set (breaker_addrs inner)"
    and "\<And>evs w. \<not> is_ok (fst (emit E inner evs w))"
    and "current_state (breakers w a) = Closed"
    and "consecutive_failures (breaker (breakers w a)) = 0"
    and "script \<noteq> []" and "length script \<le> unat (failure_threshold cfg)"
  shows "current_state (breakers (snd (run_emits (emit E (CircuitBreakerEmitter a cfg inner)) script w)) a) =
    (if length script = unat (failure_threshold cfg) then Open else Closed)"
proof -
  note emit_breaker_fn [of E a cfg inner]
  with breaker_host.failing_run [OF breaker_host_emit [OF assms(1)] assms(2), of w script cfg] assms(3-6)
  show ?thesis by (simp add: current_state_def)
qed

theorem breaker_opens_at_threshold_witness:
  "current_state (breakers (snd (run_emits
      (emit sample_env (CircuitBreakerEmitter 7 circuit_breaker_config_default (Leaf 1)))
      (replicate 5 (1, [])) sample_world)) 7) = Open"
  using breaker_opens_at_threshold [of 7 "Leaf 1" sample_env sample_world "replicate 5 (1, [])"
      circuit_breaker_config_default] sample_leaf_fails
  by (simp add: sample_world_def breaker_cell_new_def circuit_breaker_state_new_def
      circuit_breaker_config_default_def current_state_def del: emit.simps replicate.simps)

text \<open>C19. Recovery: once the reset timeout has passed and the destination accepts again, a
  circuit whose configuration admits at least \<open>success_threshold\<close> probes closes after
  \<open>success_threshold\<close> emissions, all of which succeed.\<close>

theorem breaker_recovers:
  assumes "a \<notin> set (breaker_addrs inner)"
    and "\<And>evs w. is_ok (fst (emit E inner evs w))"
    and "current_state (breakers w a) = Open"
    and "last_failure_time (breaker (breakers w a)) = Some t"
    and "reset_timeout cfg \<le> time_now w - t"
    and "0 < success_threshold cfg" and "success_threshold cfg \<le> half_open_max_requests cfg"
    and "length script = unat (success_threshold cfg)"
  shows "list_all is_ok (fst (run_emits (emit E (CircuitBreakerEmitter a cfg inner)) script w)) \<and>
    current_state (breakers (snd (run_emits (emit E (CircuitBreakerEmitter a cfg inner)) script w)) a) = Closed"
proof -
  note emit_breaker_fn [of E a cfg inner]
  with breaker_host.recovering_run [OF breaker_host_emit [OF assms(1)] assms(2)] assms(3-8)
  show ?thesis by (simp add: current_state_def)
qed

theorem breaker_recovers_witness:
  "current_state (breakers (snd (run_emits
      (emit sample_env (CircuitBreakerEmitter 7
         (circuit_breaker_config_default\<lparr>half_open_max_requests := 2, reset_timeout := 3\<rparr>) (Leaf 0)))
      [(1, []), (1, [])] (open_world\<lparr>time_now := 3\<rparr>))) 7) = Closed"
  using breaker_recovers [of 7 "Leaf 0" sample_env "open_world\<lparr>time_now := 3\<rparr>" 0
      "circuit_breaker_config_default\<lparr>half_open_max_requests := 2, reset_timeout := 3\<rparr>" "[(1, []), (1, [])]"]
    sample_leaf_ok
  by (simp add: put_breaker_def opened_at_def breaker_cell_new_def circuit_breaker_state_new_def
      circuit_breaker_config_default_def current_state_def del: emit.simps run_emits.simps)

text \<open>C18. A breaker with a single caller, whose emissions come one after the other, never recovers under a configuration whose
  \<open>success_threshold\<close> exceeds both one and \<open>half_open_max_requests\<close>; the default configuration is one (two successes, one probe). Once
  the circuit has opened, no sequence of emissions closes it again, however long the caller waits and however healthy the
  destination is. (One, because the emission that finds the timeout over is admitted whatever \<open>half_open_max_requests\<close> is. A single caller, because with several callers
  an emission that was admitted while the circuit was closed may succeed while it is half open, and count.)\<close>

theorem breaker_never_recovers:
  assumes "a \<notin> set (breaker_addrs inner)"
    and "max 1 (unat (half_open_max_requests cfg)) < unat (success_threshold cfg)"
    and "current_state (breakers w a) = Open"
  shows "current_state (breakers (snd (run_emits (emit E (CircuitBreakerEmitter a cfg inner)) script w)) a) \<noteq> Closed"
proof -
  have "trapped cfg (breakers w a)" using assms(3) by (simp add: trapped_def current_state_def)
  then have
    "trapped cfg (breakers (snd (run_emits (emit E (CircuitBreakerEmitter a cfg inner)) script w)) a)"
    using breaker_host.trapped_run [OF breaker_host_emit [OF assms(1)] assms(2)]
    by (simp add: emit_breaker_fn)
  then show ?thesis by (auto simp: trapped_def current_state_def)
qed

theorem breaker_never_recovers_witness:
  "current_state (breakers (snd (run_emits
      (emit sample_env (CircuitBreakerEmitter 7 circuit_breaker_config_default (Leaf 0)))
      (replicate 100 (10 ^ 12, [])) open_world)) 7) \<noteq> Closed"
  by (rule breaker_never_recovers) (simp_all add: sample_defs current_state_def)

section \<open>Properties of retry\<close>

text \<open>C20. A retrying emitter makes its attempts in order, at most \<open>max_attempts + 1\<close> of them, and
  stops at the first that succeeds, with success; when all of them fail it returns the error
  of the last. (\<open>attempt_at k\<close> is the \<open>k\<close>-th attempt after the ones before it.)\<close>

theorem retry_first_success_or_last_error:
  "(\<forall>k wk. k \<le> unat (max_attempts cfg) \<and>
       (\<forall>j<k. \<not> is_ok (fst (attempt_at E a cfg (emit E inner) evs j w))) \<and>
       attempt_at E a cfg (emit E inner) evs k w = (Inr (), wk) \<longrightarrow>
     emit E (RetryEmitter a cfg inner) evs w = (Inr (), if 0 < k then bump_recovered a wk else wk)) \<and>
   ((\<forall>j\<le>unat (max_attempts cfg). \<not> is_ok (fst (attempt_at E a cfg (emit E inner) evs j w))) \<longrightarrow>
     emit E (RetryEmitter a cfg inner) evs w =
       attempt_at E a cfg (emit E inner) evs (unat (max_attempts cfg)) w)"
proof (intro conjI allI impI)
  fix k wk
  assume "k \<le> unat (max_attempts cfg) \<and>
       (\<forall>j<k. \<not> is_ok (fst (attempt_at E a cfg (emit E inner) evs j w))) \<and>
       attempt_at E a cfg (emit E inner) evs k w = (Inr (), wk)"
  then show "emit E (RetryEmitter a cfg inner) evs w = (Inr (), if 0 < k then bump_recovered a wk else wk)"
    using retry_loop_succeeds [of 0 k "unat (max_attempts cfg) + 1" E a cfg "emit E inner" evs w "()" wk None]
    by (simp add: retry_emit_def del: retry_loop.simps)
next
  assume "\<forall>j\<le>unat (max_attempts cfg). \<not> is_ok (fst (attempt_at E a cfg (emit E inner) evs j w))"
  then show "emit E (RetryEmitter a cfg inner) evs w =
      attempt_at E a cfg (emit E inner) evs (unat (max_attempts cfg)) w"
    using retry_loop_exhausts [of 0 "unat (max_attempts cfg)" E a cfg "emit E inner" evs w None]
    by (simp add: retry_emit_def del: retry_loop.simps)
qed

lemma sample_leaf_flaky:
  "emit sample_env (Leaf 2) evs w =
    (if 2 \<le> backend w then Inr () else Inl (Send ''down''),
     w\<lparr>time_now := time_now w + 5, backend := Suc (backend w)\<rparr>)"
  by (simp add: sample_env_def sample_leaf_def)

lemma sample_backend: "backend sample_world = 0"
  by (simp add: sample_world_def)

theorem retry_first_success_or_last_error_witness:
  "fst (emit sample_env (RetryEmitter 3 backoff_config_default (Leaf 2)) [] sample_world) = Inr ()"
proof -
  let ?at = "\<lambda>k. attempt_at sample_env 3 backoff_config_default (emit sample_env (Leaf 2)) [] k sample_world"
  have b: "backend (snd (?at k)) = Suc k" for k
    by (induction k) (simp_all add: sample_leaf_flaky frame sample_backend del: emit.simps)
  have "fst (?at k) = (if 2 \<le> k then Inr () else Inl (Send ''down''))" for k
    by (cases k) (simp_all add: sample_leaf_flaky frame sample_backend b del: emit.simps)
  then have "\<forall>j<2. \<not> is_ok (fst (?at j))" "?at 2 = (Inr (), snd (?at 2))"
    by (auto simp: prod_eq_iff simp del: emit.simps)
  moreover have "2 \<le> unat (max_attempts backoff_config_default)"
    by (simp add: backoff_config_default_def)
  ultimately show ?thesis
    using conjunct1 [OF retry_first_success_or_last_error
        [of backoff_config_default sample_env 3 "Leaf 2" "[]" sample_world],
        rule_format, of 2 "snd (?at 2)"]
    by (simp del: emit.simps)
qed

text \<open>The retry counters are exact: an emission that needs \<open>k\<close> retries adds \<open>k\<close> to
  \<open>retry_count\<close>, and one to \<open>recovered_count\<close> exactly if it succeeded after at least one retry.\<close>

theorem retry_counters_exact:
  assumes "a \<notin> set (retry_addrs inner)" and "k \<le> unat (max_attempts cfg)"
    and "\<forall>j<k. \<not> is_ok (fst (attempt_at E a cfg (emit E inner) evs j w))"
    and "is_ok (fst (attempt_at E a cfg (emit E inner) evs k w)) \<or> k = unat (max_attempts cfg)"
  shows "let ok = is_ok (fst (attempt_at E a cfg (emit E inner) evs k w)) in
     retries (snd (emit E (RetryEmitter a cfg inner) evs w)) a =
       \<lparr>retry_count = retry_count (retries w a) + of_nat k,
        recovered_count = recovered_count (retries w a) + (if ok \<and> 0 < k then 1 else 0)\<rparr>"
proof -
  obtain r wk where at: "attempt_at E a cfg (emit E inner) evs k w = (r, wk)"
    by (cases "attempt_at E a cfg (emit E inner) evs k w")
  have "unat (max_attempts cfg) < 2 ^ 32"
    using unsigned_less [of "max_attempts cfg"] by simp
  with assms(2) have cells: "retries wk a = (retries w a)\<lparr>retry_count := retry_count (retries w a) + of_nat k\<rparr>"
    using retry_host.attempt_counters [OF retry_host_emit [OF assms(1), of E], 
        where k = k and E = E and cfg = cfg and evs = evs and w = w] at by simp
  show ?thesis
  proof (cases "is_ok r")
    case True
    then have "emit E (RetryEmitter a cfg inner) evs w = (Inr (), if 0 < k then bump_recovered a wk else wk)"
      using retry_loop_succeeds [of 0 k "unat (max_attempts cfg) + 1" E a cfg "emit E inner" evs w "()" wk None]
        assms(2,3) at by (simp add: retry_emit_def is_ok_unit_iff del: retry_loop.simps)
    with True cells at show ?thesis by (simp add: bump_recovered_def)
  next
    case False
    with assms(3,4) at have k: "k = unat (max_attempts cfg)" by simp
    have "\<not> is_ok (fst (attempt_at E a cfg (emit E inner) evs j w))" if "j \<le> k" for j
      using that assms(3) at False by (cases "j = k") auto
    then have "emit E (RetryEmitter a cfg inner) evs w = (r, wk)"
      using retry_loop_exhausts [of 0 k E a cfg "emit E inner" evs w None] at
      by (simp add: retry_emit_def k del: retry_loop.simps)
    with False cells at show ?thesis by simp
  qed
qed

theorem retry_counters_exact_witness:
  "retries (snd (emit sample_env (RetryEmitter 3 backoff_config_default (Leaf 0)) [] sample_world)) 3 =
     \<lparr>retry_count = 0, recovered_count = 0\<rparr>"
  using retry_counters_exact [of 3 "Leaf 0" 0 backoff_config_default sample_env "[]" sample_world] sample_leaf_ok
  by (simp add: Let_def sample_world_def retry_cell_new_def del: emit.simps)

section \<open>Properties of failure capture and of the stack\<close>

text \<open>Failure capture is transparent and complete: the result is the inner emitter's result;
  on success nothing is captured; on an error the failure buffer receives one entry per event
  of the batch, in order, each with the event, the error text and the inner emitter's name (or
  one entry for the first event when only a sample is kept), and nothing else changes.\<close>

theorem capture_transparent:
  assumes "emit E inner evs w = (r, w1)"
  shows "emit E (FailureCaptureEmitter a cfg inner) evs w =
    (r, case r of
          Inr _ \<Rightarrow> w1
        | Inl e \<Rightarrow> w1\<lparr>failure_buffers := (failure_buffers w1)(a :=
            failure_buffer_push (failed_events cfg (name_of E inner) (time_now w1) e evs)
              (failure_buffers w1 a))\<rparr>) \<and>
    (\<forall>e. map failed_event (failed_events cfg (name_of E inner) (time_now w1) e evs) =
           (if store_full_batch cfg then evs else take 1 evs) \<and>
         list_all (\<lambda>f. emitter_name f = name_of E inner)
           (failed_events cfg (name_of E inner) (time_now w1) e evs))"
  using assms
  by (auto simp: capture_emit_def failed_events_def list_all_iff comp_def split: sum.splits list.splits)

theorem capture_transparent_witness:
  "fst (emit sample_env (FailureCaptureEmitter 4 failure_capture_config_default (Leaf 1))
         [event_from_message (sample_message ''m'')] sample_world) = Inl (Send ''down'')"
proof -
  let ?evs = "[event_from_message (sample_message ''m'')]"
  obtain r w1 where r: "emit sample_env (Leaf 1) ?evs sample_world = (r, w1)" by fastforce
  then have "r = Inl (Send ''down'')" by (simp add: sample_env_def sample_leaf_def)
  with capture_transparent [OF r, of 4 failure_capture_config_default] show ?thesis
    by (simp del: emit.simps)
qed

text \<open>C21. The builder nests the wrappers inside out: retry around the destination, the circuit
  breaker around retry, failure capture outermost. So in a full stack an emission whose
  attempts all fail counts as one failure of the circuit, and while the circuit is open the
  destination is not called but the rejected events are still captured.\<close>

theorem resilient_stack:
  assumes self: "self = with_failure_capture buf fc (with_circuit_breaker cb (with_retry rc (wrap_arc (Leaf n))))"
    and em: "fst (build a self w0) = em"
  shows "em = FailureCaptureEmitter buf fc (CircuitBreakerEmitter a cb (RetryEmitter a rc (Leaf n))) \<and>
   (current_state (breakers w a) = Closed \<and>
    (\<forall>j\<le>unat (max_attempts rc). \<not> is_ok (fst (attempt_at E a rc (emit E (Leaf n)) evs j w))) \<longrightarrow>
      (\<exists>t. breakers (snd (emit E em evs w)) a = record_failure cb t (breakers w a))) \<and>
   (\<forall>t. current_state (breakers w a) = Open \<and> last_failure_time (breaker (breakers w a)) = Some t \<and>
        time_now w - t < reset_timeout cb \<longrightarrow>
      fst (emit E em evs w) = Inl NotReady \<and> backend (snd (emit E em evs w)) = backend w \<and>
      failure_buffers (snd (emit E em evs w)) buf =
        failure_buffer_push (failed_events fc ''circuit_breaker'' (time_now w) NotReady evs)
          (failure_buffers w buf))"
proof -
  let ?cb = "CircuitBreakerEmitter a cb (RetryEmitter a rc (Leaf n))"
  have stack: "em = FailureCaptureEmitter buf fc ?cb"
    using em by (simp add: self build_def wrapper_defs with_failure_capture_def with_circuit_breaker_def
        with_retry_def wrap_arc_def)
  have captured: "breakers (snd (emit E em evs w)) a = breakers (snd (emit E ?cb evs w)) a"
    using capture_emit_frame [where f = "\<lambda>w. breakers w a"]
    by (auto simp: stack capture_emit_def simp del: emit.simps(3) split: prod.splits sum.splits)
  have one: "\<exists>t. breakers (snd (emit E ?cb evs w)) a = record_failure cb t (breakers w a)"
    if closed: "current_state (breakers w a) = Closed"
      and fails: "\<forall>j\<le>unat (max_attempts rc). \<not> is_ok (fst (attempt_at E a rc (emit E (Leaf n)) evs j w))"
  proof -
    have "should_allow_request cb (time_now w) (breakers w a) = (True, breakers w a)"
      using closed by (simp add: current_state_def)
    moreover have "\<not> is_ok (fst (emit E (RetryEmitter a rc (Leaf n)) evs w))"
      using retry_loop_exhausts [of 0 "unat (max_attempts rc)" E a rc "emit E (Leaf n)" evs w None] fails
      by (simp add: retry_emit_def del: retry_loop.simps emit.simps(1))
    ultimately show ?thesis
      using over_retry.emit_cell [of a cb E a rc n evs w]
      by (auto simp: cell_emit_def put_breaker_def simp del: emit.simps(1,2))
  qed
  show ?thesis
    using stack captured one breaker_emit_rejects [of w a _ cb "emit E (RetryEmitter a rc (Leaf n))" evs]
    by (auto simp: current_state_def capture_emit_def simp del: emit.simps(1,2))
qed

theorem resilient_stack_witness:
  "let em = fst (build 7 (with_default_failure_capture 4 (with_default_circuit_breaker
                  (with_default_retry (wrap_arc (Leaf 0))))) sample_world)
   in fst (emit sample_env em [] open_world) = Inl NotReady \<and>
      backend (snd (emit sample_env em [] open_world)) = backend open_world"
proof -
  have opened: "current_state (breakers open_world 7) = Open"
      "last_failure_time (breaker (breakers open_world 7)) = Some 0"
      "time_now open_world - 0 < reset_timeout circuit_breaker_config_default"
    by (simp_all add: sample_defs current_state_def put_breaker_def)
  show ?thesis
    using resilient_stack [OF refl refl, where buf = 4 and fc = failure_capture_config_default
        and cb = circuit_breaker_config_default and rc = backoff_config_default and n = 0 and a = 7
        and ?w0.0 = sample_world and w = open_world and E = sample_env and evs = "[]"] opened
    unfolding Let_def with_default_failure_capture_def with_default_circuit_breaker_def
      with_default_retry_def
    by metis
qed

text \<open>A wrapped emitter no longer answers to the name of its destination: whatever wrapper
  the builder added, the stack's name is the outermost wrapper's, so an event routed to the
  destination by its own name is not routed to the stack.\<close>

theorem wrapped_emitter_loses_route:
  assumes "retry_config self \<noteq> None \<or> circuit_breaker_config self \<noteq> None \<or> failure_capture self \<noteq> None"
    and "dest \<notin> {''retry'', ''circuit_breaker'', ''failure_capture''}"
    and "ev_route_to e = [dest]"
  shows "\<not> event_routed_to (name_of E (fst (build a self w))) e"
proof -
  have "name_of E (fst (build a self w)) \<in> {''retry'', ''circuit_breaker'', ''failure_capture''}"
    using assms(1) by (auto simp: build_def wrapper_defs Let_def split: option.splits prod.splits)
  with assms(2,3) show ?thesis by (auto simp: event_routed_to_iff)
qed

theorem wrapped_emitter_loses_route_witness:
  "event_routed_to (name_of sample_env (Leaf 0)) (event_from_message (with_routes (sample_message ''m'') [''grpc''])) \<and>
   \<not> event_routed_to (name_of sample_env (fst (build 7 (with_default_retry (wrap_arc (Leaf 0))) sample_world)))
       (event_from_message (with_routes (sample_message ''m'') [''grpc'']))"
proof
  show "event_routed_to (name_of sample_env (Leaf 0))
          (event_from_message (with_routes (sample_message ''m'') [''grpc'']))"
    by (simp add: should_route_to_iff with_routes_def sample_env_def sample_leaf_def)
  show "\<not> event_routed_to (name_of sample_env (fst (build 7 (with_default_retry (wrap_arc (Leaf 0))) sample_world)))
       (event_from_message (with_routes (sample_message ''m'') [''grpc'']))"
    by (rule wrapped_emitter_loses_route [where dest = "''grpc''"])
      (simp_all add: with_default_retry_def with_retry_def wrap_arc_def with_routes_def)
qed

end
