(* ===== verification/Webhook_Emitter.thy ===== *)
theory Webhook_Emitter
  imports Resilience Utf8
begin

text \<open>
  The HTTP destination of \<open>gateway/src/emit/webhook.rs\<close>, as a leaf of the emitter tree. The HTTP client of \<open>reqwest\<close>, the
  server behind it, the \<open>base64\<close> encoder and the texts of the status codes are the parameter \<open>Http\<close>. A response is its
  status code and its body, \<open>None\<close> when reading the body fails; \<open>is_success\<close> says which codes mean success.
  The serialisation that \<open>serde\<close> derives for the payload structs is written out as a JSON value.
\<close>

datatype json = JString string | JInt int | JArray "json list" | JObject "(string \<times> json) list"

record HttpClient =
  timeout_secs :: nat
  connect_timeout_secs :: nat

record HttpResponse =
  http_status :: nat
  http_body :: "string option"

record 'x Http =
  http_build :: "HttpClient \<Rightarrow> string option"
  http_post :: "HttpClient \<Rightarrow> string \<Rightarrow> (string \<times> string) list \<Rightarrow> json \<Rightarrow> nat \<Rightarrow> 'x \<Rightarrow>
     (string + HttpResponse) \<times> nat \<times> 'x"
  http_head :: "HttpClient \<Rightarrow> string \<Rightarrow> nat \<Rightarrow> 'x \<Rightarrow> (string + HttpResponse) \<times> nat \<times> 'x"
  is_success :: "nat \<Rightarrow> bool"
  status_text :: "nat \<Rightarrow> string"
  base64_encode :: "bytes \<Rightarrow> string"
  json_entries :: "(string \<rightharpoonup> string) \<Rightarrow> (string \<times> string) list"

section \<open>The payload\<close>

record EventJson =
  ej_id :: string
  ej_timestamp_unix_ns :: i64
  ej_source :: string
  ej_event_type :: string
  ej_metadata :: "string \<rightharpoonup> string"
  ej_payload :: bytes
  ej_route_to :: "string list"

record WebhookPayload =
  webhook_events :: "EventJson list"

definition event_json_from :: "Event \<Rightarrow> EventJson" where
  "event_json_from e =
     \<lparr>ej_id = ev_id e, ej_timestamp_unix_ns = timestamp_unix_ns e, ej_source = ev_source e,
      ej_event_type = event_type e, ej_metadata = ev_metadata e, ej_payload = ev_payload e,
      ej_route_to = ev_route_to e\<rparr>"

definition serialize_event :: "'x Http \<Rightarrow> EventJson \<Rightarrow> json" where
  "serialize_event H e =
     JObject
       [(''id'', JString (ej_id e)),
        (''timestamp_unix_ns'', JInt (sint (ej_timestamp_unix_ns e))),
        (''source'', JString (ej_source e)),
        (''event_type'', JString (ej_event_type e)),
        (''metadata'', JObject (map (\<lambda>(k, v). (k, JString v)) (json_entries H (ej_metadata e)))),
        (''payload'', JString (base64_encode H (ej_payload e))),
        (''route_to'', JArray (map JString (ej_route_to e)))]"

definition serialize_payload :: "'x Http \<Rightarrow> WebhookPayload \<Rightarrow> json" where
  "serialize_payload H p = JObject [(''events'', JArray (map (serialize_event H) (webhook_events p)))]"

section \<open>The emitter\<close>

record WebhookEmitter =
  wh_client :: HttpClient
  wh_url :: string
  wh_health_url :: "string option"
  wh_headers :: "(string, string) hashmap"

definition webhook_new :: "'x Http \<Rightarrow> string \<Rightarrow> PluginError + WebhookEmitter" where
  "webhook_new H url =
     (let client = \<lparr>timeout_secs = 30, connect_timeout_secs = 10\<rparr> in
      case http_build H client of
        Some e \<Rightarrow> Inl (Init (''Failed to build HTTP client: '' @ e))
      | None \<Rightarrow> Inr \<lparr>wh_client = client, wh_url = url, wh_health_url = None, wh_headers = []\<rparr>)"

definition health_url :: "string \<Rightarrow> WebhookEmitter \<Rightarrow> WebhookEmitter" where
  "health_url url self = self\<lparr>wh_health_url := Some url\<rparr>"

definition header :: "string \<Rightarrow> string \<Rightarrow> WebhookEmitter \<Rightarrow> WebhookEmitter" where
  "header name value self = self\<lparr>wh_headers := AList.update name value (wh_headers self)\<rparr>"

definition truncated_body :: "string \<Rightarrow> string" where
  "truncated_body body =
     (if 200 < length (utf8_chars body)
      then concat (take 200 (utf8_chars body)) @ ''...[truncated; '' @ show_nat (length (utf8_chars body)) @ '' chars total]''
      else body)"

definition webhook_emit ::
    "'x Http \<Rightarrow> WebhookEmitter \<Rightarrow> Event list \<Rightarrow> nat \<Rightarrow> 'x \<Rightarrow> plugin_result \<times> nat \<times> 'x" where
  "webhook_emit H self events t x =
     (if events = [] then (Inr (), 0, x)
      else
        let payload = \<lparr>webhook_events = map event_json_from events\<rparr> in
        case http_post H (wh_client self) (wh_url self) (wh_headers self) (serialize_payload H payload) t x of
          (Inr response, dt, x) \<Rightarrow>
            if is_success H (http_status response) then (Inr (), dt, x)
            else
              let body = (case http_body response of None \<Rightarrow> [] | Some b \<Rightarrow> b)
              in (Inl (Send (''Webhook returned '' @ status_text H (http_status response) @ '': '' @ truncated_body body)),
                  dt, x)
        | (Inl e, dt, x) \<Rightarrow> (Inl (Connection (''Failed to connect to '' @ wh_url self @ '': '' @ e)), dt, x))"

definition webhook_health :: "'x Http \<Rightarrow> WebhookEmitter \<Rightarrow> nat \<Rightarrow> 'x \<Rightarrow> bool \<times> nat \<times> 'x" where
  "webhook_health H self t x =
     (let url = (case wh_health_url self of None \<Rightarrow> wh_url self | Some u \<Rightarrow> u) in
      case http_head H (wh_client self) url t x of
        (Inr response, dt, x) \<Rightarrow>
          (is_success H (http_status response) \<or> http_status response = 405, dt, x)
      | (Inl e, dt, x) \<Rightarrow> (False, dt, x))"

definition webhook_leaf :: "'x Http \<Rightarrow> WebhookEmitter \<Rightarrow> 'x leaf" where
  "webhook_leaf H self =
     \<lparr>leaf_name = ''webhook'', leaf_emit = webhook_emit H self, leaf_health = webhook_health H self,
      leaf_shutdown = (\<lambda>t x. (Inr (), 0, x))\<rparr>"

section \<open>What an error text holds\<close>

text \<open>The body in the error text: at most 200 characters of the answer are quoted, always whole ones, so that the
  text stays valid UTF-8. A body within the limit is quoted as it is; a longer one is cut after exactly 200 characters and
  followed by its number of characters.\<close>

theorem truncated_body_valid:
  assumes "utf8_valid body"
  shows "utf8_valid (truncated_body body) \<and>
    (if length (utf8_chars body) \<le> 200 then truncated_body body = body
     else take 200 (utf8_chars (truncated_body body)) = take 200 (utf8_chars body) \<and>
       length (truncated_body body) \<le> 800 + 28 + length (show_nat (length (utf8_chars body))))"
proof (cases "length (utf8_chars body) \<le> 200")
  case True
  with assms show ?thesis by (simp add: truncated_body_def)
next
  case False
  let ?n = "length (utf8_chars body)" and ?cs = "take 200 (utf8_chars body)"
  let ?marker = "''...[truncated; '' @ show_nat ?n @ '' chars total]''"
  have cut: "truncated_body body = concat ?cs @ ?marker"
    using False by (simp add: truncated_body_def)
  have "list_all (in_range 0 0x7F) ?marker"
    using ascii_show_nat [of ?n] by (simp add: in_range_def)
  then have "utf8_valid ?marker" by (rule utf8_valid_ascii)
  then have valid: "utf8_valid (truncated_body body)"
    unfolding cut using utf8_valid_append utf8_valid_take(1) [OF assms] by blast
  have "utf8_chars (truncated_body body) = ?cs @ utf8_chars ?marker"
    unfolding cut by (simp only: utf8_chars_append [OF utf8_valid_take(1) [OF assms]] utf8_valid_take(2) [OF assms])
  then have "take 200 (utf8_chars (truncated_body body)) = ?cs"
    using False by simp
  moreover have "length (concat ?cs) \<le> 4 * length ?cs"
    using utf8_char_bytes [of _ body] by (intro length_concat_le) (auto dest: in_set_takeD)
  ultimately show ?thesis using False valid by (simp add: cut)
qed

theorem truncated_body_valid_witness:
  "let body = replicate 201 CHR ''x'' in
   utf8_valid (truncated_body body) \<and> take 200 (utf8_chars (truncated_body body)) = replicate 200 ''x'' \<and>
   length (truncated_body body) \<le> 831"
proof -
  let ?body = "replicate 201 CHR ''x''"
  have ascii: "list_all (in_range 0 0x7F) ?body" by (simp add: list_all_iff in_range_def)
  then have chars: "utf8_chars ?body = replicate 201 ''x''" by (simp add: utf8_chars_ascii)
  have "length (show_nat 201) = 3" by (simp add: show_nat.simps)
  then show ?thesis
    using truncated_body_valid [OF utf8_valid_ascii [OF ascii]] chars by (simp add: Let_def min_def)
qed

section \<open>The payload can be read back\<close>

text \<open>A receiver: it looks the fields up by name and decodes the payload.\<close>

fun json_get :: "string \<Rightarrow> json \<Rightarrow> json option" where
  "json_get k (JObject kvs) = map_of kvs k"
| "json_get k _ = None"

fun as_string :: "json \<Rightarrow> string option" where
  "as_string (JString s) = Some s"
| "as_string _ = None"

fun as_int :: "json \<Rightarrow> int option" where
  "as_int (JInt n) = Some n"
| "as_int _ = None"

fun as_list :: "json \<Rightarrow> json list option" where
  "as_list (JArray js) = Some js"
| "as_list _ = None"

fun as_strings :: "json list \<Rightarrow> string list option" where
  "as_strings [] = Some []"
| "as_strings (j # js) = Option.bind (as_string j) (\<lambda>s. map_option ((#) s) (as_strings js))"

fun as_map :: "json \<Rightarrow> (string \<rightharpoonup> string) option" where
  "as_map (JObject kvs) = Some (\<lambda>k. Option.bind (map_of kvs k) as_string)"
| "as_map _ = None"

definition read_event :: "(string \<Rightarrow> bytes option) \<Rightarrow> json \<Rightarrow> Event option" where
  "read_event decode j =
     Option.bind (Option.bind (json_get ''id'' j) as_string) (\<lambda>i.
     Option.bind (Option.bind (json_get ''timestamp_unix_ns'' j) as_int) (\<lambda>t.
     Option.bind (Option.bind (json_get ''source'' j) as_string) (\<lambda>src.
     Option.bind (Option.bind (json_get ''event_type'' j) as_string) (\<lambda>ty.
     Option.bind (Option.bind (json_get ''metadata'' j) as_map) (\<lambda>md.
     Option.bind (Option.bind (Option.bind (json_get ''payload'' j) as_string) decode) (\<lambda>p.
     Option.bind (Option.bind (Option.bind (json_get ''route_to'' j) as_list) as_strings) (\<lambda>rs.
       Some \<lparr>ev_id = i, timestamp_unix_ns = word_of_int t, ev_source = src, event_type = ty, ev_metadata = md,
             ev_payload = p, ev_route_to = rs\<rparr>)))))))"

fun read_all :: "(json \<Rightarrow> 'a option) \<Rightarrow> json list \<Rightarrow> 'a list option" where
  "read_all r [] = Some []"
| "read_all r (j # js) = Option.bind (r j) (\<lambda>a. map_option ((#) a) (read_all r js))"

definition read_payload :: "(string \<Rightarrow> bytes option) \<Rightarrow> json \<Rightarrow> Event list option" where
  "read_payload decode j =
     Option.bind (Option.bind (json_get ''events'' j) as_list) (read_all (read_event decode))"

lemma as_strings_JString [simp]: "as_strings (map JString ss) = Some ss"
  by (induction ss) simp_all

lemma map_of_JString: "map_of (map (\<lambda>(k, v). (k, JString v)) es) k = map_option JString (map_of es k)"
  by (induction es) auto

lemma read_event_serialize:
  assumes "\<And>b. decode (base64_encode H b) = Some b"
    and "map_of (json_entries H (ev_metadata e)) = ev_metadata e"
  shows "read_event decode (serialize_event H (event_json_from e)) = Some e"
proof -
  have "Option.bind (map_option JString v) as_string = v" for v by (cases v) simp_all
  then show ?thesis
    by (simp add: read_event_def serialize_event_def event_json_from_def assms map_of_JString)
qed

text \<open>C39. Nothing is lost on the way to a webhook: a receiver that decodes the body of the request gets back the batch of events,
  in order and field by field, if decoding undoes the \<open>base64\<close> encoding and the serialiser lists the entries of each metadata map.\<close>

theorem webhook_payload_roundtrip:
  assumes "\<And>b. decode (base64_encode H b) = Some b"
    and "\<And>e. e \<in> set events \<Longrightarrow> map_of (json_entries H (ev_metadata e)) = ev_metadata e"
  shows "read_payload decode (serialize_payload H \<lparr>webhook_events = map event_json_from events\<rparr>) = Some events"
proof -
  have "read_all (read_event decode) (map (serialize_event H) (map event_json_from events)) = Some events"
    using assms by (induction events) (simp_all add: read_event_serialize)
  then show ?thesis by (simp add: read_payload_def serialize_payload_def)
qed

text \<open>A client for the examples: the server answers as told, by the number of the request, and remembers the requests.\<close>

type_synonym request = "string \<times> (string \<times> string) list \<times> json"

definition recording :: "(nat \<Rightarrow> string + HttpResponse) \<Rightarrow> request list Http \<Rightarrow> request list Http" where
  "recording answer H = H\<lparr>http_post := (\<lambda>client url headers body t log. (answer (length log), 0, log @ [(url, headers, body)]))\<rparr>"

definition sample_http :: "request list Http" where
  "sample_http =
     \<lparr>http_build = (\<lambda>_. None), http_post = (\<lambda>_ _ _ _ t log. (Inl [], 0, log)),
      http_head = (\<lambda>_ _ t log. (Inl [], 0, log)), is_success = (\<lambda>n. 200 \<le> n \<and> n < 300), status_text = show_nat,
      base64_encode = (\<lambda>b. b), json_entries = (\<lambda>_. [])\<rparr>"

theorem webhook_payload_roundtrip_witness:
  "let events = map (\<lambda>i. event_from_message (sample_message i)) [''a'', ''b''] in
   read_payload Some (serialize_payload sample_http \<lparr>webhook_events = map event_json_from events\<rparr>) = Some events"
proof -
  let ?events = "map (\<lambda>i. event_from_message (sample_message i)) [''a'', ''b'']"
  have "map_of (json_entries sample_http (ev_metadata e)) = ev_metadata e" if "e \<in> set ?events" for e
    using that by (auto simp: sample_http_def event_from_message_def message_with_id_def)
  then show ?thesis
    using webhook_payload_roundtrip [of Some sample_http ?events] by (simp add: sample_http_def)
qed

section \<open>Outcomes\<close>

definition accepted_answer :: "'x Http \<Rightarrow> string + HttpResponse \<Rightarrow> bool" where
  "accepted_answer H answer \<longleftrightarrow> (case answer of Inl _ \<Rightarrow> False | Inr r \<Rightarrow> is_success H (http_status r))"

text \<open>The one request that an emission of a batch makes.\<close>

definition webhook_request :: "'x Http \<Rightarrow> WebhookEmitter \<Rightarrow> Event list \<Rightarrow> request" where
  "webhook_request H self events =
     (wh_url self, wh_headers self, serialize_payload H \<lparr>webhook_events = map event_json_from events\<rparr>)"

lemma serialize_recording [simp]: "serialize_payload (recording answer H) = serialize_payload H"
  by (intro ext) (simp add: serialize_payload_def serialize_event_def recording_def)

lemma webhook_emit_recording:
  assumes "webhook_emit (recording answer H) self events t sent = (r, dt, sent')"
  shows "sent' = (if events = [] then sent else sent @ [webhook_request H self events])"
    and "is_ok r \<longleftrightarrow> events = [] \<or> accepted_answer H (answer (length sent))"
proof -
  have fields: "http_post (recording answer H) client url headers body t sent =
      (answer (length sent), 0, sent @ [(url, headers, body)])"
    "is_success (recording answer H) = is_success H" for client url headers body
    by (simp_all add: recording_def)
  show "sent' = (if events = [] then sent else sent @ [webhook_request H self events])"
    "is_ok r \<longleftrightarrow> events = [] \<or> accepted_answer H (answer (length sent))"
    using assms
    by (auto simp: webhook_emit_def webhook_request_def accepted_answer_def fields Let_def
        split: if_splits sum.splits)
qed

lemma retry_over_webhook:
  assumes leaf: "leaves E n = webhook_leaf (recording answer H) self" and "events \<noteq> []"
  shows "backend (snd (attempt_at E a cfg (emit E (Leaf n)) events k w)) =
      backend w @ replicate (Suc k) (webhook_request H self events) \<and>
    (is_ok (fst (attempt_at E a cfg (emit E (Leaf n)) events k w)) \<longleftrightarrow>
      accepted_answer H (answer (length (backend w) + k)))"
proof -
  have one: "backend (snd (emit E (Leaf n) events v)) = backend v @ [webhook_request H self events] \<and>
      (is_ok (fst (emit E (Leaf n) events v)) \<longleftrightarrow> accepted_answer H (answer (length (backend v))))" for v
  proof -
    obtain r dt log' where step: "webhook_emit (recording answer H) self events (time_now v) (backend v) = (r, dt, log')"
      by (metis surj_pair)
    then show ?thesis
      using webhook_emit_recording [OF step] assms(2) by (simp add: leaf webhook_leaf_def)
  qed
  show ?thesis
    by (induction k) (simp_all add: one frame replicate_append_same del: emit.simps)
qed

text \<open>C27. A retried webhook, end to end: each attempt posts the same request, with the whole batch, once; the attempts end with the first
  answer of success or with the last attempt allowed; and the emission succeeds exactly if that last
  answer was a success. So the server accepts the batch at most once, if it accepts it exactly when it says so.\<close>

theorem webhook_retry_posts:
  assumes "leaves E n = webhook_leaf (recording answer H) self" and "events \<noteq> []"
    and "emit E (RetryEmitter a cfg (Leaf n)) events w = (r, w')"
  shows "\<exists>m\<le>unat (max_attempts cfg).
    backend w' = backend w @ replicate (Suc m) (webhook_request H self events) \<and>
    (\<forall>j<m. \<not> accepted_answer H (answer (length (backend w) + j))) \<and>
    (if is_ok r then accepted_answer H (answer (length (backend w) + m))
     else m = unat (max_attempts cfg) \<and> \<not> accepted_answer H (answer (length (backend w) + m)))"
proof -
  obtain m where "m \<le> unat (max_attempts cfg)"
    "\<And>j. j < m \<Longrightarrow> \<not> is_ok (fst (attempt_at E a cfg (emit E (Leaf n)) events j w))"
    "is_ok (fst (attempt_at E a cfg (emit E (Leaf n)) events m w)) \<or> m = unat (max_attempts cfg)"
    "r = fst (attempt_at E a cfg (emit E (Leaf n)) events m w)"
    "backend w' = backend (snd (attempt_at E a cfg (emit E (Leaf n)) events m w))"
    using retry_deciding_attempt [of cfg E a "Leaf n" events w] assms(3) by (metis fst_conv snd_conv)
  then show ?thesis
    by (intro exI [of _ m]) (auto simp: retry_over_webhook [OF assms(1,2)] simp del: replicate_Suc)
qed

text \<open>A closed instance: the server is unavailable at first and then accepts.\<close>

definition flaky_answer :: "nat \<Rightarrow> string + HttpResponse" where
  "flaky_answer k = Inr \<lparr>http_status = (if k = 0 then 503 else 200), http_body = Some ''busy''\<rparr>"

theorem webhook_retry_posts_witness:
  "\<exists>self E (w :: request list World). wh_url self = ''http://x'' \<and> (let events = [event_from_message (sample_message ''m'')];
      (r, w') = emit E (RetryEmitter 0 backoff_config_default (Leaf 0)) events w in
   is_ok r \<and> backend w' = replicate 2 (webhook_request sample_http self events))"
proof -
  let ?self = "\<lparr>wh_client = \<lparr>timeout_secs = 30, connect_timeout_secs = 10\<rparr>, wh_url = ''http://x'',
    wh_health_url = None, wh_headers = []\<rparr>"
  let ?events = "[event_from_message (sample_message ''m'')]"
  let ?E = "\<lparr>round_f64 = (\<lambda>x. x), powi_f64 = (\<lambda>x n. x),
    leaves = (\<lambda>_. webhook_leaf (recording flaky_answer sample_http) ?self)\<rparr>"
  let ?w = "\<lparr>time_now = 0, jitter_rng = 1, breakers = (\<lambda>_. breaker_cell_new), retries = (\<lambda>_. retry_cell_new),
    failure_buffers = (\<lambda>_. failure_buffer_new 10), backend = []\<rparr>"
  obtain r w' where run: "emit ?E (RetryEmitter 0 backoff_config_default (Leaf 0)) ?events ?w = (r, w')"
    by fastforce
  have acc: "accepted_answer sample_http (flaky_answer k) \<longleftrightarrow> k \<noteq> 0" for k
    by (simp add: accepted_answer_def flaky_answer_def sample_http_def)
  have max: "1 \<le> unat (max_attempts backoff_config_default)" by (simp add: backoff_config_default_def)
  obtain m where m: "backend w' = replicate (Suc m) (webhook_request sample_http ?self ?events)"
    "\<forall>j<m. j = 0" "if is_ok r then m \<noteq> 0 else m = unat (max_attempts backoff_config_default) \<and> m = 0"
    using webhook_retry_posts [OF _ _ run, of flaky_answer sample_http ?self] by (auto simp: acc simp del: replicate_Suc split: if_splits)
  have "is_ok r" using m(3) max by (simp split: if_splits)
  moreover have "m = 1"
  proof -
    have "\<not> 1 < m" using m(2) by auto
    moreover have "m \<noteq> 0" using m(3) \<open>is_ok r\<close> by simp
    ultimately show ?thesis by linarith
  qed
  ultimately have "is_ok r" "m = 1" by simp_all
  with m(1) have "is_ok r \<and> backend w' = replicate 2 (webhook_request sample_http ?self ?events)"
    by (simp add: numeral_2_eq_2)
  then show ?thesis using run by (intro exI [of _ ?self] exI [of _ ?E] exI [of _ ?w]) (simp del: emit.simps)
qed

end
