(* ===== verification/Grpc_Emitter.thy ===== *)
theory Grpc_Emitter
  imports Gateway_Server Resilience
begin

text \<open>
  The gRPC destination of \<open>gateway/src/emit/grpc.rs\<close>, which forwards events to another gateway. An emission spawns one
  task per event, each of which makes one unary call, and then awaits the tasks in the order of the events; it returns at the first failure, while later
  tasks run on. The step relation \<open>grpc_step\<close> interleaves the tasks with the awaiting loop: a call is one step
  on the state of the server. A task may also break (panic or be cancelled), and the client gives up a call after its
  timeout of 30 seconds with a status of its own, in both cases with or without the call having taken effect.
  \<open>grpc_emit\<close> is the emission as a function of the order in which the calls take effect. The client of \<open>tonic\<close>, the
  network and the server are the parameter \<open>Rpc\<close>.
\<close>

record 'x Rpc =
  endpoint_error :: "string \<Rightarrow> string option"
  rpc_connect :: "string \<Rightarrow> nat \<Rightarrow> nat \<Rightarrow> 'x \<Rightarrow> string option \<times> 'x"
  rpc_send :: "IngestEvent \<Rightarrow> 'x \<Rightarrow> (status + Ack) \<times> 'x"
  rpc_health :: "'x \<Rightarrow> (status + HealthResponse) \<times> 'x"
  rpc_show_status :: "status \<Rightarrow> string"

record GrpcEmitter =
  endpoint :: string

definition grpc_new :: "'x Rpc \<Rightarrow> string \<Rightarrow> 'x \<Rightarrow> (PluginError + GrpcEmitter) \<times> 'x" where
  "grpc_new C endpoint_str x =
     (case endpoint_error C endpoint_str of
        Some e \<Rightarrow> (Inl (Init (''Invalid endpoint URL: '' @ e)), x)
      | None \<Rightarrow>
          (case rpc_connect C endpoint_str 10 30 x of
             (Some e, x) \<Rightarrow> (Inl (Connection (''Failed to connect to '' @ endpoint_str @ '': '' @ e)), x)
           | (None, x) \<Rightarrow> (Inr \<lparr>endpoint = endpoint_str\<rparr>, x)))"

definition forward_request :: "Event \<Rightarrow> IngestEvent" where
  "forward_request event =
     \<lparr>ie_source = ev_source event, ie_cluster = [], ie_format = [], ie_payload = Some (Event_Event event)\<rparr>"

text \<open>A task: not yet run, finished with the answer to its call, finished with the status of a timeout, or broken with the text of the join error.\<close>

datatype task = Spawned | Called "status + Ack" | Timed_out status | Broken string

fun undisturbed :: "task \<Rightarrow> bool" where
  "undisturbed (Timed_out st) = False"
| "undisturbed (Broken e) = False"
| "undisturbed _ = True"

text \<open>What awaiting a finished task gives.\<close>

definition join_result :: "'x Rpc \<Rightarrow> Event \<Rightarrow> task \<Rightarrow> plugin_result option" where
  "join_result C event task =
     (case task of
        Spawned \<Rightarrow> None
      | Called (Inr ack) \<Rightarrow> Some (Inr ())
      | Called (Inl e) \<Rightarrow> Some (Inl (Send (''Failed to forward event '' @ ev_id event @ '': '' @ rpc_show_status C e)))
      | Timed_out e \<Rightarrow> Some (Inl (Send (''Failed to forward event '' @ ev_id event @ '': '' @ rpc_show_status C e)))
      | Broken e \<Rightarrow> Some (Inl (Send (''Failed to join send_event task: '' @ e))))"

record 'x grpc_sys =
  server :: 'x
  tasks :: "task list"
  awaiting :: nat
  returned :: "plugin_result option"
  calls :: "nat list"

definition grpc_start :: "Event list \<Rightarrow> 'x \<Rightarrow> 'x grpc_sys" where
  "grpc_start events x =
     \<lparr>server = x, tasks = replicate (length events) Spawned, awaiting = 0,
      returned = (if events = [] then Some (Inr ()) else None), calls = []\<rparr>"

text \<open>One round of the awaiting loop; it waits while the task is not finished.\<close>

definition await_step :: "'x Rpc \<Rightarrow> Event list \<Rightarrow> 'x grpc_sys \<Rightarrow> 'x grpc_sys" where
  "await_step C events s =
     (if returned s \<noteq> None then s
      else if awaiting s < length events then
        (case join_result C (events ! awaiting s) (tasks s ! awaiting s) of
           None \<Rightarrow> s
         | Some (Inr _) \<Rightarrow> s\<lparr>awaiting := awaiting s + 1\<rparr>
         | Some (Inl e) \<Rightarrow> s\<lparr>returned := Some (Inl e)\<rparr>)
      else s\<lparr>returned := Some (Inr ())\<rparr>)"

definition finish_task :: "'x Rpc \<Rightarrow> Event list \<Rightarrow> nat \<Rightarrow> (status + Ack \<Rightarrow> task) \<Rightarrow> 'x grpc_sys \<Rightarrow> 'x grpc_sys" where
  "finish_task C events i outcome s =
     (case rpc_send C (forward_request (events ! i)) (server s) of (r, x) \<Rightarrow>
        s\<lparr>server := x, tasks := (tasks s)[i := outcome r], calls := calls s @ [i]\<rparr>)"

inductive grpc_step :: "'x Rpc \<Rightarrow> Event list \<Rightarrow> 'x grpc_sys \<Rightarrow> 'x grpc_sys \<Rightarrow> bool"
  for C :: "'x Rpc" and events :: "Event list" where
  call: "i < length events \<Longrightarrow> tasks s ! i = Spawned \<Longrightarrow> grpc_step C events s (finish_task C events i Called s)"
| time_out_early: "i < length events \<Longrightarrow> tasks s ! i = Spawned \<Longrightarrow>
    grpc_step C events s (s\<lparr>tasks := (tasks s)[i := Timed_out st]\<rparr>)"
| time_out_late: "i < length events \<Longrightarrow> tasks s ! i = Spawned \<Longrightarrow>
    grpc_step C events s (finish_task C events i (\<lambda>_. Timed_out st) s)"
| break_early: "i < length events \<Longrightarrow> tasks s ! i = Spawned \<Longrightarrow>
    grpc_step C events s (s\<lparr>tasks := (tasks s)[i := Broken e]\<rparr>)"
| break_late: "i < length events \<Longrightarrow> tasks s ! i = Spawned \<Longrightarrow>
    grpc_step C events s (finish_task C events i (\<lambda>_. Broken e) s)"
| await: "await_step C events s \<noteq> s \<Longrightarrow> grpc_step C events s (await_step C events s)"

inductive_cases grpc_stepE: "grpc_step C events s s'"

definition grpc_health :: "'x Rpc \<Rightarrow> 'x \<Rightarrow> bool \<times> 'x" where
  "grpc_health C x =
     (case rpc_health C x of
        (Inr response, x) \<Rightarrow> (resp_healthy response, x)
      | (Inl e, x) \<Rightarrow> (False, x))"

section \<open>The emission as a function\<close>

text \<open>The calls made in a given order, and the loop over finished tasks.\<close>

fun run_calls :: "'x Rpc \<Rightarrow> Event list \<Rightarrow> nat list \<Rightarrow> task list \<Rightarrow> 'x \<Rightarrow> task list \<times> 'x" where
  "run_calls C events [] ts x = (ts, x)"
| "run_calls C events (i # order) ts x =
     (case rpc_send C (forward_request (events ! i)) x of (r, x) \<Rightarrow>
        run_calls C events order (ts[i := Called r]) x)"

fun await_all :: "'x Rpc \<Rightarrow> Event list \<Rightarrow> task list \<Rightarrow> plugin_result" where
  "await_all C (event # events) (t # ts) =
     (case join_result C event t of
        Some (Inl e) \<Rightarrow> Inl e
      | _ \<Rightarrow> await_all C events ts)"
| "await_all C _ _ = Inr ()"

definition grpc_emit :: "'x Rpc \<Rightarrow> nat list \<Rightarrow> Event list \<Rightarrow> 'x \<Rightarrow> plugin_result \<times> 'x" where
  "grpc_emit C order events x =
     (if events = [] then (Inr (), x)
      else (case run_calls C events order (replicate (length events) Spawned) x of (ts, x) \<Rightarrow> (await_all C events ts, x)))"

text \<open>The leaf: the order in which the calls take effect and the time they take are the runtime's choice.\<close>

definition grpc_leaf :: "'x Rpc \<Rightarrow> (nat \<Rightarrow> 'x \<Rightarrow> nat list) \<Rightarrow> (nat \<Rightarrow> 'x \<Rightarrow> nat) \<Rightarrow> 'x leaf" where
  "grpc_leaf C order latency =
     \<lparr>leaf_name = ''grpc'',
      leaf_emit = (\<lambda>events t x. case grpc_emit C (order (length events) x) events x of (r, x') \<Rightarrow> (r, latency t x, x')),
      leaf_health = (\<lambda>t x. case grpc_health C x of (h, x') \<Rightarrow> (h, latency t x, x')),
      leaf_shutdown = (\<lambda>t x. (Inr (), 0, x))\<rparr>"

section \<open>Every interleaving\<close>

definition server_after :: "'x Rpc \<Rightarrow> Event list \<Rightarrow> nat list \<Rightarrow> 'x \<Rightarrow> 'x" where
  "server_after C events order x = fold (\<lambda>i x. snd (rpc_send C (forward_request (events ! i)) x)) order x"

definition grpc_inv :: "'x Rpc \<Rightarrow> Event list \<Rightarrow> 'x \<Rightarrow> 'x grpc_sys \<Rightarrow> bool" where
  "grpc_inv C events x s \<longleftrightarrow>
     length (tasks s) = length events \<and> awaiting s \<le> length events \<and>
     distinct (calls s) \<and> set (calls s) \<subseteq> {..<length events} \<and>
     (\<forall>i<length events. tasks s ! i = Spawned \<longrightarrow> i \<notin> set (calls s)) \<and>
     (\<forall>i<length events. \<forall>r. tasks s ! i = Called r \<longrightarrow> i \<in> set (calls s)) \<and>
     (\<forall>i<awaiting s. \<exists>ack. tasks s ! i = Called (Inr ack)) \<and>
     server s = server_after C events (calls s) x \<and>
     (case returned s of
        None \<Rightarrow> True
      | Some (Inr _) \<Rightarrow> awaiting s = length events
      | Some (Inl e) \<Rightarrow> awaiting s < length events \<and>
          join_result C (events ! awaiting s) (tasks s ! awaiting s) = Some (Inl e))"

lemma grpc_inv_start: "grpc_inv C events x (grpc_start events x)"
  by (simp add: grpc_inv_def grpc_start_def server_after_def)

lemma join_result_Inr: "join_result C event t = Some (Inr u) \<longleftrightarrow> (\<exists>ack. t = Called (Inr ack))"
  by (auto simp: join_result_def split: task.splits sum.splits)

lemma join_result_Spawned [simp]: "join_result C event Spawned = None"
  by (simp add: join_result_def)

lemma grpc_inv_finish:
  assumes "grpc_inv C events x s" and "i < length events" and "tasks s ! i = Spawned"
    and "\<And>r. outcome r \<noteq> Spawned"
  shows "grpc_inv C events x (finish_task C events i outcome s)"
  using assms
  by (auto simp: grpc_inv_def finish_task_def server_after_def nth_list_update case_prod_beta
      split: option.splits sum.splits)

lemma grpc_inv_break:
  assumes "grpc_inv C events x s" and "i < length events" and "tasks s ! i = Spawned" and "\<not> undisturbed t"
  shows "grpc_inv C events x (s\<lparr>tasks := (tasks s)[i := t]\<rparr>)"
  using assms by (auto simp: grpc_inv_def nth_list_update split: option.splits sum.splits)

lemma grpc_inv_await:
  assumes "grpc_inv C events x s"
  shows "grpc_inv C events x (await_step C events s)"
  using assms
  by (auto simp: grpc_inv_def await_step_def join_result_Inr less_Suc_eq split: option.splits sum.splits)

lemma grpc_step_inv: "grpc_step C events s t \<Longrightarrow> grpc_inv C events x s \<Longrightarrow> grpc_inv C events x t"
  by (erule grpc_stepE) (simp_all add: grpc_inv_finish grpc_inv_break grpc_inv_await)

lemma grpc_steps_inv: "(grpc_step C events)\<^sup>*\<^sup>* (grpc_start events x) s \<Longrightarrow> grpc_inv C events x s"
  by (induction rule: rtranclp_induct) (auto intro: grpc_inv_start grpc_step_inv)

text \<open>C9. One call per event, whatever the scheduling. In every reachable state of an emission each event has been sent at
  most once and the server's state is the effect of the calls made, in their order. When the emission has returned
  success, every event was sent exactly once and every call was answered. When it has returned an error, this is the error
  of the first event in the order of the batch that failed, whatever failed first in time; all events before it
  were answered.\<close>

theorem grpc_each_event_once:
  assumes "(grpc_step C events)\<^sup>*\<^sup>* (grpc_start events x) s"
  shows "distinct (calls s) \<and> set (calls s) \<subseteq> {..<length events} \<and>
    server s = server_after C events (calls s) x \<and>
    (case returned s of
       None \<Rightarrow> True
     | Some (Inr _) \<Rightarrow> mset (calls s) = mset [0..<length events] \<and>
         (\<forall>i<length events. \<exists>ack. tasks s ! i = Called (Inr ack))
     | Some (Inl e) \<Rightarrow> (\<exists>i<length events. join_result C (events ! i) (tasks s ! i) = Some (Inl e) \<and>
         (\<forall>j<i. \<exists>ack. tasks s ! j = Called (Inr ack))))"
proof -
  note inv = grpc_steps_inv [OF assms, unfolded grpc_inv_def]
  have "mset (calls s) = mset [0..<length events]" if "returned s = Some (Inr u)" for u
  proof -
    have "set (calls s) = set [0..<length events]"
      using inv that by (auto simp: atLeast0LessThan)
    moreover have "distinct (calls s)" using inv by blast
    ultimately show ?thesis using set_eq_iff_mset_eq_distinct distinct_upt by blast
  qed
  with inv show ?thesis by (auto split: option.splits sum.splits)
qed

section \<open>An emission ends\<close>

text \<open>What is left to do: tasks to finish and rounds of the awaiting loop.\<close>

definition grpc_measure :: "Event list \<Rightarrow> 'x grpc_sys \<Rightarrow> nat" where
  "grpc_measure events s =
     length (filter (\<lambda>t. t = Spawned) (tasks s)) +
     (if returned s = None then Suc (length events - awaiting s) else 0)"

lemma spawned_update:
  "i < length ts \<Longrightarrow> ts ! i = Spawned \<Longrightarrow> t \<noteq> Spawned \<Longrightarrow>
   length (filter (\<lambda>t. t = Spawned) (ts[i := t])) < length (filter (\<lambda>t. t = Spawned) ts)"
  by (induction ts arbitrary: i) (auto simp: nth_Cons split: nat.splits)

lemma grpc_measure_task:
  assumes "grpc_inv C events x s" and "i < length events" and "tasks s ! i = Spawned" and "t \<noteq> Spawned"
    and "tasks s' = (tasks s)[i := t]" and "returned s' = returned s" and "awaiting s' = awaiting s"
  shows "grpc_measure events s' < grpc_measure events s"
proof -
  have "length (filter (\<lambda>t. t = Spawned) (tasks s')) < length (filter (\<lambda>t. t = Spawned) (tasks s))"
    using spawned_update [of i "tasks s" t] assms by (simp add: grpc_inv_def)
  then show ?thesis unfolding grpc_measure_def assms(6,7) by simp
qed

lemma grpc_measure_decreases:
  assumes "grpc_step C events s t" and "grpc_inv C events x s"
  shows "grpc_measure events t < grpc_measure events s"
  using assms(1)
proof cases
  case (call i)
  then show ?thesis
    by (auto simp: finish_task_def case_prod_beta intro: grpc_measure_task [OF assms(2) call(2,3)])
next
  case (time_out_early i st)
  then show ?thesis by (auto intro: grpc_measure_task [OF assms(2) time_out_early(2,3)])
next
  case (time_out_late i st)
  then show ?thesis
    by (auto simp: finish_task_def case_prod_beta intro: grpc_measure_task [OF assms(2) time_out_late(2,3)])
next
  case (break_early i e)
  then show ?thesis by (auto intro: grpc_measure_task [OF assms(2) break_early(2,3)])
next
  case (break_late i e)
  then show ?thesis
    by (auto simp: finish_task_def case_prod_beta intro: grpc_measure_task [OF assms(2) break_late(2,3)])
next
  case await
  then show ?thesis
    by (auto simp: grpc_measure_def await_step_def split: option.splits sum.splits if_splits)
qed

lemma grpc_not_stuck:
  assumes "grpc_inv C events x s" and "returned s = None"
  shows "\<exists>t. grpc_step C events s t"
proof (cases "awaiting s < length events \<and> tasks s ! awaiting s = Spawned")
  case True
  then show ?thesis using grpc_step.call by blast
next
  case False
  then have "await_step C events s \<noteq> s"
    using assms(2) by (auto simp: await_step_def join_result_def split: task.splits sum.splits
        dest: arg_cong [where f = awaiting] arg_cong [where f = returned])
  then show ?thesis using grpc_step.await by blast
qed

text \<open>C40. Every emission ends: in a reachable state that has not returned, some step is possible, and every step lowers
  \<open>grpc_measure\<close>, which starts at no more than twice the number of events and one. So whatever the scheduling, an
  emission whose tasks are run returns.\<close>

theorem grpc_emission_ends:
  assumes "(grpc_step C events)\<^sup>*\<^sup>* (grpc_start events x) s"
  shows "(returned s = None \<longrightarrow> (\<exists>t. grpc_step C events s t)) \<and>
    (\<forall>t. grpc_step C events s t \<longrightarrow> grpc_measure events t < grpc_measure events s) \<and>
    grpc_measure events (grpc_start events x) \<le> 2 * length events + 1"
proof -
  note inv = grpc_steps_inv [OF assms]
  have "grpc_measure events (grpc_start events x) \<le> 2 * length events + 1"
    by (simp add: grpc_measure_def grpc_start_def)
  then show ?thesis using grpc_not_stuck [OF inv] grpc_measure_decreases [OF _ inv] by simp
qed

section \<open>Complete runs and the function\<close>

lemma server_after_snoc:
  "server_after C events (order @ [i]) x = snd (rpc_send C (forward_request (events ! i)) (server_after C events order x))"
  by (simp add: server_after_def)

text \<open>The answer to a call is the server's answer in the state that the earlier calls left.\<close>

definition answer_in :: "'x Rpc \<Rightarrow> Event list \<Rightarrow> 'x \<Rightarrow> nat list \<Rightarrow> nat \<Rightarrow> status + Ack" where
  "answer_in C events x order i =
     fst (rpc_send C (forward_request (events ! i)) (server_after C events (takeWhile (\<lambda>j. j \<noteq> i) order) x))"

lemma grpc_answers:
  assumes "(grpc_step C events)\<^sup>*\<^sup>* (grpc_start events x) s"
  shows "i < length events \<Longrightarrow> tasks s ! i = Called r \<Longrightarrow> r = answer_in C events x (calls s) i"
  using assms
proof (induction arbitrary: i r rule: rtranclp_induct)
  case base
  then show ?case by (simp add: grpc_start_def)
next
  case (step s t)
  note inv = grpc_steps_inv [OF step.hyps(1)]
  have keep: "answer_in C events x (calls s @ [j]) i = answer_in C events x (calls s) i"
    if "i \<in> set (calls s)" for j
    using that by (simp add: answer_in_def takeWhile_append1)
  have called: "i \<in> set (calls s)" if "tasks s ! i = Called r" for r
    using inv step.prems(1) that by (auto simp: grpc_inv_def)
  have new: "takeWhile (\<lambda>j. j \<noteq> i) (calls s @ [i]) = calls s" if "tasks s ! i = Spawned"
    using inv step.prems(1) that by (subst takeWhile_append2) (auto simp: grpc_inv_def)
  have server: "server s = server_after C events (calls s) x" "length (tasks s) = length events"
    using inv by (simp_all add: grpc_inv_def)
  from step.hyps(2) show ?case
  proof cases
    case (call j)
    show ?thesis
    proof (cases "i = j")
      case True
      with call have "takeWhile (\<lambda>k. k \<noteq> j) (calls s @ [j]) = calls s" using new by simp
      with True call step.prems(2) server show ?thesis
        by (simp add: finish_task_def answer_in_def case_prod_beta)
    next
      case False
      with call step.prems have "tasks s ! i = Called r" by (simp add: finish_task_def case_prod_beta)
      with step.IH step.prems(1) call keep called show ?thesis by (simp add: finish_task_def case_prod_beta)
    qed
  next
    case (time_out_early j st)
    with step.prems step.IH [of i r] server show ?thesis by (simp add: nth_list_update split: if_splits)
  next
    case (time_out_late j st)
    with step.prems have "tasks s ! i = Called r"
      using server by (simp add: finish_task_def case_prod_beta nth_list_update split: if_splits)
    with step.IH step.prems(1) time_out_late keep called show ?thesis by (simp add: finish_task_def case_prod_beta)
  next
    case (break_early j e)
    with step.prems step.IH [of i r] server show ?thesis by (simp add: nth_list_update split: if_splits)
  next
    case (break_late j e)
    with step.prems have "tasks s ! i = Called r"
      using server by (simp add: finish_task_def case_prod_beta nth_list_update split: if_splits)
    with step.IH step.prems(1) break_late keep called show ?thesis by (simp add: finish_task_def case_prod_beta)
  next
    case await
    then have "tasks t = tasks s" "calls t = calls s"
      by (simp_all add: await_step_def split: option.splits sum.splits)
    with step show ?thesis by simp
  qed
qed

lemma run_calls_eq:
  assumes "distinct order" and "set order \<subseteq> {..<length ts}"
  shows "snd (run_calls C events order ts x) = server_after C events order x"
    and "length (fst (run_calls C events order ts x)) = length ts"
    and "i < length ts \<Longrightarrow> fst (run_calls C events order ts x) ! i =
      (if i \<in> set order then Called (answer_in C events x order i) else ts ! i)"
proof -
  have "snd (run_calls C events order ts x) = server_after C events order x \<and>
    length (fst (run_calls C events order ts x)) = length ts \<and>
    (i < length ts \<longrightarrow> fst (run_calls C events order ts x) ! i =
      (if i \<in> set order then Called (answer_in C events x order i) else ts ! i))" for i
    using assms
  proof (induction order arbitrary: ts x)
    case (Cons j order)
    let ?x = "snd (rpc_send C (forward_request (events ! j)) x)"
    have "answer_in C events x (j # order) k =
        (if k = j then fst (rpc_send C (forward_request (events ! j)) x) else answer_in C events ?x order k)" for k
      by (auto simp: answer_in_def server_after_def)
    moreover have "server_after C events (j # order) x = server_after C events order ?x"
      by (simp add: server_after_def)
    ultimately show ?case
      using Cons.IH [of "ts[j := Called (fst (rpc_send C (forward_request (events ! j)) x))]" ?x] Cons.prems
      by (auto simp: case_prod_beta nth_list_update)
  qed (simp add: server_after_def)
  then show "snd (run_calls C events order ts x) = server_after C events order x"
    "length (fst (run_calls C events order ts x)) = length ts"
    "i < length ts \<Longrightarrow> fst (run_calls C events order ts x) ! i =
      (if i \<in> set order then Called (answer_in C events x order i) else ts ! i)"
    by auto
qed

lemma await_all_Inr:
  "length events = length ts \<Longrightarrow> (\<And>i. i < length events \<Longrightarrow> \<exists>ack. ts ! i = Called (Inr ack)) \<Longrightarrow>
   await_all C events ts = Inr ()"
proof (induction events ts rule: list_induct2)
  case (Cons event events t ts)
  from Cons.prems [of 0] obtain ack where t: "t = Called (Inr ack)" by auto
  have "\<exists>ack. ts ! i = Called (Inr ack)" if "i < length events" for i
    using Cons.prems [of "Suc i"] that by simp
  with Cons.IH t show ?case by (simp add: join_result_def)
qed simp

lemma await_all_Inl:
  "length events = length ts \<Longrightarrow> i < length events \<Longrightarrow> (\<And>j. j < i \<Longrightarrow> \<exists>ack. ts ! j = Called (Inr ack)) \<Longrightarrow>
   join_result C (events ! i) (ts ! i) = Some (Inl e) \<Longrightarrow> await_all C events ts = Inl e"
proof (induction events ts arbitrary: i rule: list_induct2)
  case (Cons event events t ts)
  show ?case
  proof (cases i)
    case 0
    with Cons.prems show ?thesis by simp
  next
    case (Suc k)
    from Cons.prems(2) [of 0] Suc obtain ack where t: "t = Called (Inr ack)" by auto
    have "\<exists>ack. ts ! j = Called (Inr ack)" if "j < k" for j
      using Cons.prems(2) [of "Suc j"] that Suc by simp
    with Cons.IH [of k] Cons.prems(1,3) t Suc show ?thesis by (simp add: join_result_def)
  qed
qed simp

text \<open>The function of the emitter tree stands for the real runs: a run in which every task has finished its call and the emission has
  returned gives the result and the state of the server that \<open>grpc_emit\<close> computes for the order of its calls.\<close>

theorem grpc_run_refines:
  assumes reach: "(grpc_step C events)\<^sup>*\<^sup>* (grpc_start events x) s" and ret: "returned s = Some r"
    and complete: "\<And>i. i < length events \<Longrightarrow> \<exists>a. tasks s ! i = Called a"
  shows "grpc_emit C (calls s) events x = (r, server s)"
proof (cases "events = []")
  case True
  note inv = grpc_steps_inv [OF reach, unfolded grpc_inv_def]
  from True inv have "calls s = []" "server s = server_after C events [] x" by auto
  moreover from True inv ret have "r = Inr ()" by (cases r) auto
  ultimately show ?thesis using True by (simp add: grpc_emit_def server_after_def)
next
  case False
  let ?run = "run_calls C events (calls s) (replicate (length events) Spawned) x"
  note inv = grpc_steps_inv [OF reach, unfolded grpc_inv_def]
  have calls: "distinct (calls s)" "set (calls s) \<subseteq> {..<length (replicate (length events) Spawned)}"
    using inv by simp_all
  note run = run_calls_eq [OF calls, where C = C and events = events and x = x]
  have same: "fst ?run = tasks s"
  proof (rule nth_equalityI)
    show "length (fst ?run) = length (tasks s)" using run(2) inv by simp
  next
    fix i assume "i < length (fst ?run)"
    then have i: "i < length events" using run(2) by simp
    then obtain a where a: "tasks s ! i = Called a" using complete by blast
    then have "i \<in> set (calls s)" "a = answer_in C events x (calls s) i"
      using inv i grpc_answers [OF reach i a] by auto
    with run(3) i a show "fst ?run ! i = tasks s ! i" by simp
  qed
  have "await_all C events (tasks s) = r"
  proof (cases r)
    case (Inr u)
    with inv ret have "length events = length (tasks s)" "\<And>i. i < length events \<Longrightarrow> \<exists>ack. tasks s ! i = Called (Inr ack)"
      by auto
    with Inr show ?thesis using await_all_Inr [of events "tasks s"] by simp
  next
    case (Inl e)
    with inv ret show ?thesis by (intro await_all_Inl [of events "tasks s" "awaiting s", THEN trans]) auto
  qed
  with same run(1) inv False show ?thesis by (simp add: grpc_emit_def case_prod_beta)
qed

section \<open>Forwarding to another gateway\<close>

text \<open>The server is the gateway service of this development: its state is a \<open>GatewayService\<close>.\<close>

definition gateway_rpc :: "GatewayService Rpc \<Rightarrow> GatewayService Rpc" where
  "gateway_rpc C = C\<lparr>rpc_send := send_event\<rparr>"

lemma rpc_send_gateway [simp]: "rpc_send (gateway_rpc C) = send_event"
  by (simp add: gateway_rpc_def)

lemma send_forwarded:
  assumes "rb_wf (svc_buffer g)"
  shows "messages (svc_buffer (snd (send_event (forward_request e) g))) =
      (if ring_buffer_is_full (svc_buffer g) then tl (messages (svc_buffer g)) else messages (svc_buffer g)) @
      [message_from_event e]"
    and "is_ok (fst (send_event (forward_request e) g)) \<longleftrightarrow> \<not> ring_buffer_is_full (svc_buffer g)"
    and "rb_capacity (svc_buffer (snd (send_event (forward_request e) g))) = rb_capacity (svc_buffer g)"
proof -
  have one: "process_event (forward_request e) g = Inr e"
    by (simp add: process_event_def forward_request_def)
  have len: "length (messages (svc_buffer g)) \<le> rb_capacity (svc_buffer g)"
    using assms by (simp add: rb_wf_def)
  have drops: "fst (ring_buffer_push [message_from_event e] (svc_buffer g)) > 0 \<longleftrightarrow> ring_buffer_is_full (svc_buffer g)"
    using dropped_push [OF assms, of "[message_from_event e]"] len by (auto simp: ring_buffer_is_full_def)
  note msgs = messages_push_one [OF assms, of "message_from_event e"]
  show "messages (svc_buffer (snd (send_event (forward_request e) g))) =
      (if ring_buffer_is_full (svc_buffer g) then tl (messages (svc_buffer g)) else messages (svc_buffer g)) @
      [message_from_event e]"
    "is_ok (fst (send_event (forward_request e) g)) \<longleftrightarrow> \<not> ring_buffer_is_full (svc_buffer g)"
    "rb_capacity (svc_buffer (snd (send_event (forward_request e) g))) = rb_capacity (svc_buffer g)"
    using msgs drops by (auto simp: send_event_def one Let_def case_prod_beta)
qed

text \<open>With room in the buffer, calls append their events.\<close>

lemma gateway_with_room:
  assumes "rb_wf (svc_buffer g)" and "length (messages (svc_buffer g)) + length order \<le> rb_capacity (svc_buffer g)"
  shows "messages (svc_buffer (server_after (gateway_rpc C) events order g)) =
      messages (svc_buffer g) @ map (\<lambda>i. message_from_event (events ! i)) order \<and>
    rb_capacity (svc_buffer (server_after (gateway_rpc C) events order g)) = rb_capacity (svc_buffer g) \<and>
    rb_wf (svc_buffer (server_after (gateway_rpc C) events order g))"
  using assms(2)
proof (induction order rule: rev_induct)
  case Nil
  with assms(1) show ?case by (simp add: server_after_def)
next
  case (snoc i order)
  let ?g = "server_after (gateway_rpc C) events order g"
  have IH: "messages (svc_buffer ?g) = messages (svc_buffer g) @ map (\<lambda>i. message_from_event (events ! i)) order"
    "rb_capacity (svc_buffer ?g) = rb_capacity (svc_buffer g)" "rb_wf (svc_buffer ?g)"
    using snoc by simp_all
  then have "\<not> ring_buffer_is_full (svc_buffer ?g)"
    using snoc.prems by (simp add: ring_buffer_is_full_def)
  with send_forwarded [OF IH(3), of "events ! i"] IH snoc.prems show ?case
    by (auto simp: server_after_snoc rb_wf_def)
qed

text \<open>Two gateways in a row: when the buffer of the downstream gateway has room for the batch, no task breaks and no call times out, an
  emission that returns has succeeded, and the downstream buffer holds, after what it held before, every event of the batch
  exactly once, in the order in which the calls took effect, which need not be the order of the batch.\<close>

theorem grpc_into_gateway:
  assumes wf: "rb_wf (svc_buffer g)"
    and room: "length (messages (svc_buffer g)) + length events \<le> rb_capacity (svc_buffer g)"
    and reach: "(grpc_step (gateway_rpc C) events)\<^sup>*\<^sup>* (grpc_start events g) s"
    and unbroken: "\<And>i. i < length events \<Longrightarrow> undisturbed (tasks s ! i)" and ret: "returned s = Some r"
  shows "r = Inr () \<and> mset (calls s) = mset [0..<length events] \<and>
    messages (svc_buffer (server s)) =
      messages (svc_buffer g) @ map (\<lambda>i. message_from_event (events ! i)) (calls s)"
proof -
  note inv = grpc_steps_inv [OF reach, unfolded grpc_inv_def]
  have "card (set (calls s)) = length (calls s)" using inv distinct_card by blast
  moreover have "card (set (calls s)) \<le> card {..<length events}"
    using inv by (intro card_mono) auto
  ultimately have len: "length (calls s) \<le> length events" by simp
  have ok: "is_ok a" if i: "i < length events" and a: "tasks s ! i = Called a" for i a
  proof -
    have "i \<in> set (calls s)" using inv i a by auto
    then have "length (takeWhile (\<lambda>j. j \<noteq> i) (calls s)) < length (calls s)"
      by (metis (mono_tags, lifting) length_takeWhile_le linorder_neqE_nat nat_less_le set_takeWhileD takeWhile_eq_all_conv
          takeWhile_eq_take take_all_iff)
    with room len have "length (messages (svc_buffer g)) + Suc (length (takeWhile (\<lambda>j. j \<noteq> i) (calls s))) \<le>
        rb_capacity (svc_buffer g)" by linarith
    with gateway_with_room [OF wf, of "takeWhile (\<lambda>j. j \<noteq> i) (calls s)" C events]
    show ?thesis
      using grpc_answers [OF reach i a] by (simp add: answer_in_def send_forwarded ring_buffer_is_full_def)
  qed
  have r: "r = Inr ()"
  proof (cases r)
    case (Inl e)
    with inv ret have aw: "awaiting s < length events"
      and err: "join_result (gateway_rpc C) (events ! awaiting s) (tasks s ! awaiting s) = Some (Inl e)"
      by auto
    from err unbroken [OF aw] obtain st where "tasks s ! awaiting s = Called (Inl st)"
      by (auto simp: join_result_def split: task.splits sum.splits)
    with ok [OF aw] show ?thesis by simp
  qed simp
  have "set (calls s) = set [0..<length events]"
    using inv ret r by (auto simp: atLeast0LessThan)
  then have "mset (calls s) = mset [0..<length events]"
    using inv set_eq_iff_mset_eq_distinct distinct_upt by blast
  with r inv room len gateway_with_room [OF wf, of "calls s" C events] show ?thesis by simp
qed

text \<open>Calls over a channel that may lose a request or an answer: an error may have no effect or that of the call, while an
  acknowledgement is that of the service, with its effect. \<open>p\<close> picks the service out of the state behind the channel.\<close>

definition lossy_calls :: "'x Rpc \<Rightarrow> ('x \<Rightarrow> GatewayService) \<Rightarrow> Event list \<Rightarrow> bool" where
  "lossy_calls C p events \<longleftrightarrow>
     (\<forall>ev\<in>set events. \<forall>x r y. rpc_send C (forward_request ev) x = (r, y) \<longrightarrow>
        (\<not> is_ok r \<and> p y = p x) \<or>
        (p y = snd (send_event (forward_request ev) (p x)) \<and>
         (is_ok r \<longrightarrow> r = fst (send_event (forward_request ev) (p x)))))"

lemma send_forwarded_buffer: "svc_buffer (snd (send_event (forward_request e) g)) = rb_put [message_from_event e] (svc_buffer g)"
  by (simp add: send_event_def process_event_def forward_request_def Let_def case_prod_beta)

lemma lossy_kept:
  assumes "lossy_calls C p events" and wf: "rb_wf (svc_buffer (p x))" and "set order \<subseteq> {..<length events}"
  shows "\<exists>kept. subseq kept order \<and> rb_wf (svc_buffer (p (server_after C events order x))) \<and>
    rb_capacity (svc_buffer (p (server_after C events order x))) = rb_capacity (svc_buffer (p x)) \<and>
    messages (svc_buffer (p (server_after C events order x))) =
      messages (rb_put (map (\<lambda>i. message_from_event (events ! i)) kept) (svc_buffer (p x)))"
  using assms(3)
proof (induction order rule: rev_induct)
  case Nil
  then show ?case using wf rb_put_Nil [OF wf] by (intro exI [of _ "[]"]) (simp add: server_after_def)
next
  case (snoc i order)
  let ?x = "server_after C events order x" and ?b = "svc_buffer (p x)" and ?m = "\<lambda>i. message_from_event (events ! i)"
  obtain kept where kept: "subseq kept order" "rb_wf (svc_buffer (p ?x))" "rb_capacity (svc_buffer (p ?x)) = rb_capacity ?b"
    "messages (svc_buffer (p ?x)) = messages (rb_put (map ?m kept) ?b)"
    using snoc by auto
  obtain r y where send: "rpc_send C (forward_request (events ! i)) ?x = (r, y)" by fastforce
  then have after: "server_after C events (order @ [i]) x = y" by (simp add: server_after_snoc)
  have "events ! i \<in> set events" using snoc.prems by simp
  with assms(1) send consider "p y = p ?x" | "p y = snd (send_event (forward_request (events ! i)) (p ?x))"
    unfolding lossy_calls_def by blast
  then show ?case
  proof cases
    case 1
    with kept show ?thesis by (intro exI [of _ kept]) (simp add: after subseq_rev_drop_many)
  next
    case 2
    then have y: "svc_buffer (p y) = rb_put [?m i] (svc_buffer (p ?x))" by (simp add: send_forwarded_buffer)
    then have "messages (svc_buffer (p y)) = messages (rb_put (map ?m (kept @ [i])) ?b)"
      using messages_put_cong [of "svc_buffer (p ?x)" "rb_put (map ?m kept) ?b" "[?m i]"] kept(2-4) messages_push_push [OF wf]
      by simp
    with kept y show ?thesis by (intro exI [of _ "kept @ [i]"]) (simp add: after)
  qed
qed

lemma lossy_acknowledged:
  assumes lossy: "lossy_calls C p events" and wf: "rb_wf (svc_buffer (p x))" and "set order \<subseteq> {..<length events}"
    and "distinct order" and "\<And>i. i \<in> set order \<Longrightarrow> is_ok (answer_in C events x order i)"
  shows "messages (svc_buffer (p (server_after C events order x))) =
    messages (svc_buffer (p x)) @ map (\<lambda>i. message_from_event (events ! i)) order"
  using assms(3-5)
proof (induction order rule: rev_induct)
  case (snoc i order)
  let ?x = "server_after C events order x"
  have "answer_in C events x (order @ [i]) j = answer_in C events x order j" if "j \<in> set order" for j
    using that by (simp add: answer_in_def takeWhile_append1)
  then have "is_ok (answer_in C events x order j)" if "j \<in> set order" for j
    using snoc.prems(3) [of j] that by simp
  then have IH: "messages (svc_buffer (p ?x)) = messages (svc_buffer (p x)) @ map (\<lambda>i. message_from_event (events ! i)) order"
    using snoc.IH snoc.prems(1,2) by simp
  have wfx: "rb_wf (svc_buffer (p ?x))" using lossy_kept [OF lossy wf, of order] snoc.prems(1) by auto
  obtain r y where send: "rpc_send C (forward_request (events ! i)) ?x = (r, y)" by fastforce
  have "takeWhile (\<lambda>j. j \<noteq> i) (order @ [i]) = order"
    using snoc.prems(2) by (subst takeWhile_append2) auto
  then have "is_ok r" using snoc.prems(3) [of i] send by (simp add: answer_in_def)
  moreover have "events ! i \<in> set events" using snoc.prems(1) by simp
  ultimately have y: "p y = snd (send_event (forward_request (events ! i)) (p ?x))"
    "is_ok (fst (send_event (forward_request (events ! i)) (p ?x)))"
    using lossy send unfolding lossy_calls_def by fastforce+
  then show ?case
    using send_forwarded [OF wfx, of "events ! i"] IH send by (simp add: server_after_snoc)
qed (simp add: server_after_def)

text \<open>What the downstream service holds in every state of an emission over such a channel, and when the emission has succeeded.\<close>

lemma lossy_emission:
  assumes lossy: "lossy_calls C p events" and wf: "rb_wf (svc_buffer (p x))"
    and reach: "(grpc_step C events)\<^sup>*\<^sup>* (grpc_start events x) s"
  shows "\<exists>kept. subseq kept (calls s) \<and> messages (svc_buffer (p (server s))) =
      messages (rb_put (map (\<lambda>i. message_from_event (events ! i)) kept) (svc_buffer (p x)))"
    and "returned s = Some (Inr ()) \<Longrightarrow> mset (calls s) = mset [0..<length events] \<and>
      messages (svc_buffer (p (server s))) =
        messages (svc_buffer (p x)) @ map (\<lambda>i. message_from_event (events ! i)) (calls s)"
proof -
  note inv = grpc_steps_inv [OF reach, unfolded grpc_inv_def]
  have set: "set (calls s) \<subseteq> {..<length events}" and dist: "distinct (calls s)"
    and server: "server s = server_after C events (calls s) x" using inv by blast+
  show "\<exists>kept. subseq kept (calls s) \<and> messages (svc_buffer (p (server s))) =
      messages (rb_put (map (\<lambda>i. message_from_event (events ! i)) kept) (svc_buffer (p x)))"
    using lossy_kept [OF lossy wf set] by (auto simp: server)
  assume ret: "returned s = Some (Inr ())"
  then have acked: "\<exists>ack. tasks s ! i = Called (Inr ack)" if "i < length events" for i
    using inv that by simp
  have "is_ok (answer_in C events x (calls s) i)" if "i \<in> set (calls s)" for i
  proof -
    have i: "i < length events" using set that by auto
    then obtain ack where "tasks s ! i = Called (Inr ack)" using acked by blast
    then have "answer_in C events x (calls s) i = Inr ack" using grpc_answers [OF reach i] by simp
    then show ?thesis by simp
  qed
  then have "messages (svc_buffer (p (server s))) =
      messages (svc_buffer (p x)) @ map (\<lambda>i. message_from_event (events ! i)) (calls s)"
    unfolding server by (rule lossy_acknowledged [OF lossy wf set dist])
  moreover have "set (calls s) = set [0..<length events]" using inv ret by (auto simp: atLeast0LessThan)
  then have "mset (calls s) = mset [0..<length events]"
    using dist set_eq_iff_mset_eq_distinct distinct_upt by blast
  ultimately show "mset (calls s) = mset [0..<length events] \<and>
      messages (svc_buffer (p (server s))) =
        messages (svc_buffer (p x)) @ map (\<lambda>i. message_from_event (events ! i)) (calls s)" by blast
qed

text \<open>A run for the examples: one event, sent to a gateway with room.\<close>

definition one_event_run :: "'x Rpc \<Rightarrow> Event \<Rightarrow> 'x \<Rightarrow> 'x grpc_sys" where
  "one_event_run C e x =
     await_step C [e] (await_step C [e] (finish_task C [e] 0 Called (grpc_start [e] x)))"

lemma one_event_run:
  assumes "is_ok (fst (rpc_send C (forward_request e) x))"
  shows "(grpc_step C [e])\<^sup>*\<^sup>* (grpc_start [e] x) (one_event_run C e x)"
    and "returned (one_event_run C e x) = Some (Inr ())" and "calls (one_event_run C e x) = [0]"
    and "tasks (one_event_run C e x) = [Called (fst (rpc_send C (forward_request e) x))]"
proof -
  obtain ack x' where send: "rpc_send C (forward_request e) x = (Inr ack, x')"
    using assms by (cases "rpc_send C (forward_request e) x"; cases "fst (rpc_send C (forward_request e) x)") auto
  let ?s1 = "finish_task C [e] 0 Called (grpc_start [e] x)"
  let ?s2 = "await_step C [e] ?s1"
  have s1: "?s1 = \<lparr>server = x', tasks = [Called (Inr ack)], awaiting = 0, returned = None, calls = [0]\<rparr>"
    by (simp add: finish_task_def grpc_start_def send)
  have s2: "?s2 = \<lparr>server = x', tasks = [Called (Inr ack)], awaiting = 1, returned = None, calls = [0]\<rparr>"
    by (simp add: s1 await_step_def join_result_def)
  have s3: "one_event_run C e x =
      \<lparr>server = x', tasks = [Called (Inr ack)], awaiting = 1, returned = Some (Inr ()), calls = [0]\<rparr>"
    unfolding one_event_run_def s2 by (simp add: await_step_def)
  have "grpc_step C [e] (grpc_start [e] x) ?s1"
    by (rule grpc_step.call) (simp_all add: grpc_start_def)
  moreover have "grpc_step C [e] ?s1 ?s2"
    by (rule grpc_step.await) (simp only: s2, simp add: s1)
  moreover have "grpc_step C [e] ?s2 (one_event_run C e x)"
    unfolding one_event_run_def by (rule grpc_step.await) (fold one_event_run_def, simp only: s2 s3, simp)
  ultimately show "(grpc_step C [e])\<^sup>*\<^sup>* (grpc_start [e] x) (one_event_run C e x)"
    by (meson rtranclp.rtrancl_into_rtrancl rtranclp.rtrancl_refl)
  show "returned (one_event_run C e x) = Some (Inr ())" "calls (one_event_run C e x) = [0]"
    "tasks (one_event_run C e x) = [Called (fst (rpc_send C (forward_request e) x))]"
    by (simp_all add: s3 send)
qed

definition sample_rpc :: "GatewayService Rpc" where
  "sample_rpc = gateway_rpc \<lparr>endpoint_error = (\<lambda>_. None), rpc_connect = (\<lambda>_ _ _ g. (None, g)), rpc_send = send_event,
     rpc_health = (\<lambda>g. (Inl (mk_status Unavailable []), g)), rpc_show_status = status_message\<rparr>"

abbreviation sample_gateway :: GatewayService where
  "sample_gateway \<equiv> gateway_service_new 0 (ring_buffer_new 2)"

abbreviation sample_event :: Event where
  "sample_event \<equiv> event_from_message (sample_message ''m'')"

lemma sample_gateway_room: "rb_wf (svc_buffer sample_gateway)" "messages (svc_buffer sample_gateway) = []"
  "rb_capacity (svc_buffer sample_gateway) = 2" "is_ok (fst (rpc_send sample_rpc (forward_request sample_event) sample_gateway))"
proof -
  show wf: "rb_wf (svc_buffer sample_gateway)" "messages (svc_buffer sample_gateway) = []"
    "rb_capacity (svc_buffer sample_gateway) = 2"
    by (simp_all add: gateway_service_new_def ring_buffer_new_def rb_wf_def)
  then show "is_ok (fst (rpc_send sample_rpc (forward_request sample_event) sample_gateway))"
    by (simp add: sample_rpc_def send_forwarded ring_buffer_is_full_def)
qed

lemmas sample_run = one_event_run [OF sample_gateway_room(4)]

theorem grpc_each_event_once_witness:
  "\<exists>s :: GatewayService grpc_sys. returned s = Some (Inr ()) \<and> mset (calls s) = mset [0..<length [sample_event]] \<and>
     server s = server_after sample_rpc [sample_event] (calls s) sample_gateway"
  using grpc_each_event_once [OF sample_run(1)] sample_run(2)
  by (intro exI [of _ "one_event_run sample_rpc sample_event sample_gateway"]) simp

theorem grpc_emission_ends_witness:
  "let s = grpc_start [sample_event] sample_gateway in
   (\<exists>t. grpc_step sample_rpc [sample_event] s t) \<and> grpc_measure [sample_event] s \<le> 3 \<and>
   grpc_measure [sample_event] (finish_task sample_rpc [sample_event] 0 Called s) < grpc_measure [sample_event] s"
proof -
  let ?s = "grpc_start [sample_event] sample_gateway"
  have "grpc_step sample_rpc [sample_event] ?s (finish_task sample_rpc [sample_event] 0 Called ?s)"
    by (rule grpc_step.call) (simp_all add: grpc_start_def)
  moreover have "returned ?s = None" by (simp add: grpc_start_def)
  ultimately show ?thesis
    using grpc_emission_ends [OF rtranclp.rtrancl_refl, where C = sample_rpc and events = "[sample_event]" and x = sample_gateway]
    by (simp add: Let_def)
qed

theorem grpc_run_refines_witness:
  "fst (grpc_emit sample_rpc [0] [sample_event] sample_gateway) = Inr ()"
  using grpc_run_refines [OF sample_run(1,2)] sample_run(3,4) by simp

theorem grpc_into_gateway_witness:
  "\<exists>s :: GatewayService grpc_sys. returned s = Some (Inr ()) \<and> messages (svc_buffer (server s)) = [sample_message ''m'']"
proof -
  let ?s = "one_event_run sample_rpc sample_event sample_gateway"
  have "(grpc_step (gateway_rpc sample_rpc) [sample_event])\<^sup>*\<^sup>* (grpc_start [sample_event] sample_gateway) ?s"
    using sample_run(1) by (simp add: sample_rpc_def gateway_rpc_def)
  then have "messages (svc_buffer (server ?s)) = [sample_message ''m'']"
    using grpc_into_gateway [of sample_gateway "[sample_event]" sample_rpc ?s "Inr ()"] sample_gateway_room sample_run
    by simp
  with sample_run(2) show ?thesis by blast
qed

section \<open>Retrying into a full gateway\<close>

lemma attempt_into_full:
  assumes leaf: "leaves E n = grpc_leaf (gateway_rpc C) (\<lambda>_ _. [0]) latency"
    and wf: "rb_wf (svc_buffer (backend w))" and full: "ring_buffer_is_full (svc_buffer (backend w))"
    and "k < rb_capacity (svc_buffer (backend w))"
  shows "(let b = svc_buffer (backend (snd (attempt_at E a cfg (emit E (Leaf n)) [e] k w))) in
      messages b = drop (Suc k) (messages (svc_buffer (backend w))) @ replicate (Suc k) (message_from_event e) \<and>
      rb_capacity b = rb_capacity (svc_buffer (backend w)) \<and> rb_wf b) \<and>
    \<not> is_ok (fst (attempt_at E a cfg (emit E (Leaf n)) [e] k w))"
proof -
  let ?b = "\<lambda>v :: GatewayService World. svc_buffer (backend v)"
  have one: "messages (?b (snd (emit E (Leaf n) [e] v))) = tl (messages (?b v)) @ [message_from_event e] \<and>
      rb_capacity (?b (snd (emit E (Leaf n) [e] v))) = rb_capacity (?b v) \<and>
      \<not> is_ok (fst (emit E (Leaf n) [e] v))" if "rb_wf (?b v)" "ring_buffer_is_full (?b v)" for v
  proof -
    obtain r g where send: "send_event (forward_request e) (backend v) = (r, g)" by fastforce
    then have "\<not> is_ok r" and g: "messages (svc_buffer g) = tl (messages (?b v)) @ [message_from_event e]"
      "rb_capacity (svc_buffer g) = rb_capacity (?b v)"
      using send_forwarded [OF that(1), of e] that(2) by simp_all
    then obtain st where "r = Inl st" by (cases r) auto
    with send g show ?thesis by (simp add: leaf grpc_leaf_def grpc_emit_def join_result_def)
  qed
  have len: "length (messages (?b w)) = rb_capacity (?b w)"
    using wf full by (simp add: rb_wf_def ring_buffer_is_full_def)
  from assms(4) show ?thesis
  proof (induction k)
    case 0
    with one [of "retry_wait E a cfg 0 w"] wf full len show ?case
      by (simp add: frame rb_wf_def tl_drop drop_Suc Let_def del: emit.simps)
  next
    case (Suc k)
    let ?v = "snd (attempt_at E a cfg (emit E (Leaf n)) [e] k w)"
    have v: "messages (?b ?v) = drop (Suc k) (messages (?b w)) @ replicate (Suc k) (message_from_event e)"
      "rb_capacity (?b ?v) = rb_capacity (?b w)" "rb_wf (?b ?v)"
      using Suc by (simp_all add: Let_def del: emit.simps)
    then have "ring_buffer_is_full (?b ?v)" using len Suc.prems by (simp add: ring_buffer_is_full_def)
    moreover have "tl (messages (?b ?v)) = drop (Suc (Suc k)) (messages (?b w)) @ replicate (Suc k) (message_from_event e)"
      using len Suc.prems unfolding v(1) by (simp add: tl_append2 tl_drop drop_Suc)
    ultimately show ?case
      using one [of "retry_wait E a cfg (Suc k) ?v"] v(2,3) len Suc.prems
      by (simp add: frame rb_wf_def Let_def replicate_append_same del: emit.simps)
  qed
qed

text \<open>C26. Retrying into a full gateway duplicates the event and destroys others: the downstream call that reports a dropped event has stored it, so
  an event forwarded through a retrying emitter fails, and yet the downstream buffer ends up
  with one copy of it per attempt in the place of as many older messages.\<close>

theorem grpc_retry_duplicates:
  assumes "leaves E n = grpc_leaf (gateway_rpc C) (\<lambda>_ _. [0]) latency"
    and "rb_wf (svc_buffer (backend w))" and "ring_buffer_is_full (svc_buffer (backend w))"
    and "unat (max_attempts cfg) < rb_capacity (svc_buffer (backend w))"
    and "emit E (RetryEmitter a cfg (Leaf n)) [e] w = (r, w')"
  shows "\<not> is_ok r \<and> messages (svc_buffer (backend w')) =
     drop (unat (max_attempts cfg) + 1) (messages (svc_buffer (backend w))) @
     replicate (unat (max_attempts cfg) + 1) (message_from_event e)"
proof -
  obtain m where m: "m \<le> unat (max_attempts cfg)"
    "is_ok (fst (attempt_at E a cfg (emit E (Leaf n)) [e] m w)) \<or> m = unat (max_attempts cfg)"
    "r = fst (attempt_at E a cfg (emit E (Leaf n)) [e] m w)"
    "backend w' = backend (snd (attempt_at E a cfg (emit E (Leaf n)) [e] m w))"
    using retry_deciding_attempt [of cfg E a "Leaf n" "[e]" w] assms(5) by (metis fst_conv snd_conv)
  with attempt_into_full [OF assms(1-3), of m a cfg e] assms(4) show ?thesis
    by (simp add: Let_def del: emit.simps)
qed

theorem grpc_retry_duplicates_witness:
  "\<exists>E (w :: GatewayService World). messages (svc_buffer (backend w)) = map sample_message [''a'', ''b''] \<and>
     (let (r, w') = emit E (RetryEmitter 0 (backoff_config_default\<lparr>max_attempts := 1\<rparr>) (Leaf 0)) [sample_event] w in
      \<not> is_ok r \<and> messages (svc_buffer (backend w')) = map sample_message [''m'', ''m''])"
proof -
  let ?E = "\<lparr>round_f64 = (\<lambda>x. x), powi_f64 = (\<lambda>x n. x),
    leaves = (\<lambda>_. grpc_leaf (gateway_rpc sample_rpc) (\<lambda>_ _. [0]) (\<lambda>_ _. 0))\<rparr>"
  let ?g = "gateway_service_new 0 (rb_put (map sample_message [''a'', ''b'']) (ring_buffer_new 2))"
  let ?w = "\<lparr>time_now = 0, jitter_rng = 1, breakers = (\<lambda>_. breaker_cell_new), retries = (\<lambda>_. retry_cell_new),
    failure_buffers = (\<lambda>_. failure_buffer_new 10), backend = ?g\<rparr>"
  let ?cfg = "backoff_config_default\<lparr>max_attempts := 1\<rparr>"
  have g: "messages (svc_buffer ?g) = map sample_message [''a'', ''b'']" "rb_capacity (svc_buffer ?g) = 2"
    "rb_wf (svc_buffer ?g)" "ring_buffer_is_full (svc_buffer ?g)"
    by (simp_all add: gateway_service_new_def ring_buffer_push_def ring_buffer_new_def rb_wf_def ring_buffer_is_full_def)
  obtain r w' where run: "emit ?E (RetryEmitter 0 ?cfg (Leaf 0)) [sample_event] ?w = (r, w')" by fastforce
  have "\<not> is_ok r \<and> messages (svc_buffer (backend w')) = map sample_message [''m'', ''m'']"
    using grpc_retry_duplicates [OF _ _ _ _ run, of sample_rpc "\<lambda>_ _. 0"] g by simp
  with run g(1) show ?thesis by (intro exI [of _ ?E] exI [of _ ?w]) (simp del: emit.simps)
qed

end
