(* ===== verification/Destinations.thy ===== *)
theory Destinations
  imports Webhook_Emitter Grpc_Emitter Stdout_Emitter
begin

text \<open>
  What the wrappers may rely on in a destination, as the locale \<open>destination\<close>: an empty batch succeeds and leaves the destination
  alone; shutting down is the default of the trait (\<open>gateway/src/emit/mod.rs\<close>), which does nothing. The three destinations of the crate interpret it; the consequences for stacks of wrappers are proved once.
\<close>

fun leaf_of :: "Emitter \<Rightarrow> nat" where
  "leaf_of (Leaf n) = n"
| "leaf_of (RetryEmitter a cfg inner) = leaf_of inner"
| "leaf_of (CircuitBreakerEmitter a cfg inner) = leaf_of inner"
| "leaf_of (FailureCaptureEmitter a cfg inner) = leaf_of inner"

locale destination =
  fixes l :: "'x leaf"
  assumes empty_batch: "fst (leaf_emit l [] t x) = Inr ()" "snd (snd (leaf_emit l [] t x)) = x"
    and default_shutdown: "leaf_shutdown l t x = (Inr (), 0, x)"
begin

lemma stack_shutdown: "leaves E (leaf_of em) = l \<Longrightarrow> shutdown E em w = (Inr (), w)"
  by (induction em) (simp_all add: default_shutdown)

lemma stack_empty_batch:
  "leaves E (leaf_of em) = l \<Longrightarrow> backend (snd (emit E em [] w)) = backend w"
proof (induction em arbitrary: w)
  case (Leaf n)
  then show ?case by (simp add: empty_batch case_prod_beta)
next
  case (RetryEmitter a cfg inner)
  obtain m where "backend (snd (emit E (RetryEmitter a cfg inner) [] w)) =
      backend (snd (attempt_at E a cfg (emit E inner) [] m w))"
    using retry_deciding_attempt [of cfg E a inner "[]" w] by metis
  moreover have "backend (snd (attempt_at E a cfg (emit E inner) [] k w)) = backend w" for k
    using RetryEmitter by (induction k) (simp_all add: frame)
  ultimately show ?case by simp
next
  case (CircuitBreakerEmitter a cfg inner)
  then show ?case
    by (auto simp: breaker_emit_def Let_def case_prod_beta split: sum.splits prod.splits)
next
  case (FailureCaptureEmitter a cfg inner)
  then have "backend (snd (emit E inner [] w)) = backend w" by simp
  then show ?case
    by (cases "emit E inner [] w") (simp add: capture_emit_def split: sum.splits)
qed

end

interpretation webhook: destination "webhook_leaf H self" for H self
  by unfold_locales (simp_all add: webhook_leaf_def webhook_emit_def)

interpretation grpc: destination "grpc_leaf C order latency" for C order latency
  by unfold_locales (simp_all add: grpc_leaf_def grpc_emit_def)

interpretation console: destination "stdout_leaf C (\<lambda>x. x) (\<lambda>self x. self)" for C
  by unfold_locales (simp_all add: stdout_leaf_def stdout_emit_def)

text \<open>Shutting a gateway down cannot fail and flushes nothing: with any stacks of wrappers over webhooks or gRPC destinations, the registry's shutdown succeeds and
  leaves every destination and every wrapper as it was. An empty batch never reaches a destination through any stack.\<close>

theorem shutdown_and_empty_batch_harmless:
  assumes "\<And>n. (\<exists>H self. leaves E n = webhook_leaf H self) \<or> (\<exists>C order latency. leaves E n = grpc_leaf C order latency)"
  shows "registry_shutdown E registry w = (Inr (), w) \<and> backend (snd (emit E em [] w)) = backend w"
proof -
  have down: "shutdown E em w = (Inr (), w)" for em w
    using assms [of "leaf_of em"] webhook.stack_shutdown grpc.stack_shutdown by blast
  have "shutdown_each E ems w = w" for ems w
    by (induction ems arbitrary: w) (simp_all add: down)
  moreover have "backend (snd (emit E em [] w)) = backend w"
    using assms [of "leaf_of em"] webhook.stack_empty_batch grpc.stack_empty_batch by blast
  ultimately show ?thesis by (simp add: registry_shutdown_def)
qed

end
