(* ===== verification/Metrics_Server.thy ===== *)
theory Metrics_Server
  imports Metrics Parsers
begin

text \<open>
  The metrics endpoint of \<open>gateway/src/metrics_server.rs\<close>: two handlers behind a router. The router and the server are those of \<open>axum\<close>; of
  them the model has the table of routes. Binding the socket is the parameter \<open>bind\<close>, the text of an error or \<open>None\<close>. The task that
  \<open>start\<close> spawns ends at once when binding fails and serves the table otherwise. The headers of a response are those
  the handler sets.
\<close>

record Response =
  response_status :: nat
  content_type :: "string option"
  response_body :: string

definition metrics_handler :: "(Metrics option \<Rightarrow> bytes option) \<Rightarrow> Metrics option \<Rightarrow> Response" where
  "metrics_handler encode cell =
     \<lparr>response_status = 200, content_type = Some ''text/plain; version=0.0.4; charset=utf-8'',
      response_body = gather encode cell\<rparr>"

definition health_handler :: Response where
  "health_handler = \<lparr>response_status = 200, content_type = None, response_body = ''OK''\<rparr>"

type_synonym routes = "(string \<times> (Metrics option \<Rightarrow> Response)) list"

definition metrics_server_start ::
    "(SocketAddr \<Rightarrow> string option) \<Rightarrow> (Metrics option \<Rightarrow> bytes option) \<Rightarrow> u16 \<Rightarrow> (SocketAddr \<times> routes) option" where
  "metrics_server_start bind encode port =
     (let addr = V4 (Ipv4Addr 0 0 0 0) port;
          app = [(''/metrics'', metrics_handler encode), (''/health'', \<lambda>_. health_handler)]
      in case bind addr of Some e \<Rightarrow> None | None \<Rightarrow> Some (addr, app))"

text \<open>A scrape is answered with status 200 and Unicode text whatever the encoder does; a failed encoding is an empty body.\<close>

lemma metrics_handler_total:
  "response_status (metrics_handler encode cell) = 200 \<and> utf8_valid (response_body (metrics_handler encode cell)) \<and>
   (encode cell = None \<longrightarrow> response_body (metrics_handler encode cell) = [])"
  by (simp add: metrics_handler_def gather_utf8) (simp add: gather_def)

section \<open>The task\<close>

text \<open>The task that \<open>start\<close> spawns, and what its handle may do to it. It serves until \<open>axum::serve\<close> fails or the
  handle aborts it. How \<open>axum\<close> finds the handler of a request is the parameter \<open>dispatch\<close>.\<close>

datatype MetricsTask = Spawned u16 | Serving SocketAddr routes | Ended

inductive ms_step :: "(SocketAddr \<Rightarrow> string option) \<Rightarrow> (Metrics option \<Rightarrow> bytes option) \<Rightarrow> MetricsTask \<Rightarrow> MetricsTask \<Rightarrow> bool"
  for bind :: "SocketAddr \<Rightarrow> string option" and encode :: "Metrics option \<Rightarrow> bytes option" where
  starts: "metrics_server_start bind encode port = Some (addr, app) \<Longrightarrow> ms_step bind encode (Spawned port) (Serving addr app)"
| bind_fails: "metrics_server_start bind encode port = None \<Longrightarrow> ms_step bind encode (Spawned port) Ended"
| serve_fails: "ms_step bind encode (Serving addr app) Ended"
| abort: "ms_step bind encode task Ended"

inductive_cases ms_stepE: "ms_step bind encode task task'"

definition ms_answer ::
    "(routes \<Rightarrow> string \<Rightarrow> string \<Rightarrow> Metrics option \<Rightarrow> Response) \<Rightarrow> MetricsTask \<Rightarrow> string \<Rightarrow> string \<Rightarrow> Metrics option \<Rightarrow> Response option" where
  "ms_answer dispatch task verb path cell =
     (case task of Serving addr app \<Rightarrow> Some (dispatch app verb path cell) | _ \<Rightarrow> None)"

text \<open>What \<open>axum\<close> documents of its router: a \<open>GET\<close> of a path of the table goes to its handler.\<close>

definition routes_get :: "(routes \<Rightarrow> string \<Rightarrow> string \<Rightarrow> Metrics option \<Rightarrow> Response) \<Rightarrow> bool" where
  "routes_get dispatch \<longleftrightarrow>
     (\<forall>app path h cell. map_of app path = Some h \<longrightarrow> dispatch app ''GET'' path cell = h cell)"

lemma ms_reachable:
  "(ms_step bind encode)\<^sup>*\<^sup>* (Spawned port) task \<Longrightarrow>
   task \<in> {Spawned port, Ended} \<or>
   (\<exists>addr app. task = Serving addr app \<and> metrics_server_start bind encode port = Some (addr, app))"
  by (induction rule: rtranclp_induct) (auto elim!: ms_stepE)

text \<open>A task that serves listens on its port on all interfaces, answers the two paths, and the address could be bound.\<close>

lemma ms_serving:
  assumes "(ms_step bind encode)\<^sup>*\<^sup>* (Spawned port) (Serving addr app)" and "routes_get dispatch"
  shows "addr = V4 (Ipv4Addr 0 0 0 0) port \<and> bind addr = None \<and>
    ms_answer dispatch (Serving addr app) ''GET'' ''/metrics'' cell = Some (metrics_handler encode cell) \<and>
    ms_answer dispatch (Serving addr app) ''GET'' ''/health'' cell = Some health_handler"
  using ms_reachable [OF assms(1)] assms(2)
  by (auto simp: metrics_server_start_def ms_answer_def routes_get_def Let_def split: option.splits)

text \<open>Whatever happens to the task, once it has ended it stays so and answers nothing.\<close>

lemma ms_ended:
  assumes "(ms_step bind encode)\<^sup>*\<^sup>* Ended task"
  shows "task = Ended \<and> ms_answer dispatch task verb path cell = None"
proof -
  from assms have "task = Ended" by (induction rule: rtranclp_induct) (auto elim: ms_stepE)
  then show ?thesis by (simp add: ms_answer_def)
qed

text \<open>A table lookup is such a router.\<close>

lemma table_routes_get:
  "routes_get (\<lambda>app verb path cell. case (if verb = ''GET'' then map_of app path else None) of
     None \<Rightarrow> \<lparr>response_status = 404, content_type = None, response_body = []\<rparr> | Some h \<Rightarrow> h cell)"
  by (simp add: routes_get_def)

end
