(* ===== verification/Throttle_Threads.thy ===== *)
theory Throttle_Threads
  imports Throttle
begin

text \<open>
  The throttle of \<open>gateway/src/middleware/throttle.rs\<close> used by several threads. \<open>get_or_create_bucket\<close> looks the source up under the
  read lock and, when it is not there, takes the write lock and looks again before it inserts a new bucket. The two
  critical sections are \<open>fast_path\<close> and \<open>slow_path\<close>; between them other threads run. The atomic operations of one bucket inside a
  critical section are taken together; \<open>Throttle_Atomics\<close> takes them apart, with the threads inside the read lock interleaved. A
  call that panics is not a step. Within a critical section the clock moves on from one reading to the next. The log only remembers the answers, in the order of the critical sections that gave them.
\<close>

definition fast_path :: "Readings \<Rightarrow> string \<Rightarrow> Throttle \<Rightarrow> panic + (bool \<times> Throttle) option" where
  "fast_path r src self =
     (case map_of (buckets self) src of
        Some tracked \<Rightarrow>
          (case tracked_try_acquire r tracked of
             Inl p \<Rightarrow> Inl p
           | Inr (ok, tracked) \<Rightarrow> Inr (Some (ok, self\<lparr>buckets := AList.update src tracked (buckets self)\<rparr>)))
      | None \<Rightarrow> Inr None)"

definition slow_path ::
    "(bucket_map \<Rightarrow> bucket_map) \<Rightarrow> Readings \<Rightarrow> string \<Rightarrow> Throttle \<Rightarrow> panic + (bool \<times> Throttle)" where
  "slow_path order r src self =
     (case map_of (buckets self) src of
        Some tracked \<Rightarrow>
          (case tracked_try_acquire r tracked of
             Inl p \<Rightarrow> Inl p
           | Inr (ok, tracked) \<Rightarrow> Inr (ok, self\<lparr>buckets := AList.update src tracked (buckets self)\<rparr>))
      | None \<Rightarrow>
          let m = (if length (buckets self) \<ge> th_max_sources self then evict_lru order (buckets self)
                   else buckets self) in
          (case tracked_try_acquire r (tracked_bucket_new r (th_rate self) (th_burst self)) of
             Inl p \<Rightarrow> Inl p
           | Inr (ok, tracked) \<Rightarrow> Inr (ok, self\<lparr>buckets := AList.update src tracked m\<rparr>)))"

datatype th_pc = Outside | Missed string

record th_sys =
  shared :: Throttle
  th_clock :: nat
  th_pcs :: "nat \<Rightarrow> th_pc"
  answers :: "((Readings \<times> string) \<times> bool) list"

definition th_start :: "nat \<Rightarrow> Throttle \<Rightarrow> th_sys" where
  "th_start t th = \<lparr>shared = th, th_clock = t, th_pcs = (\<lambda>_. Outside), answers = []\<rparr>"

definition th_answer :: "Readings \<Rightarrow> string \<Rightarrow> bool \<Rightarrow> nat \<Rightarrow> Throttle \<Rightarrow> th_sys \<Rightarrow> th_sys" where
  "th_answer r src ok i th s =
     s\<lparr>shared := th, th_clock := at_refill r, th_pcs := (th_pcs s)(i := Outside), answers := answers s @ [((r, src), ok)]\<rparr>"

inductive th_step :: "(bucket_map \<Rightarrow> bucket_map) \<Rightarrow> th_sys \<Rightarrow> th_sys \<Rightarrow> bool"
  for order :: "bucket_map \<Rightarrow> bucket_map" where
  pass: "th_step order s (s\<lparr>th_clock := th_clock s + dt\<rparr>)"
| fast_hit: "th_pcs s i = Outside \<Longrightarrow> ordered_from (th_clock s) r \<Longrightarrow>
    fast_path r src (shared s) = Inr (Some (ok, th)) \<Longrightarrow> th_step order s (th_answer r src ok i th s)"
| fast_miss: "th_pcs s i = Outside \<Longrightarrow> fast_path r src (shared s) = Inr None \<Longrightarrow>
    th_step order s (s\<lparr>th_pcs := (th_pcs s)(i := Missed src)\<rparr>)"
| slow: "th_pcs s i = Missed src \<Longrightarrow> ordered_from (th_clock s) r \<Longrightarrow>
    slow_path order r src (shared s) = Inr (ok, th) \<Longrightarrow> th_step order s (th_answer r src ok i th s)"

inductive_cases th_stepE: "th_step order s t"

section \<open>Linearisation\<close>

lemma fast_path_hit: "fast_path r src th = Inr (Some a) \<Longrightarrow> get_or_create_bucket order r src th = Inr a"
  by (auto simp: fast_path_def get_or_create_bucket_def split: option.splits sum.splits)

lemma slow_path_eq: "slow_path order r src th = get_or_create_bucket order r src th"
  by (simp add: slow_path_def get_or_create_bucket_def)

lemma throttle_run_snoc:
  "throttle_run order rs th = Inr (bs, th1) \<Longrightarrow> get_or_create_bucket order c src th1 = Inr (b, th2) \<Longrightarrow>
   throttle_run order (rs @ [(c, src)]) th = Inr (bs @ [b], th2)"
proof (induction rs arbitrary: th bs)
  case (Cons r rs)
  obtain c' src' where r: "r = (c', src')" by fastforce
  from Cons.prems(1) obtain b' th' bs' where "get_or_create_bucket order c' src' th = Inr (b', th')"
    "throttle_run order rs th' = Inr (bs', th1)" "bs = b' # bs'"
    by (auto simp: r split: sum.splits)
  with Cons.IH [OF _ Cons.prems(2)] show ?case by (simp add: r)
qed simp

definition th_inv :: "(bucket_map \<Rightarrow> bucket_map) \<Rightarrow> nat \<Rightarrow> Throttle \<Rightarrow> th_sys \<Rightarrow> bool" where
  "th_inv order t0 th0 s \<longleftrightarrow>
     throttle_run order (map fst (answers s)) th0 = Inr (map snd (answers s), shared s) \<and>
     sorted (map (at_refill \<circ> fst \<circ> fst) (answers s)) \<and>
     (\<forall>a \<in> set (answers s). ordered_from t0 (fst (fst a)) \<and> at_refill (fst (fst a)) \<le> th_clock s) \<and>
     t0 \<le> th_clock s"

lemma th_inv_answer:
  assumes "th_inv order t0 th0 s" and "ordered_from (th_clock s) r"
    and "get_or_create_bucket order r src (shared s) = Inr (ok, th)"
  shows "th_inv order t0 th0 (th_answer r src ok i th s)"
  using assms throttle_run_snoc [of order "map fst (answers s)" th0 "map snd (answers s)" "shared s" r src ok th]
  by (fastforce simp: th_inv_def th_answer_def sorted_append ordered_from_def)

lemma th_step_inv: "th_step order s s' \<Longrightarrow> th_inv order t0 th0 s \<Longrightarrow> th_inv order t0 th0 s'"
proof (erule th_stepE)
  fix dt assume "th_inv order t0 th0 s" "s' = s\<lparr>th_clock := th_clock s + dt\<rparr>"
  then show ?thesis by (auto simp: th_inv_def)
qed (auto simp: slow_path_eq intro: th_inv_answer fast_path_hit, simp add: th_inv_def)

lemma th_steps_inv: "(th_step order)\<^sup>*\<^sup>* (th_start t0 th0) s \<Longrightarrow> th_inv order t0 th0 s"
proof (induction rule: rtranclp_induct)
  case base
  then show ?case by (simp add: th_inv_def th_start_def)
qed (rule th_step_inv)

text \<open>Threads do not disturb each other's accounting: under any interleaving of the two critical sections, the answers
  given so far, in their order and with the clock readings of their calls, are exactly those of the sequential throttle, and so is the state of
  the buckets. In particular threads that meet at the first request of a source share one bucket.\<close>

theorem throttle_linearizable:
  assumes "(th_step order)\<^sup>*\<^sup>* (th_start t0 th0) s"
  shows "throttle_run order (map fst (answers s)) th0 = Inr (map snd (answers s), shared s) \<and>
    sorted (map (at_refill \<circ> fst \<circ> fst) (answers s))"
  using th_steps_inv [OF assms] by (simp add: th_inv_def)

text \<open>A closed instance: two threads miss the source before either inserts its bucket; with a burst of one only the first is admitted.\<close>

theorem throttle_linearizable_witness:
  "\<exists>s. (th_step id)\<^sup>*\<^sup>* (th_start 0 (throttle_new 1 1)) s \<and> map fst (answers s) = [(taking 1 0, ''a''), (taking 1 3, ''a'')] \<and>
     throttle_run id [(taking 1 0, ''a''), (taking 1 3, ''a'')] (throttle_new 1 1) = Inr (map snd (answers s), shared s) \<and>
     map snd (answers s) = [True, False]"
proof -
  let ?s0 = "th_start 0 (throttle_new 1 1)"
  let ?s1 = "?s0\<lparr>th_pcs := (th_pcs ?s0)(0 := Missed ''a'')\<rparr>"
  let ?s2 = "?s1\<lparr>th_pcs := (th_pcs ?s1)(1 := Missed ''a'')\<rparr>"
  have miss: "fast_path (instantly 0) ''a'' (throttle_new 1 1) = Inr None"
    by (simp add: fast_path_def throttle_new_def)
  obtain th1 th2 where slow: "slow_path id (taking 1 0) ''a'' (throttle_new 1 1) = Inr (True, th1)"
    "slow_path id (taking 1 3) ''a'' th1 = Inr (False, th2)"
    by (simp add: slow_path_def throttle_new_def tracked_try_acquire_def tracked_bucket_new_def token_bucket_new_def
        token_bucket_try_acquire_def token_bucket_refill_def saturating_sub_def saturating_mul_def Let_def)
  let ?s3 = "th_answer (taking 1 0) ''a'' True 0 th1 ?s2"
  let ?s4 = "th_answer (taking 1 3) ''a'' False 1 th2 ?s3"
  have "th_step id ?s0 ?s1" using miss by (intro th_step.fast_miss) (simp_all add: th_start_def)
  moreover have "th_step id ?s1 ?s2" using miss by (intro th_step.fast_miss) (simp_all add: th_start_def)
  moreover have "th_step id ?s2 ?s3"
    using slow(1) by (intro th_step.slow) (simp_all add: th_start_def ordered_from_def)
  moreover have "th_step id ?s3 ?s4"
    using slow(2) by (intro th_step.slow) (simp_all add: th_start_def th_answer_def ordered_from_def)
  ultimately have reach: "(th_step id)\<^sup>*\<^sup>* ?s0 ?s4" by (meson rtranclp.rtrancl_into_rtrancl rtranclp.rtrancl_refl)
  have fields: "map fst (answers ?s4) = [(taking 1 0, ''a''), (taking 1 3, ''a'')]" "map snd (answers ?s4) = [True, False]"
    by (simp_all add: th_answer_def th_start_def)
  show ?thesis
    using throttle_linearizable [OF reach] reach fields by (intro exI [of _ ?s4]) (simp only: simp_thms)
qed

end
