(* ===== verification/Throttle_Atomics.thy ===== *)
theory Throttle_Atomics
  imports Throttle_Threads
begin

text \<open>
  The throttle of \<open>gateway/src/middleware/throttle.rs\<close> at the grain of its atomic operations. The read lock admits
  several threads at once, so threads that found their bucket run the loads and exchanges of \<open>TokenBucket::refill\<close> and
  \<open>TokenBucket::try_acquire\<close> interleaved, each a step of its own, and a weak exchange may fail spuriously. The write lock is
  exclusive: the slow path is one step, taken when no thread holds the read lock, during which the clock moves on to its last reading. \<open>tb_step\<close> are the steps of a thread on a bucket,
  with the program points of the rate limiter; \<open>Idle\<close> inside the read lock is before the call of \<open>refill\<close>, and a step to \<open>Idle\<close> returns. A
  call that would divide by zero has no step. The last field of the state counts the requests that the present bucket of a source admitted.
\<close>

definition tb_claimable :: "u64 \<Rightarrow> u64 \<Rightarrow> TokenBucket \<Rightarrow> u64" where
  "tb_claimable now prev b = saturating_sub now prev div tb_refill_nanos b"

definition tb_topped_up :: "u64 \<Rightarrow> u64 \<Rightarrow> TokenBucket \<Rightarrow> u64" where
  "tb_topped_up add cur b = min (saturating_add cur add) (tb_capacity b)"

inductive tb_step :: "TokenBucket \<Rightarrow> rl_pc \<Rightarrow> TokenBucket \<Rightarrow> rl_pc \<Rightarrow> nat \<Rightarrow> bool" where
  load_last: "tb_refill_nanos b \<noteq> 0 \<Longrightarrow>
    tb_step b (Load_last now) b
      (if saturating_sub now (tb_last_refill b) < tb_refill_nanos b \<or> tb_claimable now (tb_last_refill b) b = 0
       then Load_acquire else Claim now (tb_last_refill b)) 0"
| claim_ok: "tb_last_refill b = prev \<Longrightarrow> k = tb_claimable now prev b \<Longrightarrow> add = k * tb_refill_amount b \<Longrightarrow>
    tb_step b (Claim now prev) (b\<lparr>tb_last_refill := prev + k * tb_refill_nanos b\<rparr>)
      (if add = 0 then Load_acquire else Load_tokens add) 0"
| claim_fail: "tb_step b (Claim now prev) b (Load_last now) 0"
| load_tokens: "tb_step b (Load_tokens add) b
      (if tb_tokens b = tb_topped_up add (tb_tokens b) b then Load_acquire else Store_tokens add (tb_tokens b)) 0"
| store_ok: "tb_tokens b = cur \<Longrightarrow>
    tb_step b (Store_tokens add cur) (b\<lparr>tb_tokens := tb_topped_up add cur b\<rparr>) Load_acquire 0"
| store_fail: "tb_step b (Store_tokens add cur) b (Load_tokens add) 0"
| load_acquire: "tb_step b Load_acquire b (if tb_tokens b < 1000 then Idle else Take (tb_tokens b)) 0"
| take_ok: "tb_tokens b = cur \<Longrightarrow> tb_step b (Take cur) (b\<lparr>tb_tokens := cur - 1000\<rparr>) Idle 1"
| take_fail: "tb_step b (Take cur) b Load_acquire 0"

datatype ta_pc = Out | In string rl_pc | Awaiting_write string

record ta_sys =
  ta_shared :: Throttle
  ta_clock :: nat
  ta_pcs :: "ta_pc list"
  ta_granted :: "string \<Rightarrow> nat"

definition ta_start :: "nat \<Rightarrow> Throttle \<Rightarrow> nat \<Rightarrow> ta_sys" where
  "ta_start t th n = \<lparr>ta_shared = th, ta_clock = t, ta_pcs = replicate n Out, ta_granted = (\<lambda>_. 0)\<rparr>"

definition ta_at :: "ta_sys \<Rightarrow> nat \<Rightarrow> ta_pc \<Rightarrow> bool" where
  "ta_at s i pc \<longleftrightarrow> i < length (ta_pcs s) \<and> ta_pcs s ! i = pc"

definition ta_goto :: "nat \<Rightarrow> ta_pc \<Rightarrow> ta_sys \<Rightarrow> ta_sys" where
  "ta_goto i pc s = s\<lparr>ta_pcs := (ta_pcs s)[i := pc]\<rparr>"

definition put_bucket :: "string \<Rightarrow> TrackedBucket \<Rightarrow> ta_sys \<Rightarrow> ta_sys" where
  "put_bucket src tracked s =
     s\<lparr>ta_shared := (ta_shared s)\<lparr>buckets := AList.update src tracked (buckets (ta_shared s))\<rparr>\<rparr>"

fun reading :: "ta_pc \<Rightarrow> bool" where
  "reading (In src pc) = True"
| "reading _ = False"

inductive ta_step :: "(bucket_map \<Rightarrow> bucket_map) \<Rightarrow> ta_sys \<Rightarrow> ta_sys \<Rightarrow> bool"
  for order :: "bucket_map \<Rightarrow> bucket_map" where
  pass: "ta_step order s (s\<lparr>ta_clock := ta_clock s + d\<rparr>)"
| found: "ta_at s i Out \<Longrightarrow> map_of (buckets (ta_shared s)) src = Some tracked \<Longrightarrow>
    ta_step order s (ta_goto i (In src Idle)
      (put_bucket src (tracked\<lparr>last_access_nanos := of_nat (ta_clock s - created tracked)\<rparr>) s))"
| missed: "ta_at s i Out \<Longrightarrow> map_of (buckets (ta_shared s)) src = None \<Longrightarrow>
    ta_step order s (ta_goto i (Awaiting_write src) s)"
| begin_call: "ta_at s i (In src Idle) \<Longrightarrow> map_of (buckets (ta_shared s)) src = Some tracked \<Longrightarrow>
    ta_step order s (ta_goto i (In src (Load_last (of_nat (ta_clock s - tb_start (tracked_bucket tracked))))) s)"
| act: "ta_at s i (In src pc) \<Longrightarrow> map_of (buckets (ta_shared s)) src = Some tracked \<Longrightarrow>
    tb_step (tracked_bucket tracked) pc b pc' g \<Longrightarrow>
    ta_step order s (ta_goto i (if pc' = Idle then Out else In src pc')
      (put_bucket src (tracked\<lparr>tracked_bucket := b\<rparr>)
        (s\<lparr>ta_granted := (ta_granted s)(src := ta_granted s src + g)\<rparr>)))"
| exclusive: "ta_at s i (Awaiting_write src) \<Longrightarrow> list_all (\<lambda>pc. \<not> reading pc) (ta_pcs s) \<Longrightarrow>
    ordered_from (ta_clock s) r \<Longrightarrow> slow_path order r src (ta_shared s) = Inr (ok, th) \<Longrightarrow>
    ta_step order s (ta_goto i Out
      (s\<lparr>ta_shared := th, ta_clock := at_refill r, ta_granted := (ta_granted s)
          (src := (if map_of (buckets (ta_shared s)) src = None then 0 else ta_granted s src) + (if ok then 1 else 0))\<rparr>))"

inductive_cases tb_stepE: "tb_step b pc b' pc' g"
inductive_cases ta_stepE: "ta_step order s t"

section \<open>One bucket is a rate limiter\<close>

fun thread_view :: "string \<Rightarrow> ta_pc \<Rightarrow> rl_pc" where
  "thread_view src (In src' pc) = (if src' = src then pc else Idle)"
| "thread_view src _ = Idle"

definition view :: "string \<Rightarrow> TrackedBucket \<Rightarrow> ta_sys \<Rightarrow> rl_sys" where
  "view src tracked s =
     \<lparr>bucket = as_rate_limiter (tracked_bucket tracked), clock = ta_clock s, threads = map (thread_view src) (ta_pcs s),
      granted = ta_granted s src\<rparr>"

lemma view_fields [simp]:
  "bucket (view src tr s) = as_rate_limiter (tracked_bucket tr)" "clock (view src tr s) = ta_clock s"
  "threads (view src tr s) = map (thread_view src) (ta_pcs s)" "granted (view src tr s) = ta_granted s src"
  by (simp_all add: view_def)

lemma as_rate_limiter_fields [simp]:
  "rl_capacity (as_rate_limiter b) = tb_capacity b" "refill_amount (as_rate_limiter b) = tb_refill_amount b"
  "refill_nanos (as_rate_limiter b) = tb_refill_nanos b" "tokens (as_rate_limiter b) = tb_tokens b"
  "last_refill (as_rate_limiter b) = tb_last_refill b" "rl_start (as_rate_limiter b) = tb_start b"
  by (simp_all add: as_rate_limiter_def)

text \<open>A step on the bucket of a source is a step of the rate limiter that the source sees.\<close>

lemma tb_step_view:
  assumes "tb_step (tracked_bucket tr) pc b pc' g" and "at_pc v i pc" and "bucket v = as_rate_limiter (tracked_bucket tr)"
  shows "rl_step v (goto i pc' (v\<lparr>bucket := as_rate_limiter b, granted := granted v + g\<rparr>))"
proof -
  obtain c ts n where v: "v = \<lparr>bucket = as_rate_limiter (tracked_bucket tr), clock = c, threads = ts, granted = n\<rparr>"
    using assms(3) by (cases v) auto
  from assms(1) show ?thesis
  proof cases
    case (load_last now)
    then show ?thesis
      using rl_step.load_last [of v i now] assms(2) by (simp add: v goto_def claimable_def tb_claimable_def split: if_splits)
  next
    case (claim_ok prev k now add)
    then show ?thesis
      using rl_step.claim_ok [of v i now prev k add] assms(2)
      by (simp add: v goto_def claimable_def tb_claimable_def as_rate_limiter_def)
  next
    case (claim_fail now prev)
    then show ?thesis using rl_step.claim_fail [of v i now prev] assms(2) by (simp add: v goto_def)
  next
    case (load_tokens add)
    then show ?thesis
      using rl_step.load_tokens [of v i add] assms(2) by (simp add: v goto_def topped_up_def tb_topped_up_def)
  next
    case (store_ok cur add)
    then show ?thesis
      using rl_step.store_ok [of v i add cur] assms(2)
      by (simp add: v goto_def topped_up_def tb_topped_up_def as_rate_limiter_def)
  next
    case (store_fail add cur)
    then show ?thesis using rl_step.store_fail [of v i add cur] assms(2) by (simp add: v goto_def)
  next
    case load_acquire
    then show ?thesis using rl_step.load_acquire [of v i] assms(2) by (simp add: v goto_def)
  next
    case (take_ok cur)
    then show ?thesis using rl_step.take_ok [of v i cur] assms(2) by (simp add: v goto_def as_rate_limiter_def)
  next
    case (take_fail cur)
    then show ?thesis using rl_step.take_fail [of v i cur] assms(2) by (simp add: v goto_def)
  qed
qed

section \<open>The invariant\<close>

text \<open>Every bucket keeps the books of a rate limiter with the rate and burst of the throttle, and the number of buckets is bounded.\<close>

definition bucket_books :: "u64 \<Rightarrow> u64 \<Rightarrow> string \<Rightarrow> TrackedBucket \<Rightarrow> ta_sys \<Rightarrow> bool" where
  "bucket_books rate burst src tr s \<longleftrightarrow>
     rl_inv (view src tr s) \<and>
     rl_params (as_rate_limiter (tracked_bucket tr)) =
       rl_params (rate_limiter_new (tb_start (tracked_bucket tr)) rate burst)"

definition ta_inv :: "u64 \<Rightarrow> u64 \<Rightarrow> nat \<Rightarrow> ta_sys \<Rightarrow> bool" where
  "ta_inv rate burst mx s \<longleftrightarrow>
     rate \<le> 1000000000 \<and> hm_wf (buckets (ta_shared s)) \<and> fits mx (ta_shared s) \<and>
     th_rate (ta_shared s) = rate \<and> th_burst (ta_shared s) = burst \<and>
     (\<forall>src tr. map_of (buckets (ta_shared s)) src = Some tr \<longrightarrow> bucket_books rate burst src tr s)"

lemma ta_inv_throttle_wf: "ta_inv rate burst mx s \<Longrightarrow> throttle_wf (ta_shared s)"
  by (auto simp: ta_inv_def throttle_wf_def list_all_iff bucket_books_def rl_inv_def hm_wf_def)

lemma bucket_books_steps:
  assumes "bucket_books rate burst src tr s" and "rl_step\<^sup>*\<^sup>* (view src tr s) (view src tr' s')"
  shows "bucket_books rate burst src tr' s'"
proof -
  have "rl_inv (view src tr' s') \<and> rl_params (bucket (view src tr' s')) = rl_params (bucket (view src tr s))"
    using rl_steps_inv [OF assms(2)] assms(1) by (simp add: bucket_books_def)
  moreover from this have "tb_start (tracked_bucket tr') = tb_start (tracked_bucket tr)"
    by (simp add: rl_params_def)
  ultimately show ?thesis using assms(1) by (simp add: bucket_books_def)
qed

text \<open>How the views follow a change of the state.\<close>

lemma view_simps:
  "view src tr (ta_goto i pc s) = goto i (thread_view src pc) (view src tr s)"
  "view src tr (put_bucket k x s) = view src tr s"
  "view src tr (s\<lparr>ta_granted := f\<rparr>) = (view src tr s)\<lparr>granted := f src\<rparr>"
  "view src tr (s\<lparr>ta_shared := th\<rparr>) = view src tr s"
  "view src tr (s\<lparr>ta_clock := c\<rparr>) = (view src tr s)\<lparr>clock := c\<rparr>"
  by (simp_all add: view_def ta_goto_def goto_def put_bucket_def map_update)

lemma view_at: "ta_at s i pc \<Longrightarrow> at_pc (view src tr s) i (thread_view src pc)"
  by (simp add: ta_at_def at_pc_def)

lemma goto_same: "at_pc v i pc \<Longrightarrow> goto i pc v = v"
  by (cases v) (auto simp: at_pc_def goto_def)

lemma view_unseen:
  assumes "ta_at s i pc" and "thread_view src pc = Idle" and "thread_view src pc' = Idle"
  shows "goto i (thread_view src pc') (view src tr s) = view src tr s"
  using goto_same [OF view_at [OF assms(1), of src tr]] assms(2,3) by simp

text \<open>A change of the bucket of one source that its view can follow, and that the others do not see.\<close>

lemma ta_inv_update:
  assumes inv: "ta_inv rate burst mx s" and found: "map_of (buckets (ta_shared s)) src = Some tr"
    and shared: "ta_shared s' = (ta_shared s)\<lparr>buckets := m\<rparr>"
    and m: "map_of m = (map_of (buckets (ta_shared s)))(src \<mapsto> tr')" "hm_wf m" "length m = length (buckets (ta_shared s))"
    and own: "rl_step\<^sup>*\<^sup>* (view src tr s) (view src tr' s')"
    and others: "\<And>src' x. src' \<noteq> src \<Longrightarrow> view src' x s' = view src' x s"
  shows "ta_inv rate burst mx s'"
proof -
  have "bucket_books rate burst src' x s'" if "map_of m src' = Some x" for src' x
  proof (cases "src' = src")
    case True
    with that inv found own m(1) show ?thesis
      by (auto simp: ta_inv_def intro: bucket_books_steps)
  next
    case False
    with that inv others [OF False] m(1) show ?thesis by (simp add: ta_inv_def bucket_books_def)
  qed
  then show ?thesis using inv shared m by (simp add: ta_inv_def fits_def)
qed

lemma ta_inv_put:
  assumes inv: "ta_inv rate burst mx s" and found: "map_of (buckets (ta_shared s)) src = Some tr"
    and shared: "ta_shared s' = (ta_shared s)\<lparr>buckets := AList.update src tr' (buckets (ta_shared s))\<rparr>"
    and own: "rl_step\<^sup>*\<^sup>* (view src tr s) (view src tr' s')"
    and others: "\<And>src' x. src' \<noteq> src \<Longrightarrow> view src' x s' = view src' x s"
  shows "ta_inv rate burst mx s'"
proof (rule ta_inv_update [OF inv found shared _ _ _ own others])
  show "length (AList.update src tr' (buckets (ta_shared s))) = length (buckets (ta_shared s))"
    using found by (simp add: length_hm_update)
qed (use inv in \<open>simp_all add: update_conv' ta_inv_def\<close>)

text \<open>The slow path: the requested source gets the answer of its limiter, a new one when it had none.\<close>

lemma ta_inv_slow:
  assumes perm: "permutes order" and inv: "ta_inv rate burst mx s" and at: "ta_at s i (Awaiting_write src)"
    and none: "list_all (\<lambda>pc. \<not> reading pc) (ta_pcs s)" and times: "ordered_from (ta_clock s) r"
    and slow: "slow_path order r src (ta_shared s) = Inr (ok, th)"
  defines "s' \<equiv> ta_goto i Out (s\<lparr>ta_shared := th, ta_clock := at_refill r, ta_granted := (ta_granted s)
          (src := (if map_of (buckets (ta_shared s)) src = None then 0 else ta_granted s src) + (if ok then 1 else 0))\<rparr>)"
  shows "ta_inv rate burst mx s'"
proof -
  let ?th = "ta_shared s" and ?g = "if ok then 1 else 0" and ?c = "at_refill r"
  note run = slow [unfolded slow_path_eq]
  note wf = ta_inv_throttle_wf [OF inv]
  obtain tr where tr: "buckets th = AList.update src tr
       (if map_of (buckets ?th) src = None \<and> th_max_sources ?th \<le> length (buckets ?th)
        then evict_lru order (buckets ?th) else buckets ?th)"
    and acquire: "rate_limiter_try_acquire ?c (limiter_of src (at_start r) ?th) = Inr (ok, limiter_of src 0 th)"
    and same: "throttle_wf th" "th_rate th = rate" "th_burst th = burst"
    using get_or_create_bucket_spec [OF wf, of order r src 0] run inv by (auto simp: ta_inv_def)
  have shared: "ta_shared s' = th" by (simp add: s'_def ta_goto_def)
  have own_limiter: "limiter_of src 0 th = as_rate_limiter (tracked_bucket tr)"
    by (simp add: limiter_of_def tr update_conv)
  have idle: "at_pc ((view src x s)\<lparr>clock := ?c\<rparr>) i Idle" for x
    using view_at [OF at, of src x] by (simp add: at_pc_def)
  have later: "rl_step\<^sup>*\<^sup>* v (v\<lparr>clock := ?c\<rparr>)" if "clock v \<le> ?c" for v
    using rl_step.tick [of v "?c - clock v"] that by (simp add: r_into_rtranclp)
  have new_view: "view src' x s' = (view src' x s)\<lparr>clock := ?c, granted := ta_granted s' src'\<rparr>" for src' x
    using view_unseen [OF at, of src' Out x] by (simp add: s'_def view_simps ta_goto_def goto_def view_def map_update)
  have own: "bucket_books rate burst src tr s'"
  proof (cases "map_of (buckets ?th) src")
    case (Some tr0)
    let ?v = "(view src tr0 s)\<lparr>clock := ?c\<rparr>"
    have "rate_limiter_try_acquire (clock ?v) (bucket ?v) = Inr (ok, as_rate_limiter (tracked_bucket tr))"
      using acquire own_limiter Some by (simp add: limiter_of_def)
    from solo_call [OF idle this] have "rl_step\<^sup>*\<^sup>* ?v (view src tr s')"
      unfolding new_view using Some by (simp add: view_def s'_def ta_goto_def)
    then have "rl_step\<^sup>*\<^sup>* (view src tr0 s) (view src tr s')"
      using later [of "view src tr0 s"] times by (auto simp: ordered_from_def)
    then show ?thesis
      using inv Some by (auto simp: ta_inv_def intro: bucket_books_steps)
  next
    case None
    let ?w = "rl_init (at_start r) rate burst (length (ta_pcs s))"
    let ?v = "?w\<lparr>clock := ?c\<rparr>"
    have threads: "threads ?w = map (thread_view src) (ta_pcs s)"
    proof -
      have "thread_view src pc = Idle" if "pc \<in> set (ta_pcs s)" for pc
        using none that by (cases pc) (auto simp: list_all_iff)
      then show ?thesis by (simp add: rl_init_def map_replicate_const cong: map_cong)
    qed
    have "at_pc ?v i Idle" using at by (simp add: at_pc_def ta_at_def rl_init_def)
    moreover have "rate_limiter_try_acquire (clock ?v) (bucket ?v) = Inr (ok, as_rate_limiter (tracked_bucket tr))"
      using acquire own_limiter None inv by (simp add: limiter_of_def rl_init_def ta_inv_def)
    ultimately have "rl_step\<^sup>*\<^sup>* ?v (?v\<lparr>bucket := as_rate_limiter (tracked_bucket tr), granted := granted ?v + ?g\<rparr>)"
      by (rule solo_call)
    moreover have "?v\<lparr>bucket := as_rate_limiter (tracked_bucket tr), granted := granted ?v + ?g\<rparr> = view src tr s'"
      unfolding new_view using threads None by (simp add: view_def s'_def ta_goto_def rl_init_def)
    ultimately have steps: "rl_step\<^sup>*\<^sup>* ?w (view src tr s')"
      using later [of ?w] times by (auto simp: ordered_from_def rl_init_def)
    have "rate \<le> 1000000000" using inv by (simp add: ta_inv_def)
    from rl_steps_inv [OF steps rl_inv_init [OF this]]
    have "rl_inv (view src tr s') \<and> rl_params (bucket (view src tr s')) = rl_params (bucket ?w)" .
    then show ?thesis by (simp add: bucket_books_def rl_init_def rl_params_def rate_limiter_new_def Let_def)
  qed
  have "bucket_books rate burst src' x s'" if x: "map_of (buckets th) src' = Some x" for src' x
  proof (cases "src' = src")
    case True
    with own x show ?thesis by (simp add: tr update_conv)
  next
    case False
    then have "map_of (buckets ?th) src' = Some x"
      using x by (auto simp: tr update_conv evict_lru_def delete_conv split: if_splits option.splits)
    then have "bucket_books rate burst src' x s" using inv by (simp add: ta_inv_def)
    moreover have "view src' x s' = (view src' x s)\<lparr>clock := ?c\<rparr>"
      unfolding new_view using False by (simp add: s'_def ta_goto_def view_def)
    ultimately show ?thesis
      using bucket_books_steps [of rate burst src' x s x s'] later [of "view src' x s"] times by (simp add: ordered_from_def)
  qed
  moreover have "fits mx th"
    using get_or_create_bucket_fits [OF perm wf _ run] inv by (simp add: ta_inv_def)
  ultimately show ?thesis using inv same by (simp add: ta_inv_def shared throttle_wf_def)
qed

lemma ta_shared_simps [simp]:
  "ta_shared (ta_goto i pc s) = ta_shared s" "ta_clock (ta_goto i pc s) = ta_clock s"
  "ta_granted (ta_goto i pc s) = ta_granted s" "ta_pcs (put_bucket src tr s) = ta_pcs s"
  "ta_clock (put_bucket src tr s) = ta_clock s" "ta_granted (put_bucket src tr s) = ta_granted s"
  "ta_shared (put_bucket src tr s) = (ta_shared s)\<lparr>buckets := AList.update src tr (buckets (ta_shared s))\<rparr>"
  by (simp_all add: ta_goto_def put_bucket_def)

lemma ta_at_frame [simp]:
  "ta_at (put_bucket src tr s) i pc = ta_at s i pc" "ta_at (s\<lparr>ta_granted := f\<rparr>) i pc = ta_at s i pc"
  by (simp_all add: ta_at_def)

lemma ta_inv_step:
  assumes perm: "permutes order" and inv: "ta_inv rate burst mx s" and step: "ta_step order s t"
  shows "ta_inv rate burst mx t"
  using step
proof (cases rule: ta_step.cases)
  case (pass d)
  have "bucket_books rate burst src tr t" if "bucket_books rate burst src tr s" for src tr
    using bucket_books_steps [OF that, of tr t] rl_step.tick [of "view src tr s" d] pass
    by (simp add: view_simps r_into_rtranclp)
  with inv pass show ?thesis by (simp add: ta_inv_def)
next
  case (found i src tr)
  note unseen = view_unseen [OF found(2)]
  show ?thesis
  proof (rule ta_inv_put [OF inv found(3)])
    show "rl_step\<^sup>*\<^sup>* (view src tr s) (view src (tr\<lparr>last_access_nanos := of_nat (ta_clock s - created tr)\<rparr>) t)"
      using unseen [of src "In src Idle" tr] unfolding found(1) view_simps by (simp add: view_def)
  next
    fix src' x assume "src' \<noteq> src"
    then show "view src' x t = view src' x s"
      using unseen [of src' "In src Idle" x] by (simp add: found(1) view_simps)
  qed (simp add: found(1))
next
  case (missed i src)
  have "view k x t = view k x s" for k x
    using view_unseen [OF missed(2), of k "Awaiting_write src" x] by (simp add: missed(1) view_simps)
  with inv missed(1) show ?thesis by (simp add: ta_inv_def bucket_books_def)
next
  case (begin_call i src tr)
  let ?now = "of_nat (ta_clock s - tb_start (tracked_bucket tr))"
  show ?thesis
  proof (rule ta_inv_update [OF inv begin_call(3), where m = "buckets (ta_shared s)" and tr' = tr])
    have "rl_step (view src tr s) (goto i (Load_last ?now) (view src tr s))"
      using rl_step.call [OF view_at [OF begin_call(2), of src tr, simplified]] by (simp add: now_nanos_def)
    then show "rl_step\<^sup>*\<^sup>* (view src tr s) (view src tr t)" by (simp add: begin_call(1) view_simps r_into_rtranclp)
  next
    fix src' x assume "src' \<noteq> src"
    then show "view src' x t = view src' x s"
      using view_unseen [OF begin_call(2), of src' "In src (Load_last ?now)" x] by (simp add: begin_call(1) view_simps)
  qed (use inv begin_call in \<open>auto simp: ta_inv_def\<close>)
next
  case (act i src pc tr b pc' g)
  define pc'' where "pc'' = (if pc' = Idle then Out else In src pc')"
  let ?s = "put_bucket src (tr\<lparr>tracked_bucket := b\<rparr>) (s\<lparr>ta_granted := (ta_granted s)(src := ta_granted s src + g)\<rparr>)"
  have t: "t = ta_goto i pc'' ?s" using act(1) by (simp only: pc''_def)
  have seen: "thread_view src pc'' = pc'" and unseen: "src' \<noteq> src \<Longrightarrow> thread_view src' pc'' = Idle" for src'
    by (simp_all add: pc''_def)
  show ?thesis
  proof (rule ta_inv_put [OF inv act(3)])
    have "view src (tr\<lparr>tracked_bucket := b\<rparr>) t = goto i pc' ((view src tr s)\<lparr>bucket := as_rate_limiter b,
        granted := granted (view src tr s) + g\<rparr>)"
      unfolding t view_simps seen by (simp add: view_def)
    moreover have "rl_step (view src tr s) (goto i pc' ((view src tr s)\<lparr>bucket := as_rate_limiter b,
        granted := granted (view src tr s) + g\<rparr>))"
      using tb_step_view [OF act(4), of "view src tr s" i] view_at [OF act(2), of src tr] by simp
    ultimately show "rl_step\<^sup>*\<^sup>* (view src tr s) (view src (tr\<lparr>tracked_bucket := b\<rparr>) t)" by simp
  next
    fix src' x assume other: "src' \<noteq> src"
    then have same: "view src' x ?s = view src' x s" by (simp add: view_def)
    show "view src' x t = view src' x s"
      unfolding t view_simps(1) same using view_unseen [OF act(2), of src' pc'' x] unseen other by simp
  qed (simp add: t)
next
  case (exclusive i src r ok th)
  from ta_inv_slow [OF perm inv exclusive(2-5)] show ?thesis by (simp add: exclusive(1))
qed

lemma ta_steps_inv:
  assumes "permutes order" and "rate \<le> 1000000000"
    and "(ta_step order)\<^sup>*\<^sup>* (ta_start t0 (max_sources mx (throttle_new rate burst)) n) s"
  shows "ta_inv rate burst mx s"
  using assms(3)
proof (induction rule: rtranclp_induct)
  case base
  show ?case
    using assms(2) by (simp add: ta_inv_def ta_start_def max_sources_def throttle_new_def fits_def)
next
  case (step s t)
  from ta_inv_step [OF assms(1) step.IH step.hyps(2)] show ?case .
qed

text \<open>C25. The throttle under concurrency: however the atomic operations of the threads inside the read lock, the critical
  sections of the write lock and the passing of time interleave, the requests admitted for a source since its bucket was made are at
  most \<open>burst\<close> plus one per refill interval of that time, no bucket holds more than its capacity, and there are never more buckets
  than the maximum (or one, when it is zero).\<close>

theorem throttle_concurrent_bound:
  assumes "rate \<le> 1000000000" and "permutes order"
    and "(ta_step order)\<^sup>*\<^sup>* (ta_start t0 (max_sources mx (throttle_new rate burst)) n) s"
  shows "source_count (ta_shared s) \<le> max 1 mx \<and>
    (\<forall>src. case map_of (buckets (ta_shared s)) src of
       None \<Rightarrow> True
     | Some tr \<Rightarrow>
         ta_granted s src \<le>
           unat burst + (ta_clock s - tb_start (tracked_bucket tr)) div unat (interval_nanos rate) \<and>
         tb_tokens (tracked_bucket tr) \<le> saturating_mul burst 1000)"
proof -
  note inv = ta_steps_inv [OF assms(2,1,3)]
  have "ta_granted s src \<le> unat burst + (ta_clock s - tb_start (tracked_bucket tr)) div unat (interval_nanos rate) \<and>
      tb_tokens (tracked_bucket tr) \<le> saturating_mul burst 1000"
    if "map_of (buckets (ta_shared s)) src = Some tr" for src tr
    using rl_inv_bound [OF assms(1), of "view src tr s" "tb_start (tracked_bucket tr)" burst] inv that
    by (auto simp: ta_inv_def bucket_books_def)
  moreover have "source_count (ta_shared s) \<le> max 1 mx"
    using inv by (simp add: ta_inv_def fits_def source_count_def)
  ultimately show ?thesis by (auto split: option.splits)
qed

text \<open>A closed instance: the first request of a source makes its bucket; a second and a third thread then find it, and one
  of them is inside the read lock when the bound is read off.\<close>

theorem throttle_concurrent_bound_witness:
  "\<exists>s tr. (ta_step id)\<^sup>*\<^sup>* (ta_start 0 (max_sources 2 (throttle_new 1 1)) 2) s \<and> ta_pcs s ! 1 = In ''a'' Idle \<and>
     map_of (buckets (ta_shared s)) ''a'' = Some tr \<and> ta_granted s ''a'' = 1 \<and> ta_granted s ''a'' \<le> 1 + (ta_clock s - 1) div 10 ^ 9"
proof -
  let ?th = "max_sources 2 (throttle_new 1 1)"
  let ?s0 = "ta_start 0 ?th 2"
  let ?s1 = "ta_goto 0 (Awaiting_write ''a'') ?s0"
  obtain th tr where slow: "slow_path id (taking 1 0) ''a'' ?th = Inr (True, th)" and tr: "buckets th = [(''a'', tr)]"
    and start: "tb_start (tracked_bucket tr) = 1"
    by (simp add: slow_path_def max_sources_def throttle_new_def tracked_try_acquire_def tracked_bucket_new_def token_bucket_new_def
        token_bucket_try_acquire_def token_bucket_refill_def saturating_sub_def saturating_mul_def Let_def)
  let ?s2 = "ta_goto 0 Out (?s1\<lparr>ta_shared := th, ta_clock := at_refill (taking 1 0), ta_granted := (ta_granted ?s1)(''a'' := 0 + 1)\<rparr>)"
  let ?tr = "tr\<lparr>last_access_nanos := of_nat (ta_clock ?s2 - created tr)\<rparr>"
  let ?s3 = "ta_goto 1 (In ''a'' Idle) (put_bucket ''a'' ?tr ?s2)"
  have "ta_step id ?s0 ?s1"
    by (rule ta_step.missed) (simp_all add: ta_at_def ta_start_def max_sources_def throttle_new_def)
  moreover have "ta_step id ?s1 ?s2"
    using ta_step.exclusive [of ?s1 0 "''a''" "taking 1 0" id True th] slow
    by (simp add: ta_at_def ta_start_def ta_goto_def max_sources_def throttle_new_def numeral_2_eq_2 ordered_from_def)
  moreover have "ta_step id ?s2 ?s3"
    by (rule ta_step.found) (simp_all add: ta_at_def ta_start_def ta_goto_def tr)
  ultimately have reach: "(ta_step id)\<^sup>*\<^sup>* ?s0 ?s3" by (meson rtranclp.rtrancl_into_rtrancl rtranclp.rtrancl_refl)
  have "permutes id" by (simp add: permutes_def)
  from throttle_concurrent_bound [OF _ this reach, THEN conjunct2, THEN spec, of "''a''"]
  have "ta_granted ?s3 ''a'' \<le> 1 + (ta_clock ?s3 - 1) div 10 ^ 9"
    by (simp add: tr start interval_nanos_def ta_start_def split: option.splits)
  moreover have "map_of (buckets (ta_shared ?s3)) ''a'' = Some ?tr" by (simp add: tr)
  moreover have "ta_pcs ?s3 ! 1 = In ''a'' Idle" by (simp add: ta_goto_def ta_start_def put_bucket_def)
  moreover have "ta_granted ?s3 ''a'' = 1" by simp
  ultimately show ?thesis using reach by blast
qed

end
