(* ===== verification/Dedup_Threads.thy ===== *)
theory Dedup_Threads
  imports Deduplicator
begin

text \<open>
  The deduplicator of \<open>gateway/src/middleware/dedup.rs\<close> used by several threads. A call of \<open>check\<close> reads the clock, counts
  itself, perhaps resets the counter and cleans up under the lock, and then decides under the lock; between these points other
  threads run, so that a thread may decide with a clock reading that is older than what others have done. Each
  decision is remembered with the clock at that moment, the reading it used, the identifier and the answer.
\<close>

datatype dd_pc = Out | Counting string nat | Resetting string nat | Cleaning string nat | Deciding string nat

record decision =
  decided_at :: nat
  reading :: nat
  checked_id :: string
  fresh :: bool

record dd_sys =
  dd :: Deduplicator
  dd_clock :: nat
  dd_pcs :: "nat \<Rightarrow> dd_pc"
  decisions :: "decision list"

definition dd_start :: "nat \<Rightarrow> Deduplicator \<Rightarrow> dd_sys" where
  "dd_start t d = \<lparr>dd = d, dd_clock = t, dd_pcs = (\<lambda>_. Out), decisions = []\<rparr>"

text \<open>The last critical section of \<open>check\<close>.\<close>

definition decide :: "nat \<Rightarrow> string \<Rightarrow> Deduplicator \<Rightarrow> bool \<times> Deduplicator" where
  "decide now i self =
     (let duplicate = (case map_of (seen self) i of
              None \<Rightarrow> False
            | Some last_seen \<Rightarrow> now - last_seen < ttl self)
      in if duplicate then (False, self)
         else (True, self\<lparr>seen := AList.update i now (seen self)\<rparr>))"

inductive dd_step :: "dd_sys \<Rightarrow> dd_sys \<Rightarrow> bool" where
  pass: "dd_step s (s\<lparr>dd_clock := dd_clock s + dt\<rparr>)"
| read: "dd_pcs s k = Out \<Longrightarrow> dd_step s (s\<lparr>dd_pcs := (dd_pcs s)(k := Counting i (dd_clock s))\<rparr>)"
| number: "dd_pcs s k = Counting i now \<Longrightarrow> dd_step s
    (s\<lparr>dd := (dd s)\<lparr>ops_since_cleanup := ops_since_cleanup (dd s) + 1\<rparr>,
       dd_pcs := (dd_pcs s)(k := if ops_since_cleanup (dd s) \<ge> cleanup_interval (dd s)
         then Resetting i now else Deciding i now)\<rparr>)"
| reset: "dd_pcs s k = Resetting i now \<Longrightarrow> dd_step s
    (s\<lparr>dd := (dd s)\<lparr>ops_since_cleanup := 0\<rparr>, dd_pcs := (dd_pcs s)(k := Cleaning i now)\<rparr>)"
| clean: "dd_pcs s k = Cleaning i now \<Longrightarrow> dd_step s
    (s\<lparr>dd := dedup_cleanup now (dd s), dd_pcs := (dd_pcs s)(k := Deciding i now)\<rparr>)"
| decide: "dd_pcs s k = Deciding i now \<Longrightarrow> decide now i (dd s) = (ok, d) \<Longrightarrow> dd_step s
    (s\<lparr>dd := d, dd_pcs := (dd_pcs s)(k := Out),
       decisions := decisions s @ [\<lparr>decided_at = dd_clock s, reading = now, checked_id = i, fresh = ok\<rparr>]\<rparr>)"

inductive_cases dd_stepE: "dd_step s t"

text \<open>Run without others in between, the steps of a call are \<open>dedup_check\<close>.\<close>

lemma dedup_check_decide:
  "dedup_check now i d =
     (let ops = ops_since_cleanup d; d = d\<lparr>ops_since_cleanup := ops + 1\<rparr>;
          d = (if ops \<ge> cleanup_interval d then dedup_cleanup now (d\<lparr>ops_since_cleanup := 0\<rparr>) else d)
      in decide now i d)"
  by (simp add: dedup_check_def decide_def Let_def)

section \<open>What the table remembers\<close>

fun pc_reading :: "dd_pc \<Rightarrow> nat" where
  "pc_reading Out = 0"
| "pc_reading (Counting i now) = now"
| "pc_reading (Resetting i now) = now"
| "pc_reading (Cleaning i now) = now"
| "pc_reading (Deciding i now) = now"

definition accepts :: "string \<Rightarrow> decision \<Rightarrow> bool" where
  "accepts i x \<longleftrightarrow> checked_id x = i \<and> fresh x"

text \<open>An acceptance that has not expired by the clock is in the table, perhaps refreshed; every entry is an acceptance.\<close>

definition dd_inv :: "nat \<Rightarrow> dd_sys \<Rightarrow> bool" where
  "dd_inv d s \<longleftrightarrow>
     ttl (dd s) = d \<and> dedup_wf (dd s) \<and> (\<forall>k. pc_reading (dd_pcs s k) \<le> dd_clock s) \<and>
     (\<forall>x\<in>set (decisions s). \<forall>i. accepts i x \<and> dd_clock s - reading x < d \<longrightarrow>
        (\<exists>l. map_of (seen (dd s)) i = Some l \<and> reading x \<le> l)) \<and>
     (\<forall>i l. map_of (seen (dd s)) i = Some l \<longrightarrow> (\<exists>x\<in>set (decisions s). accepts i x \<and> reading x = l))"

text \<open>The claim for one decision, given those before it.\<close>

definition decision_ok :: "nat \<Rightarrow> decision list \<Rightarrow> decision \<Rightarrow> bool" where
  "decision_ok d before x \<longleftrightarrow>
     (if fresh x then \<forall>y\<in>set before. accepts (checked_id x) y \<longrightarrow> d \<le> decided_at x - reading y
      else \<exists>y\<in>set before. accepts (checked_id x) y \<and> reading x - reading y < d)"

lemma dd_inv_clean:
  assumes inv: "dd_inv d s" and "now \<le> dd_clock s"
    and "\<And>j. pc_reading (pcs j) \<le> dd_clock s"
  shows "dd_inv d (s\<lparr>dd := dedup_cleanup now (dd s), dd_pcs := pcs\<rparr>)"
proof -
  have seen: "map_of (seen (dedup_cleanup now (dd s))) i =
      (case map_of (seen (dd s)) i of None \<Rightarrow> None | Some l \<Rightarrow> if now - l < d then Some l else None)" for i
    using inv by (simp add: dd_inv_def dedup_cleanup_def dedup_wf_def map_of_filter_hm)
  have "\<exists>l. map_of (seen (dedup_cleanup now (dd s))) i = Some l \<and> reading x \<le> l"
    if x: "x \<in> set (decisions s)" "accepts i x" "dd_clock s - reading x < d" for x i
  proof -
    obtain l where l: "map_of (seen (dd s)) i = Some l" "reading x \<le> l"
      using inv x unfolding dd_inv_def by blast
    then have "now - l < d" using x(3) assms(2) by linarith
    with l show ?thesis by (simp add: seen)
  qed
  moreover have "\<exists>x\<in>set (decisions s). accepts i x \<and> reading x = l"
    if "map_of (seen (dedup_cleanup now (dd s))) i = Some l" for i l
    using that inv by (auto simp: seen dd_inv_def split: option.splits if_splits)
  ultimately show ?thesis
    using inv assms(3) by (auto simp: dd_inv_def dedup_cleanup_wf) (simp add: dedup_cleanup_def)
qed

lemma dd_decide:
  assumes inv: "dd_inv d s" and now: "now \<le> dd_clock s" and step: "decide now i (dd s) = (ok, d')"
    and pcs: "\<And>j. pc_reading (pcs j) \<le> dd_clock s"
  defines "x \<equiv> \<lparr>decided_at = dd_clock s, reading = now, checked_id = i, fresh = ok\<rparr>"
  shows "decision_ok d (decisions s) x"
    and "dd_inv d (s\<lparr>dd := d', dd_pcs := pcs, decisions := decisions s @ [x]\<rparr>)"
proof -
  have ttl: "ttl (dd s) = d" using inv by (simp add: dd_inv_def)
  have kept: "\<exists>l. map_of (seen (dd s)) j = Some l \<and> reading y \<le> l"
    if "y \<in> set (decisions s)" "accepts j y" "dd_clock s - reading y < d" for y j
    using inv that unfolding dd_inv_def by blast
  have entry: "\<exists>y\<in>set (decisions s). accepts j y \<and> reading y = l" if "map_of (seen (dd s)) j = Some l" for j l
    using inv that unfolding dd_inv_def by blast
  consider (dup) l where "map_of (seen (dd s)) i = Some l" "now - l < d" "ok = False" "d' = dd s"
    | (new) "\<And>l. map_of (seen (dd s)) i = Some l \<Longrightarrow> d \<le> now - l" "ok = True"
        "d' = (dd s)\<lparr>seen := AList.update i now (seen (dd s))\<rparr>"
    using step by (auto simp: decide_def ttl split: option.splits if_splits)
  then have "decision_ok d (decisions s) x \<and>
      dd_inv d (s\<lparr>dd := d', dd_pcs := pcs, decisions := decisions s @ [x]\<rparr>)"
  proof cases
    case dup
    with entry have "decision_ok d (decisions s) x" by (force simp: decision_ok_def x_def)
    moreover have "\<not> accepts j x" for j using dup by (simp add: accepts_def x_def)
    ultimately show ?thesis using inv pcs dup by (auto simp: dd_inv_def)
  next
    case new
    have old: "d \<le> dd_clock s - reading y" if y: "y \<in> set (decisions s)" "accepts i y" for y
    proof (rule ccontr)
      assume "\<not> d \<le> dd_clock s - reading y"
      then obtain l where "map_of (seen (dd s)) i = Some l" "reading y \<le> l" using kept [OF y] by (meson not_le)
      with new(1) now \<open>\<not> d \<le> dd_clock s - reading y\<close> show False by (meson diff_le_mono diff_le_mono2 order_trans)
    qed
    then have "decision_ok d (decisions s) x" using new by (simp add: decision_ok_def x_def)
    moreover have "accepts j x \<longleftrightarrow> j = i" for j using new by (auto simp: accepts_def x_def)
    ultimately show ?thesis
      using inv pcs new old kept entry
      by (auto simp: dd_inv_def dedup_wf_def x_def) (meson leD)
  qed
  then show "decision_ok d (decisions s) x" "dd_inv d (s\<lparr>dd := d', dd_pcs := pcs, decisions := decisions s @ [x]\<rparr>)"
    by blast+
qed

definition dd_log_inv :: "nat \<Rightarrow> dd_sys \<Rightarrow> bool" where
  "dd_log_inv d s \<longleftrightarrow> dd_inv d s \<and> (\<forall>n<length (decisions s). decision_ok d (take n (decisions s)) (decisions s ! n))"

lemma dd_inv_frame:
  assumes "dd_inv d s" and "seen d' = seen (dd s)" and "ttl d' = ttl (dd s)" and "\<And>j. pc_reading (pcs j) \<le> dd_clock s"
  shows "dd_inv d (s\<lparr>dd := d', dd_pcs := pcs\<rparr>)"
  using assms by (simp add: dd_inv_def dedup_wf_def)

lemma dd_log_inv_frame: "dd_log_inv d s \<Longrightarrow> dd_inv d t \<Longrightarrow> decisions t = decisions s \<Longrightarrow> dd_log_inv d t"
  by (simp add: dd_log_inv_def)

lemma dd_step_inv:
  assumes "dd_step s t" and "dd_log_inv d s"
  shows "dd_log_inv d t"
proof -
  have inv: "dd_inv d s" using assms(2) by (simp add: dd_log_inv_def)
  then have pc: "pc_reading (dd_pcs s k) \<le> dd_clock s" for k by (simp add: dd_inv_def)
  have upd: "pc_reading (((dd_pcs s)(k := p)) j) \<le> dd_clock s" if "pc_reading p \<le> dd_clock s" for k p j
    using pc that by simp
  have clock: "now \<le> dd_clock s" if "pc_reading (dd_pcs s k) = now" for k now using pc [of k] that by simp
  show ?thesis
    using assms(1)
  proof cases
    case (pass dt)
    then have "dd_inv d t" using inv by (auto simp: dd_inv_def intro: le_trans)
    then show ?thesis using dd_log_inv_frame [OF assms(2)] pass by simp
  next
    case (read k i)
    have "dd_inv d t" using dd_inv_frame [OF inv refl refl, of "(dd_pcs s)(k := Counting i (dd_clock s))"] upd
      by (simp add: read)
    then show ?thesis using dd_log_inv_frame [OF assms(2)] read by simp
  next
    case (number k i now)
    with clock [of k now] have "dd_inv d t" unfolding number(1) by (intro dd_inv_frame [OF inv]) (auto intro: pc)
    then show ?thesis using dd_log_inv_frame [OF assms(2)] number by simp
  next
    case (reset k i now)
    with clock [of k now] have "dd_inv d t" unfolding reset(1) by (intro dd_inv_frame [OF inv]) (auto intro: pc)
    then show ?thesis using dd_log_inv_frame [OF assms(2)] reset by simp
  next
    case (clean k i now)
    with clock [of k now] have "dd_inv d t" unfolding clean(1) by (intro dd_inv_clean [OF inv]) (auto intro: pc)
    then show ?thesis using dd_log_inv_frame [OF assms(2)] clean by simp
  next
    case (decide k i now ok d')
    have now: "now \<le> dd_clock s" using pc [of k] decide by simp
    have "decision_ok d (take n (decisions t)) (decisions t ! n)" if "n < length (decisions t)" for n
      using that assms(2) dd_decide(1) [OF inv now decide(3) pc]
      by (cases "n = length (decisions s)") (auto simp: decide dd_log_inv_def nth_append)
    moreover have "dd_inv d t" using dd_decide(2) [OF inv now decide(3), of "(dd_pcs s)(k := Out)"] upd by (simp add: decide)
    ultimately show ?thesis by (simp add: dd_log_inv_def)
  qed
qed

lemma dd_steps_inv: "dd_step\<^sup>*\<^sup>* (dd_start t0 (with_cleanup_interval d interval)) s \<Longrightarrow> dd_log_inv d s"
proof (induction rule: rtranclp_induct)
  case base
  then show ?case by (simp add: dd_log_inv_def dd_inv_def dd_start_def with_cleanup_interval_def dedup_wf_def)
qed (rule dd_step_inv)

text \<open>C23. Deduplication under concurrency. Whatever the interleaving of calls, and however old the clock readings that they decide with: when a message
  is let through, at least the time-to-live has passed since the clock reading of every earlier call that let the same identifier through; and a
  message is held back only because an earlier call let its identifier through with a reading
  less than the time-to-live before its own.\<close>

theorem dedup_concurrent_window:
  assumes "dd_step\<^sup>*\<^sup>* (dd_start t0 (with_cleanup_interval d interval)) s" and "n < length (decisions s)"
  defines "x \<equiv> decisions s ! n" and "before \<equiv> take n (decisions s)"
  shows "if fresh x then \<forall>y\<in>set before. checked_id y = checked_id x \<and> fresh y \<longrightarrow> d \<le> decided_at x - reading y
    else \<exists>y\<in>set before. checked_id y = checked_id x \<and> fresh y \<and> reading x - reading y < d"
  using dd_steps_inv [OF assms(1)] assms(2)
  by (auto simp: dd_log_inv_def decision_ok_def accepts_def x_def before_def split: if_splits)

text \<open>A closed instance: one call lets an identifier through, the next one at the same time holds it back.\<close>

definition first_call :: "dd_sys \<Rightarrow> dd_sys" where
  "first_call s = (let d = dd s; (ok, d) = decide (dd_clock s) ''a'' (d\<lparr>ops_since_cleanup := ops_since_cleanup d + 1\<rparr>) in
     s\<lparr>dd := d, dd_pcs := (dd_pcs s)(0 := Out),
       decisions := decisions s @ [\<lparr>decided_at = dd_clock s, reading = dd_clock s, checked_id = ''a'', fresh = ok\<rparr>]\<rparr>)"

lemma first_call_steps:
  assumes "dd_pcs s 0 = Out" and "ops_since_cleanup (dd s) < cleanup_interval (dd s)"
  shows "dd_step\<^sup>*\<^sup>* s (first_call s)"
proof -
  let ?s1 = "s\<lparr>dd_pcs := (dd_pcs s)(0 := Counting ''a'' (dd_clock s))\<rparr>"
  let ?d = "(dd s)\<lparr>ops_since_cleanup := ops_since_cleanup (dd s) + 1\<rparr>"
  let ?s2 = "s\<lparr>dd := ?d, dd_pcs := (dd_pcs s)(0 := Deciding ''a'' (dd_clock s))\<rparr>"
  have "dd_step s ?s1" using assms(1) by (rule dd_step.read)
  moreover have "dd_step ?s1 ?s2"
    using dd_step.number [of ?s1 0 "''a''" "dd_clock s"] assms(2) by (simp add: not_le [symmetric])
  moreover obtain ok d where dec: "decide (dd_clock s) ''a'' ?d = (ok, d)" by fastforce
  then have "dd_step ?s2 (first_call s)"
    using dd_step.decide [of ?s2 0 "''a''" "dd_clock s" ok d] by (simp add: first_call_def)
  ultimately show ?thesis by (meson rtranclp.rtrancl_into_rtrancl rtranclp.rtrancl_refl)
qed

theorem dedup_concurrent_window_witness:
  "\<exists>s. dd_step\<^sup>*\<^sup>* (dd_start 0 (with_cleanup_interval 10 1000)) s \<and> map fresh (decisions s) = [True, False] \<and>
     (\<exists>y\<in>set (take 1 (decisions s)). checked_id y = checked_id (decisions s ! 1) \<and> fresh y \<and>
        reading (decisions s ! 1) - reading y < 10)"
proof -
  let ?s0 = "dd_start 0 (with_cleanup_interval 10 1000)"
  have reach: "dd_step\<^sup>*\<^sup>* ?s0 (first_call (first_call ?s0))"
    by (rule rtranclp_trans; rule first_call_steps)
      (simp_all add: first_call_def decide_def dd_start_def with_cleanup_interval_def word_less_nat_alt word_le_nat_alt max_def)
  have "map fresh (decisions (first_call (first_call ?s0))) = [True, False]"
    by (simp add: first_call_def decide_def dd_start_def with_cleanup_interval_def)
  moreover from this have "length (decisions (first_call (first_call ?s0))) = 2"
    by (metis length_map length_Cons list.size(3) numeral_2_eq_2)
  moreover from calculation have "\<not> fresh (decisions (first_call (first_call ?s0)) ! 1)"
    by (metis Suc_1 lessI nth_Cons_0 nth_Cons_Suc nth_map One_nat_def)
  ultimately show ?thesis
    using dedup_concurrent_window [OF reach, of 1] reach by (intro exI [of _ "first_call (first_call ?s0)"]) simp
qed

end
