(* ===== verification/Server_Threads.thy ===== *)
theory Server_Threads
  imports Gateway_Server "HOL-Library.Sublist"
begin

text \<open>
  The handlers of \<open>gateway/src/server.rs\<close> running concurrently on one service. A handler takes the lock of the buffer to push, then
  adds to the counter, and takes the lock again to read the length for its acknowledgement; between these points other
  handlers run, and whoever shares the buffer may drain it. A handler is an entry of \<open>handlers\<close>: a unary call, or one
  round of an open stream. The last fields of the state remember what was pushed and drained, the answers, and how many unary
  calls were told that their event was dropped.
\<close>

datatype sv_pc = Idle | Storing "string list" nat | Acking "string list"

record sv_sys =
  svc :: GatewayService
  handlers :: "sv_pc list"
  pushed_log :: "Event list"
  drained_out :: "Message list"
  replies :: "(status + Ack) list"
  refused :: nat

definition sv_start :: "GatewayService \<Rightarrow> nat \<Rightarrow> sv_sys" where
  "sv_start g n = \<lparr>svc = g, handlers = replicate n Idle, pushed_log = [], drained_out = [], replies = [], refused = 0\<rparr>"

text \<open>The first part of \<open>send_event\<close>, up to the push.\<close>

definition unary_part :: "IngestEvent \<Rightarrow> nat \<Rightarrow> sv_sys \<Rightarrow> sv_sys" where
  "unary_part ingest i s =
     (case process_event ingest (svc s) of
        Inl status \<Rightarrow> s\<lparr>replies := replies s @ [Inl status]\<rparr>
      | Inr event \<Rightarrow>
          let (dropped, buffer) = ring_buffer_push [message_from_event event] (svc_buffer (svc s));
              s = s\<lparr>svc := (svc s)\<lparr>svc_buffer := buffer\<rparr>, pushed_log := pushed_log s @ [event]\<rparr>
          in if dropped > 0
             then s\<lparr>replies := replies s @ [Inl (mk_status ResourceExhausted ''Buffer full, event dropped'')],
                    refused := refused s + 1\<rparr>
             else s\<lparr>handlers := (handlers s)[i := Storing [ev_id event] 1]\<rparr>)"

text \<open>The first part of a round of the streaming loop.\<close>

definition stream_part :: "IngestBatch \<Rightarrow> nat \<Rightarrow> sv_sys \<Rightarrow> sv_sys" where
  "stream_part batch i s =
     (case process_batch_with_registry batch (svc_registry (svc s)) of
        Inl status \<Rightarrow> s\<lparr>replies := replies s @ [Inl status]\<rparr>
      | Inr events \<Rightarrow>
          if events = [] then s\<lparr>handlers := (handlers s)[i := Acking []]\<rparr>
          else
            s\<lparr>svc := (svc s)\<lparr>svc_buffer := rb_put (map message_from_event events) (svc_buffer (svc s))\<rparr>,
              pushed_log := pushed_log s @ events,
              handlers := (handlers s)[i := Storing (map ev_id events) (length events)]\<rparr>)"

definition count_part :: "string list \<Rightarrow> nat \<Rightarrow> nat \<Rightarrow> sv_sys \<Rightarrow> sv_sys" where
  "count_part ids n i s =
     s\<lparr>svc := (svc s)\<lparr>events_processed := events_processed (svc s) + of_nat n\<rparr>,
       handlers := (handlers s)[i := Acking ids]\<rparr>"

definition ack_part :: "string list \<Rightarrow> nat \<Rightarrow> sv_sys \<Rightarrow> sv_sys" where
  "ack_part ids i s =
     s\<lparr>replies := replies s @ [Inr (make_ack ids (svc_buffer (svc s)))], handlers := (handlers s)[i := Idle]\<rparr>"

definition drain_part :: "nat \<Rightarrow> sv_sys \<Rightarrow> sv_sys" where
  "drain_part n s =
     (case ring_buffer_drain n (svc_buffer (svc s)) of (msgs, buffer) \<Rightarrow>
        s\<lparr>svc := (svc s)\<lparr>svc_buffer := buffer\<rparr>, drained_out := drained_out s @ msgs\<rparr>)"

inductive sv_step :: "sv_sys \<Rightarrow> sv_sys \<Rightarrow> bool" where
  unary: "i < length (handlers s) \<Longrightarrow> handlers s ! i = Idle \<Longrightarrow> sv_step s (unary_part ingest i s)"
| stream: "i < length (handlers s) \<Longrightarrow> handlers s ! i = Idle \<Longrightarrow> sv_step s (stream_part batch i s)"
| number: "i < length (handlers s) \<Longrightarrow> handlers s ! i = Storing ids n \<Longrightarrow> sv_step s (count_part ids n i s)"
| ack: "i < length (handlers s) \<Longrightarrow> handlers s ! i = Acking ids \<Longrightarrow> sv_step s (ack_part ids i s)"
| drain: "sv_step s (drain_part n s)"

inductive_cases sv_stepE: "sv_step s t"

text \<open>Run without others in between, the parts of a call are the handler of \<open>Gateway_Server\<close>.\<close>

lemma unary_solo:
  assumes "handlers s = [Idle]" and "process_event ingest (svc s) = Inr event"
    and "fst (ring_buffer_push [message_from_event event] (svc_buffer (svc s))) = 0"
  shows "let t = ack_part [ev_id event] 0 (count_part [ev_id event] 1 0 (unary_part ingest 0 s)) in
    send_event ingest (svc s) = (last (replies t), svc t)"
  using assms by (simp add: unary_part_def count_part_def ack_part_def send_event_def Let_def case_prod_beta)

section \<open>Accounting\<close>

fun uncounted :: "sv_pc \<Rightarrow> nat" where
  "uncounted (Storing ids n) = n"
| "uncounted _ = 0"

fun claimed_ids :: "sv_pc \<Rightarrow> string list" where
  "claimed_ids Idle = []"
| "claimed_ids (Storing ids n) = ids"
| "claimed_ids (Acking ids) = ids"

text \<open>Events that are stored and not yet counted.\<close>

definition in_flight :: "sv_sys \<Rightarrow> nat" where
  "in_flight s = sum_list (map uncounted (handlers s))"

definition good_reply :: "nat \<Rightarrow> Event list \<Rightarrow> status + Ack \<Rightarrow> bool" where
  "good_reply cap evs r \<longleftrightarrow>
     (case r of Inl _ \<Rightarrow> True
      | Inr a \<Rightarrow> set (event_ids a) \<subseteq> ev_id ` set evs \<and> (\<exists>n\<le>cap. ack_buffer_size a = of_nat n) \<and>
          ack_buffer_capacity a = of_nat cap)"

definition sv_inv :: "GatewayService \<Rightarrow> sv_sys \<Rightarrow> bool" where
  "sv_inv g s \<longleftrightarrow>
     rb_wf (svc_buffer (svc s)) \<and> rb_capacity (svc_buffer (svc s)) = rb_capacity (svc_buffer g) \<and>
     subseq (drained_out s @ messages (svc_buffer (svc s))) (messages (svc_buffer g) @ map message_from_event (pushed_log s)) \<and>
     events_processed g + of_nat (length (pushed_log s)) = events_processed (svc s) + of_nat (refused s) + of_nat (in_flight s) \<and>
     list_all (good_reply (rb_capacity (svc_buffer g)) (pushed_log s)) (replies s) \<and>
     list_all (\<lambda>h. set (claimed_ids h) \<subseteq> ev_id ` set (pushed_log s)) (handlers s)"

lemma subseq_put:
  assumes "rb_wf b" and "subseq (xs @ messages b) ys"
  shows "subseq (xs @ messages (rb_put ms b)) (ys @ ms)"
proof -
  have "messages (rb_put ms b) = drop (length (messages b) + length ms - rb_capacity b) (messages b @ ms)"
    by (rule messages_push [OF assms(1)])
  then have "subseq (messages (rb_put ms b)) (messages b @ ms)"
    using suffix_drop suffix_imp_subseq by metis
  then have "subseq (xs @ messages (rb_put ms b)) ((xs @ messages b) @ ms)"
    by (simp only: append_assoc subseq_append')
  also have "subseq \<dots> (ys @ ms)" using assms(2) by (simp only: subseq_append)
  finally show ?thesis .
qed

lemma in_flight_update:
  "i < length hs \<Longrightarrow> sum_list (map uncounted (hs[i := h])) + uncounted (hs ! i) = sum_list (map uncounted hs) + uncounted h"
  by (induction hs arbitrary: i) (auto simp: nth_Cons split: nat.splits)

lemma good_reply_mono: "good_reply cap xs r \<Longrightarrow> good_reply cap (xs @ ys) r"
  by (auto simp: good_reply_def split: sum.splits)

lemma list_all_mono_append:
  "list_all (good_reply cap xs) rs \<Longrightarrow> list_all (good_reply cap (xs @ ys)) rs"
  "list_all (\<lambda>h. set (claimed_ids h) \<subseteq> ev_id ` set xs) hs \<Longrightarrow>
   list_all (\<lambda>h. set (claimed_ids h) \<subseteq> ev_id ` set (xs @ ys)) hs"
  by (auto simp: list_all_iff good_reply_mono)

lemma list_all_list_update: "list_all P xs \<Longrightarrow> P y \<Longrightarrow> list_all P (xs[i := y])"
  by (auto simp: list_all_iff dest: set_update_subset_insert [THEN subsetD])

lemma sv_inv_push:
  assumes inv: "sv_inv g s" and i: "i < length (handlers s)" "handlers s ! i = Idle" and ids: "set ids \<subseteq> ev_id ` set events"
  shows "sv_inv g (s\<lparr>svc := (svc s)\<lparr>svc_buffer := rb_put (map message_from_event events) (svc_buffer (svc s))\<rparr>,
    pushed_log := pushed_log s @ events, handlers := (handlers s)[i := Storing ids (length events)]\<rparr>)"
proof -
  let ?b = "svc_buffer (svc s)" and ?ms = "map message_from_event events"
  have "subseq (drained_out s @ messages (rb_put ?ms ?b))
      ((messages (svc_buffer g) @ map message_from_event (pushed_log s)) @ ?ms)"
    using inv by (intro subseq_put) (simp_all add: sv_inv_def)
  moreover have "sum_list (map uncounted ((handlers s)[i := Storing ids (length events)])) =
      sum_list (map uncounted (handlers s)) + length events"
    using in_flight_update [OF i(1), of "Storing ids (length events)"] i(2) by simp
  moreover have "list_all (\<lambda>h. set (claimed_ids h) \<subseteq> ev_id ` set (pushed_log s @ events))
      ((handlers s)[i := Storing ids (length events)])"
    using inv ids by (intro list_all_list_update list_all_mono_append(2)) (auto simp: sv_inv_def)
  ultimately show ?thesis
    using inv list_all_mono_append(1) by (simp add: sv_inv_def in_flight_def algebra_simps)
qed

lemma sv_inv_refused:
  assumes inv: "sv_inv g s"
  shows "sv_inv g (s\<lparr>svc := (svc s)\<lparr>svc_buffer := rb_put [message_from_event event] (svc_buffer (svc s))\<rparr>,
    pushed_log := pushed_log s @ [event], replies := replies s @ [Inl st], refused := refused s + 1\<rparr>)"
proof -
  let ?b = "svc_buffer (svc s)" and ?ms = "[message_from_event event]"
  have "subseq (drained_out s @ messages (rb_put ?ms ?b))
      ((messages (svc_buffer g) @ map message_from_event (pushed_log s)) @ ?ms)"
    using inv by (intro subseq_put) (simp_all add: sv_inv_def)
  moreover have "good_reply cap xs (Inl st)" for cap xs by (simp add: good_reply_def)
  ultimately show ?thesis
    using inv list_all_mono_append(1) [of _ "pushed_log s" _ "[event]"] list_all_mono_append(2) [of "pushed_log s" _ "[event]"]
    by (simp add: sv_inv_def in_flight_def algebra_simps)
qed

lemma sv_inv_unary:
  assumes "sv_inv g s" and "i < length (handlers s)" and "handlers s ! i = Idle"
  shows "sv_inv g (unary_part ingest i s)"
  using assms sv_inv_push [OF assms, of "[ev_id event]" "[event]" for event] sv_inv_refused [OF assms(1)]
  by (auto simp: unary_part_def Let_def case_prod_beta split: sum.splits)
    (simp add: sv_inv_def good_reply_def in_flight_def)

lemma sv_inv_stream:
  assumes "sv_inv g s" and "i < length (handlers s)" and "handlers s ! i = Idle"
  shows "sv_inv g (stream_part batch i s)"
proof (cases "process_batch_with_registry batch (svc_registry (svc s))")
  case (Inl st)
  with assms show ?thesis by (simp add: stream_part_def sv_inv_def good_reply_def in_flight_def)
next
  case (Inr events)
  have "sum_list (map uncounted ((handlers s)[i := Acking []])) = sum_list (map uncounted (handlers s))"
    using in_flight_update [OF assms(2), of "Acking []"] assms(3) by simp
  then have "sv_inv g (s\<lparr>handlers := (handlers s)[i := Acking []]\<rparr>)"
    using assms(1) by (simp add: sv_inv_def in_flight_def list_all_list_update)
  then show ?thesis
    using Inr sv_inv_push [OF assms, of "map ev_id events" events] by (simp add: stream_part_def)
qed

lemma sv_inv_count:
  assumes inv: "sv_inv g s" and i: "i < length (handlers s)" "handlers s ! i = Storing ids n"
  shows "sv_inv g (count_part ids n i s)"
proof -
  have "sum_list (map uncounted ((handlers s)[i := Acking ids])) + n = sum_list (map uncounted (handlers s))"
    using in_flight_update [OF i(1), of "Acking ids"] i(2) by simp
  from this [symmetric] have "of_nat (in_flight s) = of_nat (in_flight (count_part ids n i s)) + (of_nat n :: u64)"
    by (simp add: in_flight_def count_part_def)
  moreover have "set ids \<subseteq> ev_id ` set (pushed_log s)"
    using inv i nth_mem [OF i(1)] by (force simp: sv_inv_def list_all_iff)
  ultimately show ?thesis
    using inv by (simp add: sv_inv_def count_part_def list_all_list_update algebra_simps)
qed

lemma sv_inv_ack:
  assumes inv: "sv_inv g s" and i: "i < length (handlers s)" "handlers s ! i = Acking ids"
  shows "sv_inv g (ack_part ids i s)"
proof -
  have "sum_list (map uncounted ((handlers s)[i := Idle])) = sum_list (map uncounted (handlers s))"
    using in_flight_update [OF i(1), of Idle] i(2) by simp
  moreover have "set ids \<subseteq> ev_id ` set (pushed_log s)"
    using inv i nth_mem [OF i(1)] by (force simp: sv_inv_def list_all_iff)
  ultimately show ?thesis
    using inv by (auto simp: sv_inv_def ack_part_def in_flight_def good_reply_def make_ack_def ring_buffer_len_def rb_wf_def
        intro!: list_all_list_update)
qed

lemma sv_inv_drain: "sv_inv g s \<Longrightarrow> sv_inv g (drain_part n s)"
  by (simp add: sv_inv_def drain_part_def in_flight_def case_prod_beta)

lemma sv_step_inv: "sv_step s t \<Longrightarrow> sv_inv g s \<Longrightarrow> sv_inv g t"
  by (erule sv_stepE) (simp_all add: sv_inv_unary sv_inv_stream sv_inv_count sv_inv_ack sv_inv_drain)

lemma sv_steps_inv:
  assumes "sv_step\<^sup>*\<^sup>* (sv_start g n) s" and "rb_wf (svc_buffer g)"
  shows "sv_inv g s"
  using assms(1)
proof (induction rule: rtranclp_induct)
  case base
  show ?case using assms(2) by (simp add: sv_inv_def sv_start_def in_flight_def sum_list_replicate list_all_iff)
qed (rule sv_step_inv)

text \<open>C33. The accounting of concurrent handlers. Whatever calls and stream rounds run at the same time, and whoever drains the shared buffer in between: what
  was drained, followed by what is buffered, is a subsequence of the old contents followed by all pushed events in the order
  of their pushes. Every pushed event is counted as processed, or belongs to a handler that has
  not yet counted it, or to a unary call that was told that it was dropped. Every acknowledgement names stored events only and reports the
  capacity and a buffer size within it.\<close>

theorem gateway_concurrent_accounting:
  assumes "sv_step\<^sup>*\<^sup>* (sv_start g n) s" and "rb_wf (svc_buffer g)"
  shows "subseq (drained_out s @ messages (svc_buffer (svc s)))
      (messages (svc_buffer g) @ map message_from_event (pushed_log s)) \<and>
    events_processed g + of_nat (length (pushed_log s)) =
      events_processed (svc s) + of_nat (refused s) + of_nat (in_flight s) \<and>
    (\<forall>a. Inr a \<in> set (replies s) \<longrightarrow> set (event_ids a) \<subseteq> ev_id ` set (pushed_log s) \<and>
       (\<exists>k\<le>rb_capacity (svc_buffer g). ack_buffer_size a = of_nat k) \<and>
       ack_buffer_capacity a = of_nat (rb_capacity (svc_buffer g)))"
  using sv_steps_inv [OF assms] by (force simp: sv_inv_def list_all_iff good_reply_def)

text \<open>A closed instance: two unary calls meet at a buffer of one; the first is not yet counted when the second is refused.\<close>

theorem gateway_concurrent_accounting_witness:
  "let g = gateway_service_new 0 (ring_buffer_new 1);
       ingest = (\<lambda>i. \<lparr>ie_source = ''s'', ie_cluster = ''c'', ie_format = [],
         ie_payload = Some (Event_Event (event_from_message (sample_message i)))\<rparr>);
       s = unary_part (ingest ''b'') 1 (unary_part (ingest ''a'') 0 (sv_start g 2)) in
   sv_step\<^sup>*\<^sup>* (sv_start g 2) s \<and> refused s = 1 \<and> in_flight s = 1 \<and>
   events_processed g + 2 = events_processed (svc s) + of_nat (refused s) + of_nat (in_flight s)"
proof -
  let ?g = "gateway_service_new 0 (ring_buffer_new 1)"
  let ?ingest = "\<lambda>i. \<lparr>ie_source = ''s'', ie_cluster = ''c'', ie_format = [],
    ie_payload = Some (Event_Event (event_from_message (sample_message i)))\<rparr>"
  let ?s1 = "unary_part (?ingest ''a'') 0 (sv_start ?g 2)"
  let ?s = "unary_part (?ingest ''b'') 1 ?s1"
  have s1: "handlers ?s1 = [Storing [''a''] 1, Idle]"
    by (simp add: unary_part_def sv_start_def gateway_service_new_def ring_buffer_new_def ring_buffer_push_def
        process_event_def message_with_id_def numeral_2_eq_2)
  have s: "refused ?s = 1" "in_flight ?s = 1" "length (pushed_log ?s) = 2"
    by (simp_all add: unary_part_def sv_start_def gateway_service_new_def ring_buffer_new_def ring_buffer_push_def
        process_event_def message_with_id_def in_flight_def numeral_2_eq_2)
  have "sv_step (sv_start ?g 2) ?s1" by (rule sv_step.unary) (simp_all add: sv_start_def numeral_2_eq_2)
  moreover have "sv_step ?s1 ?s" by (rule sv_step.unary; simp only: s1; simp)
  ultimately have reach: "sv_step\<^sup>*\<^sup>* (sv_start ?g 2) ?s" by (meson rtranclp.rtrancl_into_rtrancl rtranclp.rtrancl_refl)
  have wf: "rb_wf (svc_buffer ?g)" by (simp add: gateway_service_new_def)
  have "events_processed ?g + of_nat (length (pushed_log ?s)) =
      events_processed (svc ?s) + of_nat (refused ?s) + of_nat (in_flight ?s)"
    using gateway_concurrent_accounting [OF reach wf] by blast
  then have "events_processed ?g + 2 = events_processed (svc ?s) + of_nat (refused ?s) + of_nat (in_flight ?s)"
    unfolding s(3) by simp
  then show ?thesis using reach s(1,2) unfolding Let_def by blast
qed

end
