(* ===== verification/Stream_Task.thy ===== *)
theory Stream_Task
  imports Gateway_Server
begin

text \<open>
  The streaming call of \<open>gateway/src/server.rs\<close> as it runs: \<open>stream_events\<close> spawns a task that takes batches from the request stream and
  hands answers to a channel of \<open>32\<close> places, which the client reads at its own pace. The record \<open>st_sys\<close> holds both ends and the
  place of the task; \<open>st_step\<close> interleaves the task with its client. The last four fields only remember what happened. What the
  client learns of a status among the answers is in \<open>Grpc_Wire\<close>.
\<close>

datatype st_pc = Taking | Answering IngestBatch "status + Ack" | Over

record st_sys =
  incoming :: "IngestBatch list"
  sending_open :: bool
  st_task :: st_pc
  replies :: "(status + Ack) list"
  listens :: bool
  st_svc :: GatewayService
  sent_log :: "IngestBatch list"
  handled :: "(IngestBatch \<times> bool) list"
  handed :: "(status + Ack) list"
  answers_read :: "(status + Ack) list"

definition st_start :: "GatewayService \<Rightarrow> st_sys" where
  "st_start g = \<lparr>incoming = [], sending_open = True, st_task = Taking, replies = [], listens = True, st_svc = g,
     sent_log = [], handled = [], handed = [], answers_read = []\<rparr>"

text \<open>The end of a round: the answer is in the channel, or the channel is closed, which ends the loop unless the answer is a status.\<close>

definition answer_sent :: "IngestBatch \<Rightarrow> status + Ack \<Rightarrow> st_sys \<Rightarrow> st_sys" where
  "answer_sent batch answer s =
     s\<lparr>st_task := Taking, replies := replies s @ [answer], handled := handled s @ [(batch, True)], handed := handed s @ [answer]\<rparr>"

definition answer_refused :: "IngestBatch \<Rightarrow> status + Ack \<Rightarrow> st_sys \<Rightarrow> st_sys" where
  "answer_refused batch answer s =
     s\<lparr>st_task := (if is_ok answer then Over else Taking), handled := handled s @ [(batch, False)]\<rparr>"

inductive st_task_step :: "st_sys \<Rightarrow> st_sys \<Rightarrow> bool" where
  takes: "st_task s = Taking \<Longrightarrow> incoming s = batch # rest \<Longrightarrow> stream_batch batch (st_svc s) = (answer, g) \<Longrightarrow>
    st_task_step s (s\<lparr>incoming := rest, st_svc := g, st_task := Answering batch answer\<rparr>)"
| ends: "st_task s = Taking \<Longrightarrow> incoming s = [] \<Longrightarrow> \<not> sending_open s \<Longrightarrow> st_task_step s (s\<lparr>st_task := Over\<rparr>)"
| answers: "st_task s = Answering batch answer \<Longrightarrow> listens s \<Longrightarrow> length (replies s) < 32 \<Longrightarrow>
    st_task_step s (answer_sent batch answer s)"
| refused: "st_task s = Answering batch answer \<Longrightarrow> \<not> listens s \<Longrightarrow> st_task_step s (answer_refused batch answer s)"

inductive st_step :: "st_sys \<Rightarrow> st_sys \<Rightarrow> bool" where
  task: "st_task_step s t \<Longrightarrow> st_step s t"
| broken: "st_task s = Taking \<Longrightarrow> st_step s (s\<lparr>st_task := Over\<rparr>)"
| sends: "sending_open s \<Longrightarrow> st_step s (s\<lparr>incoming := incoming s @ [batch], sent_log := sent_log s @ [batch]\<rparr>)"
| closes: "st_step s (s\<lparr>sending_open := False\<rparr>)"
| reads: "listens s \<Longrightarrow> replies s = answer # rest \<Longrightarrow>
    st_step s (s\<lparr>replies := rest, answers_read := answers_read s @ [answer]\<rparr>)"
| leaves: "st_step s (s\<lparr>listens := False, replies := []\<rparr>)"

inductive_cases st_task_stepE: "st_task_step s t"
inductive_cases st_stepE: "st_step s t"

section \<open>The task runs the loop\<close>

text \<open>Before its next round the task has reached a point of the loop: whatever batches come next, the loop goes on from there.\<close>

definition at_round :: "GatewayService \<Rightarrow> GatewayService \<Rightarrow> st_sys \<Rightarrow> bool" where
  "at_round g0 g s \<longleftrightarrow> (\<forall>rest. stream_events (handled s @ rest) g0 =
     (handed s @ fst (stream_events rest g), snd (stream_events rest g)))"

definition loop_inv :: "GatewayService \<Rightarrow> st_sys \<Rightarrow> bool" where
  "loop_inv g0 s \<longleftrightarrow>
     (case st_task s of
        Taking \<Rightarrow> at_round g0 (st_svc s) s
      | Answering batch answer \<Rightarrow> (\<exists>g. at_round g0 g s \<and> stream_batch batch g = (answer, st_svc s))
      | Over \<Rightarrow> stream_events (handled s) g0 = (handed s, st_svc s))"

fun taken :: "st_pc \<Rightarrow> IngestBatch list" where
  "taken (Answering batch answer) = [batch]"
| "taken _ = []"

definition channel_inv :: "st_sys \<Rightarrow> bool" where
  "channel_inv s \<longleftrightarrow> length (replies s) \<le> 32 \<and> sent_log s = map fst (handled s) @ taken (st_task s) @ incoming s \<and>
     (if listens s then handed s = answers_read s @ replies s \<and> length (handled s) = length (handed s) \<and>
         list_all snd (handled s)
      else replies s = [] \<and> prefix (answers_read s) (handed s))"

lemma at_round_stop: "at_round g0 g s \<Longrightarrow> stream_events (handled s) g0 = (handed s, g)"
  by (drule at_round_def [THEN iffD1], drule spec [of _ "[]"]) simp

lemma at_round_frame [simp]:
  "at_round g0 g (s\<lparr>incoming := bs\<rparr>) = at_round g0 g s" "at_round g0 g (s\<lparr>st_svc := g'\<rparr>) = at_round g0 g s"
  "at_round g0 g (s\<lparr>st_task := pc\<rparr>) = at_round g0 g s" "at_round g0 g (s\<lparr>replies := rs\<rparr>) = at_round g0 g s"
  "at_round g0 g (s\<lparr>sending_open := b\<rparr>) = at_round g0 g s" "at_round g0 g (s\<lparr>listens := b\<rparr>) = at_round g0 g s"
  "at_round g0 g (s\<lparr>sent_log := bs\<rparr>) = at_round g0 g s" "at_round g0 g (s\<lparr>answers_read := rs\<rparr>) = at_round g0 g s"
  by (simp_all add: at_round_def)

lemma at_round_sent:
  assumes "at_round g0 g s" and "stream_batch batch g = (answer, g')"
  shows "at_round g0 g' (answer_sent batch answer s)"
  using assms by (auto simp: at_round_def answer_sent_def split: prod.split)

lemma at_round_refused:
  assumes "at_round g0 g s" and "stream_batch batch g = (answer, g')" and "\<not> is_ok answer"
  shows "at_round g0 g' (answer_refused batch answer s)"
  using assms by (auto simp: at_round_def answer_refused_def split: prod.split)

lemma refused_stops:
  assumes "at_round g0 g s" and "stream_batch batch g = (answer, g')" and "is_ok answer"
  shows "stream_events (handled s @ [(batch, False)]) g0 = (handed s, g')"
  using assms by (simp add: at_round_def)

lemma loop_inv_task:
  assumes "st_task_step s t" and "loop_inv g0 s"
  shows "loop_inv g0 t"
  using assms(1)
proof cases
  case (takes batch rest answer g)
  with assms(2) show ?thesis by (auto simp: loop_inv_def)
next
  case ends
  with assms(2) show ?thesis by (auto simp: loop_inv_def dest: at_round_stop)
next
  case (answers batch answer)
  then obtain g where "at_round g0 g s" "stream_batch batch g = (answer, st_svc s)"
    using assms(2) by (auto simp: loop_inv_def)
  from at_round_sent [OF this] answers show ?thesis by (simp add: loop_inv_def answer_sent_def)
next
  case (refused batch answer)
  then obtain g where g: "at_round g0 g s" "stream_batch batch g = (answer, st_svc s)"
    using assms(2) by (auto simp: loop_inv_def)
  from at_round_refused [OF g] refused_stops [OF g] refused show ?thesis
    by (simp add: loop_inv_def answer_refused_def)
qed

lemma channel_inv_task: "st_task_step s t \<Longrightarrow> channel_inv s \<Longrightarrow> channel_inv t"
  by (erule st_task_stepE) (auto simp: channel_inv_def answer_sent_def answer_refused_def)

lemma loop_inv_step:
  assumes "st_step s t" and "loop_inv g0 s"
  shows "loop_inv g0 t"
  using assms(1)
proof cases
  case task
  then show ?thesis using loop_inv_task assms(2) by blast
qed (use assms(2) in \<open>auto simp: loop_inv_def dest: at_round_stop split: st_pc.splits\<close>)

lemma channel_inv_step: "st_step s t \<Longrightarrow> channel_inv s \<Longrightarrow> channel_inv t"
  by (erule st_stepE) (auto simp: channel_inv_task, auto simp: channel_inv_def split: if_splits)

lemma st_reachable: "st_step\<^sup>*\<^sup>* (st_start g) s \<Longrightarrow> loop_inv g s \<and> channel_inv s"
proof (induction rule: rtranclp_induct)
  case base
  show ?case by (simp add: loop_inv_def channel_inv_def at_round_def st_start_def)
next
  case (step s t)
  then show ?case using loop_inv_step channel_inv_step by blast
qed

section \<open>Progress\<close>

text \<open>How many steps the task can make before it needs its client.\<close>

fun st_work :: "st_pc \<Rightarrow> nat" where
  "st_work Taking = 1"
| "st_work (Answering batch answer) = 2"
| "st_work Over = 0"

definition task_work :: "st_sys \<Rightarrow> nat" where
  "task_work s = 2 * length (incoming s) + st_work (st_task s)"

lemma task_work_decreases: "st_task_step s t \<Longrightarrow> task_work t < task_work s"
  by (erule st_task_stepE) (auto simp: task_work_def answer_sent_def answer_refused_def)

lemma task_waits:
  "length (replies s) \<le> 32 \<Longrightarrow> (\<exists>t. st_task_step s t) \<or> st_task s = Over \<or>
     (st_task s = Taking \<and> incoming s = [] \<and> sending_open s) \<or>
     ((\<exists>batch answer. st_task s = Answering batch answer) \<and> listens s \<and> length (replies s) = 32)"
proof (cases "st_task s")
  case Taking
  then show ?thesis
    using st_task_step.takes [of s] st_task_step.ends [of s] by (cases "incoming s") (auto, metis surj_pair)
next
  case (Answering batch answer)
  assume "length (replies s) \<le> 32"
  with Answering show ?thesis
    using st_task_step.answers [of s] st_task_step.refused [of s] by (cases "listens s") (auto simp: le_less)
qed simp

text \<open>C13. A stream under back-pressure. However the task of a streaming call and its client interleave, whatever the client sends, however slowly
  it reads, and whether it goes away: the batches are handled in the order in which they were sent; the
  service is where the sequential loop leaves it after the batches handled so far, and the answers are those of that loop, which the
  client reads in order; while the client listens, every batch is answered and no more than 33 batches
  are stored beyond the answers it has read. The task waits only for a batch or for the client to read
  one of 32 answers; its own steps lower \<open>task_work\<close>.\<close>

theorem stream_task_refines_loop:
  assumes "st_step\<^sup>*\<^sup>* (st_start g) s"
  shows "sent_log s = map fst (handled s) @ taken (st_task s) @ incoming s \<and>
    (case st_task s of
       Answering batch answer \<Rightarrow> stream_events (handled s @ [(batch, True)]) g = (handed s @ [answer], st_svc s)
     | _ \<Rightarrow> stream_events (handled s) g = (handed s, st_svc s)) \<and>
    prefix (answers_read s) (handed s) \<and>
    (listens s \<longrightarrow> handed s = answers_read s @ replies s \<and> list_all snd (handled s) \<and>
       length (handled s @ map (\<lambda>b. (b, True)) (taken (st_task s))) \<le> length (answers_read s) + 33) \<and>
    ((\<exists>t. st_task_step s t) \<or> st_task s = Over \<or>
       (st_task s = Taking \<and> incoming s = [] \<and> sending_open s) \<or>
       ((\<exists>batch answer. st_task s = Answering batch answer) \<and> listens s \<and> length (replies s) = 32)) \<and>
    (\<forall>t. st_task_step s t \<longrightarrow> task_work t < task_work s)"
proof -
  have inv: "loop_inv g s" "channel_inv s" using st_reachable [OF assms] by blast+
  then have full: "length (replies s) \<le> 32" by (simp add: channel_inv_def)
  have "case st_task s of
       Answering batch answer \<Rightarrow> stream_events (handled s @ [(batch, True)]) g = (handed s @ [answer], st_svc s)
     | _ \<Rightarrow> stream_events (handled s) g = (handed s, st_svc s)"
    using inv(1) by (auto simp: loop_inv_def at_round_def at_round_stop split: st_pc.splits)
  moreover have "length (taken (st_task s)) \<le> 1" by (cases "st_task s") simp_all
  ultimately show ?thesis
    using inv(2) full task_waits [OF full] task_work_decreases by (auto simp: channel_inv_def split: if_splits)
qed

lemma one_batch_run:
  assumes "stream_batch batch g = (answer, g')"
  shows "st_step\<^sup>*\<^sup>* (st_start g) \<lparr>incoming = [], sending_open = False, st_task = Over, replies = [], listens = True, st_svc = g',
    sent_log = [batch], handled = [(batch, True)], handed = [answer], answers_read = [answer]\<rparr>"
proof -
  let ?sent = "(st_start g)\<lparr>incoming := [batch], sent_log := [batch]\<rparr>"
  let ?taken = "?sent\<lparr>sending_open := False, incoming := [], st_svc := g', st_task := Answering batch answer\<rparr>"
  let ?done = "answer_sent batch answer ?taken"
  let ?read = "?done\<lparr>replies := [], answers_read := [answer]\<rparr>"
  have "st_step (st_start g) ?sent"
    using st_step.sends [of "st_start g" batch] by (simp add: st_start_def)
  moreover have "st_step ?sent (?sent\<lparr>sending_open := False\<rparr>)" by (rule st_step.closes)
  moreover have "st_step (?sent\<lparr>sending_open := False\<rparr>) ?taken"
    using st_task_step.takes [of "?sent\<lparr>sending_open := False\<rparr>" batch "[]" answer g'] assms
    by (intro st_step.task) (simp add: st_start_def)
  moreover have "st_step ?taken ?done"
    by (intro st_step.task st_task_step.answers) (simp_all add: st_start_def)
  moreover have "st_step ?done ?read"
    using st_step.reads [of ?done answer "[]"] by (simp add: answer_sent_def st_start_def)
  moreover have "st_step ?read (?read\<lparr>st_task := Over\<rparr>)"
    by (intro st_step.task st_task_step.ends) (simp_all add: answer_sent_def st_start_def)
  ultimately have "st_step\<^sup>*\<^sup>* (st_start g) (?read\<lparr>st_task := Over\<rparr>)"
    by (meson rtranclp.rtrancl_into_rtrancl rtranclp.rtrancl_refl)
  then show ?thesis by (simp add: answer_sent_def st_start_def)
qed

theorem stream_task_refines_loop_witness:
  "let g = gateway_service_new 0 (ring_buffer_new 1); e = event_from_message (sample_message ''m'');
       batch = \<lparr>batch_source = ''s'', batch_cluster = ''c'', batch_body = Some (Batch_Events \<lparr>payload_events = [e]\<rparr>)\<rparr>
   in \<exists>s. st_step\<^sup>*\<^sup>* (st_start g) s \<and> st_task s = Over \<and> length (answers_read s) = 1 \<and>
     stream_events [(batch, True)] g = (answers_read s, st_svc s)"
proof -
  let ?g = "gateway_service_new 0 (ring_buffer_new 1)" and ?e = "event_from_message (sample_message ''m'')"
  let ?batch = "\<lparr>batch_source = ''s'', batch_cluster = ''c'', batch_body = Some (Batch_Events \<lparr>payload_events = [?e]\<rparr>)\<rparr>"
  obtain answer g' where step: "stream_batch ?batch ?g = (answer, g')" by fastforce
  note run = one_batch_run [OF step]
  have loop: "stream_events [(?batch, True)] ?g = ([answer], g')"
    using stream_task_refines_loop [OF run] by simp
  show ?thesis unfolding Let_def
    by (rule exI, rule conjI, rule run) (simp add: loop [unfolded One_nat_def] del: stream_events.simps)
qed

end
