(* ===== verification/Grpc_Stubs.thy ===== *)
theory Grpc_Stubs
  imports Grpc_Emitter
begin

text \<open>
  The generated client and server of \<open>gateway/src/proto/polku.v1.rs\<close>, and the service of \<open>server.rs\<close> behind them. The
  client checks that its channel is ready and sends a request to the path of the method; the server picks the handler by that
  path. What \<open>tonic\<close> does is a parameter: \<open>ClientLib\<close> is \<open>tonic::client::Grpc\<close>, \<open>ServerLib\<close> is \<open>tonic::server::Grpc\<close>. An HTTP body is
  the list of its length-prefixed messages, of a type \<open>'b\<close> of byte strings. \<open>Grpc_Wire\<close> shows what calls through both do.
\<close>

section \<open>Requests and answers\<close>

datatype HealthRequest = HealthRequest

text \<open>A \<open>tonic::Request\<close>: the message and the extension that names the method.\<close>

record 'm Request =
  into_inner :: 'm
  grpc_method :: "(string \<times> string) option"

definition request_new :: "'m \<Rightarrow> 'm Request" where
  "request_new m = \<lparr>into_inner = m, grpc_method = None\<rparr>"

text \<open>A \<open>tonic::Streaming\<close> of batches: what each read gives, and whether the receiver of the answers is still there when
  the answer to it is sent.\<close>

type_synonym streaming = "((status + IngestBatch) \<times> bool) list"

record 'b http_request =
  uri_path :: string
  req_body :: "'b list"

record 'b http_response =
  resp_headers :: "string \<rightharpoonup> string"
  resp_body :: "'b list"
  resp_trailers :: "string \<rightharpoonup> string"

section \<open>The client\<close>

record ('t, 'g, 'c, 'x) ClientLib =
  grpc_client_new :: "'t \<Rightarrow> 'g"
  grpc_client_with_origin :: "'t \<Rightarrow> string \<Rightarrow> 'g"
  grpc_send_compressed :: "'c \<Rightarrow> 'g \<Rightarrow> 'g"
  grpc_accept_compressed :: "'c \<Rightarrow> 'g \<Rightarrow> 'g"
  grpc_max_decoding :: "nat \<Rightarrow> 'g \<Rightarrow> 'g"
  grpc_max_encoding :: "nat \<Rightarrow> 'g \<Rightarrow> 'g"
  grpc_ready :: "'g \<Rightarrow> 'x \<Rightarrow> string option \<times> 'x"
  grpc_unary_event :: "'g \<Rightarrow> IngestEvent Request \<Rightarrow> string \<Rightarrow> 'x \<Rightarrow> (status + Ack) \<times> 'x"
  grpc_unary_health :: "'g \<Rightarrow> HealthRequest Request \<Rightarrow> string \<Rightarrow> 'x \<Rightarrow> (status + HealthResponse) \<times> 'x"
  grpc_streaming :: "'g \<Rightarrow> IngestBatch list Request \<Rightarrow> string \<Rightarrow> 'x \<Rightarrow> (status + (status + Ack) list) \<times> 'x"

record 'g GatewayClient =
  client_inner :: 'g

definition client_new :: "('t, 'g, 'c, 'x) ClientLib \<Rightarrow> 't \<Rightarrow> 'g GatewayClient" where
  "client_new L inner = \<lparr>client_inner = grpc_client_new L inner\<rparr>"

definition client_with_origin :: "('t, 'g, 'c, 'x) ClientLib \<Rightarrow> 't \<Rightarrow> string \<Rightarrow> 'g GatewayClient" where
  "client_with_origin L inner origin = \<lparr>client_inner = grpc_client_with_origin L inner origin\<rparr>"

text \<open>\<open>Endpoint::new\<close> and \<open>Endpoint::connect\<close> are the parameters; either may fail.\<close>

definition client_connect ::
    "('t, 'g, 'c, 'x) ClientLib \<Rightarrow> ('d \<Rightarrow> string + 'p) \<Rightarrow> ('p \<Rightarrow> 'x \<Rightarrow> (string + 't) \<times> 'x) \<Rightarrow> 'd \<Rightarrow> 'x \<Rightarrow>
     (string + 'g GatewayClient) \<times> 'x" where
  "client_connect L endpoint_new endpoint_connect dst x =
     (case endpoint_new dst of
        Inl e \<Rightarrow> (Inl e, x)
      | Inr ep \<Rightarrow>
          (case endpoint_connect ep x of
             (Inl e, x) \<Rightarrow> (Inl e, x)
           | (Inr conn, x) \<Rightarrow> (Inr (client_new L conn), x)))"

definition client_with_interceptor ::
    "('s, 'g, 'c, 'x) ClientLib \<Rightarrow> ('t \<Rightarrow> 'f \<Rightarrow> 's) \<Rightarrow> 't \<Rightarrow> 'f \<Rightarrow> 'g GatewayClient" where
  "client_with_interceptor L intercepted_new inner interceptor = client_new L (intercepted_new inner interceptor)"

definition client_send_compressed :: "('t, 'g, 'c, 'x) ClientLib \<Rightarrow> 'c \<Rightarrow> 'g GatewayClient \<Rightarrow> 'g GatewayClient" where
  "client_send_compressed L encoding self = self\<lparr>client_inner := grpc_send_compressed L encoding (client_inner self)\<rparr>"

definition client_accept_compressed :: "('t, 'g, 'c, 'x) ClientLib \<Rightarrow> 'c \<Rightarrow> 'g GatewayClient \<Rightarrow> 'g GatewayClient" where
  "client_accept_compressed L encoding self = self\<lparr>client_inner := grpc_accept_compressed L encoding (client_inner self)\<rparr>"

definition client_max_decoding :: "('t, 'g, 'c, 'x) ClientLib \<Rightarrow> nat \<Rightarrow> 'g GatewayClient \<Rightarrow> 'g GatewayClient" where
  "client_max_decoding L limit self = self\<lparr>client_inner := grpc_max_decoding L limit (client_inner self)\<rparr>"

definition client_max_encoding :: "('t, 'g, 'c, 'x) ClientLib \<Rightarrow> nat \<Rightarrow> 'g GatewayClient \<Rightarrow> 'g GatewayClient" where
  "client_max_encoding L limit self = self\<lparr>client_inner := grpc_max_encoding L limit (client_inner self)\<rparr>"

definition not_ready :: "string \<Rightarrow> status" where
  "not_ready e = mk_status Unknown (''Service was not ready: '' @ e)"

definition client_stream_events ::
    "('t, 'g, 'c, 'x) ClientLib \<Rightarrow> 'g GatewayClient \<Rightarrow> IngestBatch list Request \<Rightarrow> 'x \<Rightarrow>
     (status + (status + Ack) list) \<times> 'x" where
  "client_stream_events L self request x =
     (case grpc_ready L (client_inner self) x of
        (Some e, x) \<Rightarrow> (Inl (not_ready e), x)
      | (None, x) \<Rightarrow>
          grpc_streaming L (client_inner self) (request\<lparr>grpc_method := Some (''polku.v1.Gateway'', ''StreamEvents'')\<rparr>)
            ''/polku.v1.Gateway/StreamEvents'' x)"

definition client_send_event ::
    "('t, 'g, 'c, 'x) ClientLib \<Rightarrow> 'g GatewayClient \<Rightarrow> IngestEvent Request \<Rightarrow> 'x \<Rightarrow> (status + Ack) \<times> 'x" where
  "client_send_event L self request x =
     (case grpc_ready L (client_inner self) x of
        (Some e, x) \<Rightarrow> (Inl (not_ready e), x)
      | (None, x) \<Rightarrow>
          grpc_unary_event L (client_inner self) (request\<lparr>grpc_method := Some (''polku.v1.Gateway'', ''SendEvent'')\<rparr>)
            ''/polku.v1.Gateway/SendEvent'' x)"

definition client_health ::
    "('t, 'g, 'c, 'x) ClientLib \<Rightarrow> 'g GatewayClient \<Rightarrow> HealthRequest Request \<Rightarrow> 'x \<Rightarrow> (status + HealthResponse) \<times> 'x" where
  "client_health L self request x =
     (case grpc_ready L (client_inner self) x of
        (Some e, x) \<Rightarrow> (Inl (not_ready e), x)
      | (None, x) \<Rightarrow>
          grpc_unary_health L (client_inner self) (request\<lparr>grpc_method := Some (''polku.v1.Gateway'', ''Health'')\<rparr>)
            ''/polku.v1.Gateway/Health'' x)"

section \<open>The server\<close>

text \<open>The trait: an implementation is reached through a handle \<open>'a\<close>, its \<open>Arc\<close>.\<close>

record ('a, 'x) GatewayTrait =
  gateway_stream_events :: "'a \<Rightarrow> streaming Request \<Rightarrow> 'x \<Rightarrow> (status + (status + Ack) list) \<times> 'x"
  gateway_send_event :: "'a \<Rightarrow> IngestEvent Request \<Rightarrow> 'x \<Rightarrow> (status + Ack) \<times> 'x"
  gateway_health :: "'a \<Rightarrow> HealthRequest Request \<Rightarrow> 'x \<Rightarrow> (status + HealthResponse) \<times> 'x"

record ('s, 'c, 'e, 'b, 'x) ServerLib =
  encodings_default :: 'e
  encodings_enable :: "'c \<Rightarrow> 'e \<Rightarrow> 'e"
  grpc_server_new :: 's
  apply_compression_config :: "'e \<Rightarrow> 'e \<Rightarrow> 's \<Rightarrow> 's"
  apply_max_message_size_config :: "nat option \<Rightarrow> nat option \<Rightarrow> 's \<Rightarrow> 's"
  serve_streaming :: "'s \<Rightarrow> (streaming Request \<Rightarrow> 'x \<Rightarrow> (status + (status + Ack) list) \<times> 'x) \<Rightarrow> 'b http_request \<Rightarrow> 'x \<Rightarrow> 'b http_response \<times> 'x"
  serve_unary_event :: "'s \<Rightarrow> (IngestEvent Request \<Rightarrow> 'x \<Rightarrow> (status + Ack) \<times> 'x) \<Rightarrow> 'b http_request \<Rightarrow> 'x \<Rightarrow> 'b http_response \<times> 'x"
  serve_unary_health :: "'s \<Rightarrow> (HealthRequest Request \<Rightarrow> 'x \<Rightarrow> (status + HealthResponse) \<times> 'x) \<Rightarrow> 'b http_request \<Rightarrow> 'x \<Rightarrow> 'b http_response \<times> 'x"

record ('a, 'e) GatewayServer =
  gs_inner :: 'a
  accept_compression_encodings :: 'e
  send_compression_encodings :: 'e
  max_decoding_message_size :: "nat option"
  max_encoding_message_size :: "nat option"

definition gateway_server_from_arc :: "('s, 'c, 'e, 'b, 'x) ServerLib \<Rightarrow> 'a \<Rightarrow> ('a, 'e) GatewayServer" where
  "gateway_server_from_arc L inner =
     \<lparr>gs_inner = inner, accept_compression_encodings = encodings_default L,
      send_compression_encodings = encodings_default L,
      max_decoding_message_size = None, max_encoding_message_size = None\<rparr>"

text \<open>\<open>arc\<close> is the handle that \<open>Arc::new\<close> makes for the service.\<close>

definition gateway_server_new :: "('s, 'c, 'e, 'b, 'x) ServerLib \<Rightarrow> 'a \<Rightarrow> ('a, 'e) GatewayServer" where
  "gateway_server_new L arc = gateway_server_from_arc L arc"

definition gateway_server_with_interceptor ::
    "('s, 'c, 'e, 'b, 'x) ServerLib \<Rightarrow> (('a, 'e) GatewayServer \<Rightarrow> 'f \<Rightarrow> 'i) \<Rightarrow> 'a \<Rightarrow> 'f \<Rightarrow> 'i" where
  "gateway_server_with_interceptor L intercepted_new inner interceptor =
     intercepted_new (gateway_server_new L inner) interceptor"

definition server_accept_compressed ::
    "('s, 'c, 'e, 'b, 'x) ServerLib \<Rightarrow> 'c \<Rightarrow> ('a, 'e) GatewayServer \<Rightarrow> ('a, 'e) GatewayServer" where
  "server_accept_compressed L encoding self =
     self\<lparr>accept_compression_encodings := encodings_enable L encoding (accept_compression_encodings self)\<rparr>"

definition server_send_compressed ::
    "('s, 'c, 'e, 'b, 'x) ServerLib \<Rightarrow> 'c \<Rightarrow> ('a, 'e) GatewayServer \<Rightarrow> ('a, 'e) GatewayServer" where
  "server_send_compressed L encoding self =
     self\<lparr>send_compression_encodings := encodings_enable L encoding (send_compression_encodings self)\<rparr>"

definition server_max_decoding :: "nat \<Rightarrow> ('a, 'e) GatewayServer \<Rightarrow> ('a, 'e) GatewayServer" where
  "server_max_decoding limit self = self\<lparr>max_decoding_message_size := Some limit\<rparr>"

definition server_max_encoding :: "nat \<Rightarrow> ('a, 'e) GatewayServer \<Rightarrow> ('a, 'e) GatewayServer" where
  "server_max_encoding limit self = self\<lparr>max_encoding_message_size := Some limit\<rparr>"

definition gateway_server_clone :: "('a, 'e) GatewayServer \<Rightarrow> ('a, 'e) GatewayServer" where
  "gateway_server_clone self =
     \<lparr>gs_inner = gs_inner self, accept_compression_encodings = accept_compression_encodings self,
      send_compression_encodings = send_compression_encodings self,
      max_decoding_message_size = max_decoding_message_size self,
      max_encoding_message_size = max_encoding_message_size self\<rparr>"

definition SERVICE_NAME :: string where
  "SERVICE_NAME = ''polku.v1.Gateway''"

text \<open>The \<open>tonic::server::Grpc\<close> that each branch of \<open>call\<close> configures.\<close>

definition server_grpc :: "('s, 'c, 'e, 'b, 'x) ServerLib \<Rightarrow> ('a, 'e) GatewayServer \<Rightarrow> 's" where
  "server_grpc L self =
     apply_max_message_size_config L (max_decoding_message_size self) (max_encoding_message_size self)
       (apply_compression_config L (accept_compression_encodings self) (send_compression_encodings self) (grpc_server_new L))"

definition unimplemented_response :: "'b http_response" where
  "unimplemented_response =
     \<lparr>resp_headers = [''grpc-status'' \<mapsto> ''12'', ''content-type'' \<mapsto> ''application/grpc''], resp_body = [], resp_trailers = Map.empty\<rparr>"

definition gateway_call ::
    "('s, 'c, 'e, 'b, 'x) ServerLib \<Rightarrow> ('a, 'x) GatewayTrait \<Rightarrow> ('a, 'e) GatewayServer \<Rightarrow> 'b http_request \<Rightarrow> 'x \<Rightarrow>
     'b http_response \<times> 'x" where
  "gateway_call L T self req x =
     (if uri_path req = ''/polku.v1.Gateway/StreamEvents'' then
        serve_streaming L (server_grpc L self) (gateway_stream_events T (gs_inner self)) req x
      else if uri_path req = ''/polku.v1.Gateway/SendEvent'' then
        serve_unary_event L (server_grpc L self) (gateway_send_event T (gs_inner self)) req x
      else if uri_path req = ''/polku.v1.Gateway/Health'' then
        serve_unary_health L (server_grpc L self) (gateway_health T (gs_inner self)) req x
      else (unimplemented_response, x))"

section \<open>The service behind the server\<close>

text \<open>The services in shared memory by the address of their \<open>Arc\<close>, and the rest of the world.\<close>

record 'x Served =
  cells :: "nat \<Rightarrow> GatewayService"
  world :: "'x World"

abbreviation set_cell :: "nat \<Rightarrow> GatewayService \<Rightarrow> 'x Served \<Rightarrow> 'x Served" where
  "set_cell a g s \<equiv> s\<lparr>cells := (cells s)(a := g)\<rparr>"

text \<open>\<open>while let Ok(Some(batch))\<close>: the loop ends with the stream or at the first read that fails.\<close>

definition readable_batches :: "streaming \<Rightarrow> (IngestBatch \<times> bool) list" where
  "readable_batches items = map (\<lambda>(r, listening). (projr r, listening)) (takeWhile (\<lambda>(r, _). is_ok r) items)"

definition gateway_service_impl :: "'x Env \<Rightarrow> (nat, 'x Served) GatewayTrait" where
  "gateway_service_impl E =
     \<lparr>gateway_stream_events = (\<lambda>a request s.
        case stream_events (readable_batches (into_inner request)) (cells s a) of (answers, g) \<Rightarrow> (Inr answers, set_cell a g s)),
      gateway_send_event = (\<lambda>a request s.
        case send_event (into_inner request) (cells s a) of (r, g) \<Rightarrow> (r, set_cell a g s)),
      gateway_health = (\<lambda>a request s.
        case server_health E (cells s a) (world s) of (h, w) \<Rightarrow> (Inr h, s\<lparr>world := w\<rparr>))\<rparr>"

definition into_server ::
    "('s, 'c, 'e, 'b, 'x Served) ServerLib \<Rightarrow> nat \<Rightarrow> GatewayService \<Rightarrow> 'x Served \<Rightarrow> (nat, 'e) GatewayServer \<times> 'x Served" where
  "into_server L arc self s = (gateway_server_new L arc, set_cell arc self s)"

end
