(* ===== verification/Wire_Codec.thy ===== *)
theory Wire_Codec
  imports Grpc_Stubs Utf8 "HOL-Library.Char_ord" "HOL-Library.List_Lexorder"
begin

text \<open>
  The messages of \<open>gateway/src/proto/polku.v1.rs\<close> as their Rust types allow them, and a codec for them on byte strings. A field of
  type \<open>String\<close> holds UTF-8 and a map is finite; the model's own types are larger, and what is said of encodings is said of
  the messages within. The codec stands in for \<open>prost\<close> in the examples of \<open>Grpc_Wire\<close>: it writes lengths and numbers as base-128
  varints, strings with their length in front, maps by their sorted entries. Every decoder takes its message off the front of the bytes
  and gives the rest; a decoder of strings refuses bytes that are not UTF-8.
\<close>

section \<open>What the Rust types allow\<close>

definition typed_map :: "('v \<Rightarrow> bool) \<Rightarrow> (string \<rightharpoonup> 'v) \<Rightarrow> bool" where
  "typed_map ok m \<longleftrightarrow> finite (dom m) \<and> (\<forall>k v. m k = Some v \<longrightarrow> utf8_valid k \<and> ok v)"

definition typed_event :: "Event \<Rightarrow> bool" where
  "typed_event e \<longleftrightarrow> utf8_valid (ev_id e) \<and> utf8_valid (ev_source e) \<and> utf8_valid (event_type e) \<and>
     typed_map utf8_valid (ev_metadata e) \<and> list_all utf8_valid (ev_route_to e)"

definition typed_ingest :: "IngestEvent \<Rightarrow> bool" where
  "typed_ingest m \<longleftrightarrow> utf8_valid (ie_source m) \<and> utf8_valid (ie_cluster m) \<and> utf8_valid (ie_format m) \<and>
     (case ie_payload m of Some (Event_Event e) \<Rightarrow> typed_event e | _ \<Rightarrow> True)"

definition typed_batch :: "IngestBatch \<Rightarrow> bool" where
  "typed_batch b \<longleftrightarrow> utf8_valid (batch_source b) \<and> utf8_valid (batch_cluster b) \<and>
     (case batch_body b of
        None \<Rightarrow> True
      | Some (Batch_Raw p) \<Rightarrow> utf8_valid (raw_format p)
      | Some (Batch_Events p) \<Rightarrow> list_all typed_event (payload_events p))"

definition typed_ack_error :: "AckError \<Rightarrow> bool" where
  "typed_ack_error e \<longleftrightarrow>
     utf8_valid (ack_error_event_id e) \<and> utf8_valid (ack_error_code e) \<and> utf8_valid (ack_error_message e)"

definition typed_ack :: "Ack \<Rightarrow> bool" where
  "typed_ack a \<longleftrightarrow> list_all utf8_valid (event_ids a) \<and> list_all typed_ack_error (errors a)"

definition typed_health :: "HealthResponse \<Rightarrow> bool" where
  "typed_health h \<longleftrightarrow> typed_map (\<lambda>c. utf8_valid (component_message c)) (components h)"

text \<open>The answer of a handler: a \<open>Status\<close> is an error here, so its code is not \<open>Ok\<close>.\<close>

definition typed_status :: "status \<Rightarrow> bool" where
  "typed_status st \<longleftrightarrow> utf8_valid (status_message st) \<and> code st \<noteq> Ok_code"

definition typed_reply :: "('r \<Rightarrow> bool) \<Rightarrow> status + 'r \<Rightarrow> bool" where
  "typed_reply ok r = (case r of Inl st \<Rightarrow> typed_status st | Inr a \<Rightarrow> ok a)"

lemma typed_reply_simps [simp]:
  "typed_reply ok (Inl st) = typed_status st" "typed_reply ok (Inr a) = ok a"
  by (simp_all add: typed_reply_def)

lemma typed_mk_status [simp]: "typed_status (mk_status c m) \<longleftrightarrow> utf8_valid m \<and> c \<noteq> Ok_code"
  by (simp add: typed_status_def mk_status_def)

lemma typed_make_ack [simp]: "typed_ack (make_ack ids b) \<longleftrightarrow> list_all utf8_valid ids"
  by (simp add: typed_ack_def make_ack_def)

section \<open>Parts of a codec\<close>

type_synonym 'a decoder = "bytes \<Rightarrow> ('a \<times> bytes) option"

definition codec :: "('a \<Rightarrow> bool) \<Rightarrow> ('a \<Rightarrow> bytes) \<Rightarrow> 'a decoder \<Rightarrow> bool" where
  "codec ok enc dec \<longleftrightarrow> (\<forall>m rest. ok m \<longrightarrow> dec (enc m @ rest) = Some (m, rest))"

named_theorems codecs "codecs of the parts"

lemma codecD: "codec ok enc dec \<Longrightarrow> ok m \<Longrightarrow> dec (enc m @ rest) = Some (m, rest)"
  by (simp add: codec_def)

lemma codecI: "(\<And>m rest. ok m \<Longrightarrow> dec (enc m @ rest) = Some (m, rest)) \<Longrightarrow> codec ok enc dec"
  by (simp add: codec_def)

fun enc_nat :: "nat \<Rightarrow> bytes" where
  "enc_nat n = (if n < 128 then [char_of n] else char_of (128 + n mod 128) # enc_nat (n div 128))"

fun dec_nat :: "nat decoder" where
  "dec_nat [] = None"
| "dec_nat (b # bs) =
     (let d = (of_char b :: nat) in
      if d < 128 then Some (d, bs)
      else (case dec_nat bs of None \<Rightarrow> None | Some (n, bs) \<Rightarrow> Some (d - 128 + 128 * n, bs)))"

declare enc_nat.simps [simp del]

lemma codec_nat [codecs]: "codec (\<lambda>_. True) enc_nat dec_nat"
proof (rule codecI)
  fix n rest show "dec_nat (enc_nat n @ rest) = Some (n, rest)"
  proof (induction n rule: enc_nat.induct)
    case (1 n)
    show ?case
    proof (cases "n < 128")
      case True
      then show ?thesis by (simp add: enc_nat.simps [of n])
    next
      case False
      have "(of_char (char_of (128 + n mod 128) :: char) :: nat) = 128 + n mod 128"
        by (simp add: take_bit_nat_eq_self)
      then show ?thesis using False 1 by (simp add: enc_nat.simps [of n] Let_def)
    qed
  qed
qed

lemma length_enc_nat: "n < 128 ^ k \<Longrightarrow> 0 < k \<Longrightarrow> length (enc_nat n) \<le> k"
proof (induction k arbitrary: n)
  case (Suc k)
  then show ?case
    by (cases "n < 128"; cases k) (auto simp: enc_nat.simps [of n] less_mult_imp_div_less mult.commute)
qed simp

definition enc_string :: "string \<Rightarrow> bytes" where
  "enc_string s = enc_nat (length s) @ s"

definition dec_bytes :: "bytes decoder" where
  "dec_bytes bs =
     (case dec_nat bs of
        None \<Rightarrow> None
      | Some (n, bs) \<Rightarrow> if length bs < n then None else Some (take n bs, drop n bs))"

definition dec_string :: "string decoder" where
  "dec_string bs =
     (case dec_bytes bs of
        None \<Rightarrow> None
      | Some (s, bs) \<Rightarrow> if utf8_valid s then Some (s, bs) else None)"

lemma codec_bytes [codecs]: "codec (\<lambda>_. True) enc_string dec_bytes"
  by (rule codecI) (simp add: enc_string_def dec_bytes_def codecD [OF codec_nat])

lemma codec_string [codecs]: "codec utf8_valid enc_string dec_string"
  by (rule codecI) (simp add: dec_string_def codecD [OF codec_bytes])

definition enc_pair :: "('a \<Rightarrow> bytes) \<Rightarrow> ('b \<Rightarrow> bytes) \<Rightarrow> 'a \<times> 'b \<Rightarrow> bytes" where
  "enc_pair ea eb p = ea (fst p) @ eb (snd p)"

definition dec_pair :: "'a decoder \<Rightarrow> 'b decoder \<Rightarrow> ('a \<times> 'b) decoder" where
  "dec_pair da db bs =
     (case da bs of
        None \<Rightarrow> None
      | Some (a, bs) \<Rightarrow> (case db bs of None \<Rightarrow> None | Some (b, bs) \<Rightarrow> Some ((a, b), bs)))"

lemma codec_pair [codecs]:
  "codec oka ea da \<Longrightarrow> codec okb eb db \<Longrightarrow> codec (\<lambda>(a, b). oka a \<and> okb b) (enc_pair ea eb) (dec_pair da db)"
  by (rule codecI) (auto simp: enc_pair_def dec_pair_def codecD)

text \<open>Another shape of the same message.\<close>

definition dec_as :: "('a \<Rightarrow> 'b) \<Rightarrow> 'a decoder \<Rightarrow> 'b decoder" where
  "dec_as g dec bs = map_option (map_prod g id) (dec bs)"

lemma codec_as:
  assumes "codec ok enc dec" and "\<And>m. ok' m \<Longrightarrow> ok (f m) \<and> g (f m) = m"
  shows "codec ok' (enc \<circ> f) (dec_as g dec)"
  by (rule codecI) (use assms in \<open>auto simp: dec_as_def codecD\<close>)

definition enc_sum :: "('a \<Rightarrow> bytes) \<Rightarrow> ('b \<Rightarrow> bytes) \<Rightarrow> 'a + 'b \<Rightarrow> bytes" where
  "enc_sum ea eb s = (case s of Inl a \<Rightarrow> CHR 0x00 # ea a | Inr b \<Rightarrow> CHR 0x01 # eb b)"

definition dec_sum :: "'a decoder \<Rightarrow> 'b decoder \<Rightarrow> ('a + 'b) decoder" where
  "dec_sum da db bs =
     (case bs of
        [] \<Rightarrow> None
      | tag # bs \<Rightarrow> if tag = CHR 0x00 then dec_as Inl da bs else dec_as Inr db bs)"

lemma codec_sum [codecs]:
  "codec oka ea da \<Longrightarrow> codec okb eb db \<Longrightarrow> codec (case_sum oka okb) (enc_sum ea eb) (dec_sum da db)"
  by (rule codecI) (auto simp: enc_sum_def dec_sum_def dec_as_def codecD split: sum.splits)

fun dec_many :: "'a decoder \<Rightarrow> nat \<Rightarrow> 'a list decoder" where
  "dec_many d 0 bs = Some ([], bs)"
| "dec_many d (Suc n) bs = dec_as (\<lambda>(x, xs). x # xs) (dec_pair d (dec_many d n)) bs"

definition enc_list :: "('a \<Rightarrow> bytes) \<Rightarrow> 'a list \<Rightarrow> bytes" where
  "enc_list e xs = enc_nat (length xs) @ concat (map e xs)"

definition dec_list :: "'a decoder \<Rightarrow> 'a list decoder" where
  "dec_list d bs = (case dec_nat bs of None \<Rightarrow> None | Some (n, bs) \<Rightarrow> dec_many d n bs)"

lemma codec_list [codecs]:
  assumes "codec ok e d"
  shows "codec (list_all ok) (enc_list e) (dec_list d)"
proof (rule codecI)
  fix xs rest assume "list_all ok xs"
  then have "dec_many d (length xs) (concat (map e xs) @ rest) = Some (xs, rest)"
    by (induction xs) (simp_all add: dec_as_def dec_pair_def codecD [OF assms])
  then show "dec_list d (enc_list e xs @ rest) = Some (xs, rest)"
    by (simp add: enc_list_def dec_list_def codecD [OF codec_nat])
qed

definition enc_option :: "('a \<Rightarrow> bytes) \<Rightarrow> 'a option \<Rightarrow> bytes" where
  "enc_option e = enc_sum (\<lambda>_. []) e \<circ> (\<lambda>x. case x of None \<Rightarrow> Inl () | Some a \<Rightarrow> Inr a)"

definition dec_option :: "'a decoder \<Rightarrow> 'a option decoder" where
  "dec_option d = dec_as (\<lambda>s. case s of Inl _ \<Rightarrow> None | Inr a \<Rightarrow> Some a) (dec_sum (\<lambda>bs. Some ((), bs)) d)"

lemma codec_option [codecs]:
  assumes "codec ok e d"
  shows "codec (case_option True ok) (enc_option e) (dec_option d)"
  unfolding enc_option_def dec_option_def
proof (rule codec_as)
  show "codec (case_sum (\<lambda>_. True) ok) (enc_sum (\<lambda>_. []) e) (dec_sum (\<lambda>bs. Some ((), bs)) d)"
    by (intro codec_sum assms) (simp add: codec_def)
qed (simp split: option.splits)

text \<open>A map is written by its entries, in the order of the keys.\<close>

definition map_entries :: "(string \<rightharpoonup> 'v) \<Rightarrow> (string \<times> 'v) list" where
  "map_entries m = map (\<lambda>k. (k, the (m k))) (sorted_list_of_set (dom m))"

lemma map_of_entries: "finite (dom m) \<Longrightarrow> map_of (map_entries m) = m"
  by (rule ext) (auto simp: map_entries_def map_of_map_restrict restrict_map_def dom_def)

lemma codec_map [codecs]:
  assumes "codec ok e d"
  shows "codec (typed_map ok) (enc_list (enc_pair enc_string e) \<circ> map_entries)
    (dec_as map_of (dec_list (dec_pair dec_string d)))"
proof (rule codec_as)
  show "codec (list_all (\<lambda>(k, v). utf8_valid k \<and> ok v)) (enc_list (enc_pair enc_string e)) (dec_list (dec_pair dec_string d))"
    by (intro codecs assms)
  fix m :: "string \<rightharpoonup> 'a"
  assume "typed_map ok m"
  then show "list_all (\<lambda>(k, v). utf8_valid k \<and> ok v) (map_entries m) \<and> map_of (map_entries m) = m"
    by (auto simp: typed_map_def map_of_entries) (auto simp: map_entries_def list_all_iff)
qed

definition enc_word :: "'w::len word \<Rightarrow> bytes" where
  "enc_word = enc_nat \<circ> unat"

definition dec_word :: "'w::len word decoder" where
  "dec_word = dec_as of_nat dec_nat"

lemma codec_word [codecs]: "codec (\<lambda>_. True) enc_word dec_word"
  unfolding enc_word_def dec_word_def by (rule codec_as [OF codec_nat]) simp

lemma length_enc_word: "length (enc_word (w :: 64 word)) \<le> 10"
proof -
  have "unat w < 2 ^ LENGTH(64)" by (rule unsigned_less)
  also have "\<dots> < 128 ^ 10" by simp
  finally have "unat w < 128 ^ 10" .
  from length_enc_nat [OF this] show ?thesis by (simp add: enc_word_def)
qed

definition enc_bool :: "bool \<Rightarrow> bytes" where
  "enc_bool = enc_nat \<circ> of_bool"

definition dec_bool :: "bool decoder" where
  "dec_bool = dec_as (\<lambda>n. n \<noteq> 0) dec_nat"

lemma codec_bool [codecs]: "codec (\<lambda>_. True) enc_bool dec_bool"
  unfolding enc_bool_def dec_bool_def by (rule codec_as [OF codec_nat]) simp

section \<open>The messages\<close>

text \<open>A message is the nested pair of its fields, in the order of the source.\<close>

definition event_parts where
  "event_parts e = (ev_id e, timestamp_unix_ns e, ev_source e, event_type e, ev_metadata e, ev_payload e, ev_route_to e)"

definition parts_event where
  "parts_event = (\<lambda>(i, t, s, ty, m, p, r). \<lparr>ev_id = i, timestamp_unix_ns = t, ev_source = s, event_type = ty, ev_metadata = m,
     ev_payload = p, ev_route_to = r\<rparr>)"

definition put_event :: "Event \<Rightarrow> bytes" where
  "put_event = enc_pair enc_string (enc_pair enc_word (enc_pair enc_string (enc_pair enc_string
     (enc_pair (enc_list (enc_pair enc_string enc_string) \<circ> map_entries) (enc_pair enc_string (enc_list enc_string)))))) \<circ> event_parts"

definition get_event :: "Event decoder" where
  "get_event = dec_as parts_event (dec_pair dec_string (dec_pair dec_word (dec_pair dec_string (dec_pair dec_string
     (dec_pair (dec_as map_of (dec_list (dec_pair dec_string dec_string))) (dec_pair dec_bytes (dec_list dec_string)))))))"

lemma codec_event [codecs]: "codec typed_event put_event get_event"
  unfolding put_event_def get_event_def
  by (rule codec_as) (rule codecs | simp add: event_parts_def parts_event_def typed_event_def)+

definition ingest_parts where
  "ingest_parts m = (ie_source m, ie_cluster m, ie_format m,
     map_option (\<lambda>p. case p of Event_Raw d \<Rightarrow> Inl d | Event_Event e \<Rightarrow> Inr e) (ie_payload m))"

definition parts_ingest where
  "parts_ingest = (\<lambda>(s, c, f, p). \<lparr>ie_source = s, ie_cluster = c, ie_format = f,
     ie_payload = map_option (case_sum Event_Raw Event_Event) p\<rparr>)"

definition put_ingest :: "IngestEvent \<Rightarrow> bytes" where
  "put_ingest = enc_pair enc_string (enc_pair enc_string (enc_pair enc_string (enc_option (enc_sum enc_string put_event)))) \<circ> ingest_parts"

definition get_ingest :: "IngestEvent decoder" where
  "get_ingest = dec_as parts_ingest
     (dec_pair dec_string (dec_pair dec_string (dec_pair dec_string (dec_option (dec_sum dec_bytes get_event)))))"

lemma codec_ingest [codecs]: "codec typed_ingest put_ingest get_ingest"
  unfolding put_ingest_def get_ingest_def
  by (rule codec_as) (rule codecs | auto simp: ingest_parts_def parts_ingest_def typed_ingest_def
      split: option.splits event_payload.splits)+

definition batch_parts where
  "batch_parts m = (batch_source m, batch_cluster m,
     map_option (\<lambda>p. case p of Batch_Raw d \<Rightarrow> Inl (raw_data d, raw_format d) | Batch_Events e \<Rightarrow> Inr (payload_events e)) (batch_body m))"

definition parts_batch where
  "parts_batch = (\<lambda>(s, c, p). \<lparr>batch_source = s, batch_cluster = c,
     batch_body = map_option (case_sum (\<lambda>(d, f). Batch_Raw \<lparr>raw_data = d, raw_format = f\<rparr>)
       (\<lambda>es. Batch_Events \<lparr>payload_events = es\<rparr>)) p\<rparr>)"

definition put_batch :: "IngestBatch \<Rightarrow> bytes" where
  "put_batch = enc_pair enc_string (enc_pair enc_string
     (enc_option (enc_sum (enc_pair enc_string enc_string) (enc_list put_event)))) \<circ> batch_parts"

definition get_batch :: "IngestBatch decoder" where
  "get_batch = dec_as parts_batch (dec_pair dec_string (dec_pair dec_string
     (dec_option (dec_sum (dec_pair dec_bytes dec_string) (dec_list get_event)))))"

lemma codec_batch [codecs]: "codec typed_batch put_batch get_batch"
  unfolding put_batch_def get_batch_def
  by (rule codec_as) (rule codecs | auto simp: batch_parts_def parts_batch_def typed_batch_def
      split: option.splits batch_payload.splits)+

definition put_ack_error :: "AckError \<Rightarrow> bytes" where
  "put_ack_error = enc_pair enc_string (enc_pair enc_string enc_string) \<circ>
     (\<lambda>e. (ack_error_event_id e, ack_error_code e, ack_error_message e))"

definition get_ack_error :: "AckError decoder" where
  "get_ack_error = dec_as (\<lambda>(i, c, m). \<lparr>ack_error_event_id = i, ack_error_code = c, ack_error_message = m\<rparr>)
     (dec_pair dec_string (dec_pair dec_string dec_string))"

lemma codec_ack_error [codecs]: "codec typed_ack_error put_ack_error get_ack_error"
  unfolding put_ack_error_def get_ack_error_def
  by (rule codec_as) (rule codecs | simp add: typed_ack_error_def)+

definition put_ack :: "Ack \<Rightarrow> bytes" where
  "put_ack = enc_pair (enc_list enc_string) (enc_pair (enc_list put_ack_error) (enc_pair enc_word enc_word)) \<circ>
     (\<lambda>a. (event_ids a, errors a, ack_buffer_size a, ack_buffer_capacity a))"

definition get_ack :: "Ack decoder" where
  "get_ack = dec_as (\<lambda>(i, e, s, c). \<lparr>event_ids = i, errors = e, ack_buffer_size = s, ack_buffer_capacity = c\<rparr>)
     (dec_pair (dec_list dec_string) (dec_pair (dec_list get_ack_error) (dec_pair dec_word dec_word)))"

lemma codec_ack [codecs]: "codec typed_ack put_ack get_ack"
  unfolding put_ack_def get_ack_def
  by (rule codec_as) (rule codecs | simp add: typed_ack_def)+

definition put_component :: "ComponentHealth \<Rightarrow> bytes" where
  "put_component = enc_pair enc_bool enc_string \<circ> (\<lambda>c. (component_healthy c, component_message c))"

definition get_component :: "ComponentHealth decoder" where
  "get_component = dec_as (\<lambda>(h, m). \<lparr>component_healthy = h, component_message = m\<rparr>) (dec_pair dec_bool dec_string)"

lemma codec_component [codecs]: "codec (\<lambda>c. utf8_valid (component_message c)) put_component get_component"
  unfolding put_component_def get_component_def
  by (rule codec_as) (rule codecs | simp)+

definition put_health :: "HealthResponse \<Rightarrow> bytes" where
  "put_health = enc_pair enc_bool (enc_pair (enc_list (enc_pair enc_string put_component) \<circ> map_entries) (enc_pair enc_word enc_word)) \<circ>
     (\<lambda>h. (resp_healthy h, components h, uptime_seconds h, resp_events_processed h))"

definition get_health :: "HealthResponse decoder" where
  "get_health = dec_as (\<lambda>(h, c, u, p). \<lparr>resp_healthy = h, components = c, uptime_seconds = u, resp_events_processed = p\<rparr>)
     (dec_pair dec_bool (dec_pair (dec_as map_of (dec_list (dec_pair dec_string get_component))) (dec_pair dec_word dec_word)))"

lemma codec_health [codecs]: "codec typed_health put_health get_health"
  unfolding put_health_def get_health_def
  by (rule codec_as) (rule codecs | simp add: typed_health_def)+

text \<open>A whole frame: nothing may be left.\<close>

definition whole :: "'a decoder \<Rightarrow> bytes \<Rightarrow> 'a option" where
  "whole d bs = (case d bs of Some (m, []) \<Rightarrow> Some m | _ \<Rightarrow> None)"

lemma whole_codec: "codec ok enc dec \<Longrightarrow> ok m \<Longrightarrow> whole dec (enc m) = Some m"
  using codecD [of ok enc dec m "[]"] by (simp add: whole_def)

text \<open>How long an acknowledgement can be.\<close>

lemma length_put_ack: "length (put_ack (make_ack ids b)) \<le> length (enc_list enc_string ids) + 21"
  using length_enc_word [of "of_nat (ring_buffer_len b)"] length_enc_word [of "of_nat (rb_capacity b)"]
  by (simp add: put_ack_def make_ack_def enc_pair_def enc_list_def [of put_ack_error] enc_nat.simps [of 0])

end
