(* ===== verification/Grpc_Wire.thy ===== *)
theory Grpc_Wire
  imports Wire_Codec
begin

text \<open>
  Remote calls: the generated client joined to the generated server, with the service of \<open>server.rs\<close> behind it. The codecs of \<open>prost\<close> and
  the header form of a status are the parameter \<open>Wire\<close>; which calls the transport carries to their end, no connection lost and no
  timeout passed, is the parameter \<open>completes\<close>. What \<open>prost\<close> and \<open>tonic\<close> document is stated by \<open>wire_documented\<close>, by
  \<open>unary_served\<close> and \<open>streaming_served\<close> for the server and by \<open>unary_called\<close> and \<open>streaming_called\<close> for the client, always for
  messages that the Rust types allow. The byte codec of \<open>Wire_Codec\<close> and the plain libraries of the examples keep it.
\<close>

section \<open>What the libraries document\<close>

record 'b Wire =
  frame_len :: "'b \<Rightarrow> nat"
  read_status :: "(string \<rightharpoonup> string) \<Rightarrow> status option"
  enc_event :: "IngestEvent \<Rightarrow> 'b"
  dec_event :: "'b \<Rightarrow> IngestEvent option"
  enc_batch :: "IngestBatch \<Rightarrow> 'b"
  dec_batch :: "'b \<Rightarrow> IngestBatch option"
  enc_ack :: "Ack \<Rightarrow> 'b"
  dec_ack :: "'b \<Rightarrow> Ack option"
  enc_health_request :: "HealthRequest \<Rightarrow> 'b"
  dec_health_request :: "'b \<Rightarrow> HealthRequest option"
  enc_health :: "HealthResponse \<Rightarrow> 'b"
  dec_health :: "'b \<Rightarrow> HealthResponse option"

text \<open>Decoding inverts encoding on what the Rust types allow, and the response to an unknown path carries the code 12.\<close>

definition wire_documented :: "'b Wire \<Rightarrow> bool" where
  "wire_documented W \<longleftrightarrow>
     (\<forall>m. typed_ingest m \<longrightarrow> dec_event W (enc_event W m) = Some m) \<and>
     (\<forall>m. typed_batch m \<longrightarrow> dec_batch W (enc_batch W m) = Some m) \<and>
     (\<forall>m. typed_ack m \<longrightarrow> dec_ack W (enc_ack W m) = Some m) \<and>
     (\<forall>m. dec_health_request W (enc_health_request W m) = Some m) \<and>
     (\<forall>m. typed_health m \<longrightarrow> dec_health W (enc_health W m) = Some m) \<and>
     (\<forall>h. h ''grpc-status'' = Some ''12'' \<longrightarrow> h ''grpc-message'' = None \<longrightarrow>
        read_status W h = Some (mk_status Unimplemented []))"

text \<open>The default limits are those of the comments on the builder methods: \<open>4MB\<close> to decode, \<open>usize::MAX\<close> to encode.\<close>

definition decode_limit :: "nat option \<Rightarrow> nat" where
  "decode_limit limit = (case limit of None \<Rightarrow> 4 * 1024 * 1024 | Some n \<Rightarrow> n)"

definition encode_limit :: "nat option \<Rightarrow> nat" where
  "encode_limit limit = (case limit of None \<Rightarrow> 2 ^ 64 - 1 | Some n \<Rightarrow> n)"

text \<open>A response that is only a status, one that ends well, one with a message, and one that ends in an error without a message.\<close>

definition status_response :: "'b Wire \<Rightarrow> status \<Rightarrow> 'b http_response \<Rightarrow> bool" where
  "status_response W st resp \<longleftrightarrow> read_status W (resp_headers resp) = Some st \<and> code st \<noteq> Ok_code"

definition ends_ok :: "'b Wire \<Rightarrow> 'b http_response \<Rightarrow> bool" where
  "ends_ok W resp \<longleftrightarrow> (\<exists>st. read_status W (resp_trailers resp) = Some st \<and> code st = Ok_code)"

definition message_response :: "'b Wire \<Rightarrow> 'b \<Rightarrow> 'b http_response \<Rightarrow> bool" where
  "message_response W b resp \<longleftrightarrow> read_status W (resp_headers resp) = None \<and> resp_body resp = [b] \<and> ends_ok W resp"

definition failed_response :: "'b Wire \<Rightarrow> 'b http_response \<Rightarrow> bool" where
  "failed_response W resp \<longleftrightarrow> read_status W (resp_headers resp) = None \<and> resp_body resp = [] \<and>
     (\<exists>st. read_status W (resp_trailers resp) = Some st \<and> code st \<noteq> Ok_code)"

text \<open>A unary method is served: an oversized message is refused before the handler runs; otherwise the handler runs on the decoded
  message and its answer is the response, unless it is a message that is too large to be sent.\<close>

definition unary_served ::
    "'b Wire \<Rightarrow> ('r \<Rightarrow> bool) \<Rightarrow> ('r \<Rightarrow> 'b) \<Rightarrow> ('b \<Rightarrow> 'q option) \<Rightarrow> nat option \<Rightarrow> nat option \<Rightarrow>
     (('q Request \<Rightarrow> 'x \<Rightarrow> (status + 'r) \<times> 'x) \<Rightarrow> 'b http_request \<Rightarrow> 'x \<Rightarrow> 'b http_response \<times> 'x) \<Rightarrow> bool" where
  "unary_served W ok enc dec d e serve \<longleftrightarrow>
     (\<forall>f req b x. req_body req = [b] \<longrightarrow>
        (decode_limit d < frame_len W b \<longrightarrow> (\<exists>st resp. serve f req x = (resp, x) \<and> status_response W st resp)) \<and>
        (\<forall>m r x'. frame_len W b \<le> decode_limit d \<longrightarrow> dec b = Some m \<longrightarrow> f (request_new m) x = (r, x') \<longrightarrow> typed_reply ok r \<longrightarrow>
           (\<exists>resp. serve f req x = (resp, x') \<and>
              (case r of
                 Inl st \<Rightarrow> status_response W st resp
               | Inr a \<Rightarrow> if frame_len W (enc a) \<le> encode_limit e then message_response W (enc a) resp
                   else failed_response W resp))))"

text \<open>The reads of a streaming body, each with whether the receiver of the answers is there when the answer to it is sent. They are reads of its
  first messages; how many there are, and how long the receiver is there, is up to the runtime.\<close>

definition reads_of :: "'b Wire \<Rightarrow> nat option \<Rightarrow> 'b list \<Rightarrow> streaming \<Rightarrow> bool" where
  "reads_of W d body items \<longleftrightarrow> length items \<le> length body \<and>
     (\<forall>i<length items. case fst (items ! i) of
        Inr m \<Rightarrow> frame_len W (body ! i) \<le> decode_limit d \<and> dec_batch W (body ! i) = Some m
      | Inl _ \<Rightarrow> decode_limit d < frame_len W (body ! i) \<or> dec_batch W (body ! i) = None)"

text \<open>But as long as only messages have been answered, the response goes on: the next message of the body is read, and the
  answer to it finds its receiver.\<close>

definition goes_on :: "'b list \<Rightarrow> streaming \<Rightarrow> (status + Ack) list \<Rightarrow> bool" where
  "goes_on body items answers \<longleftrightarrow>
     (\<forall>j<length body. (\<forall>k<j. k < length answers \<and> is_ok (answers ! k)) \<longrightarrow> j < length items \<and> snd (items ! j))"

text \<open>The response to a stream carries the messages before the first error; this ends the response, as its status.\<close>

definition stream_response :: "'b Wire \<Rightarrow> (status + Ack) list \<Rightarrow> 'b http_response \<Rightarrow> bool" where
  "stream_response W answers resp \<longleftrightarrow>
     read_status W (resp_headers resp) = None \<and>
     resp_body resp = map (enc_ack W \<circ> projr) (takeWhile is_ok answers) \<and>
     (case dropWhile is_ok answers of
        [] \<Rightarrow> ends_ok W resp
      | r # _ \<Rightarrow> read_status W (resp_trailers resp) = Some (projl r))"

text \<open>The answer of a handler that can be sent and be read: an error, or a message within the limits.\<close>

definition fitting :: "'b Wire \<Rightarrow> ('r \<Rightarrow> 'b) \<Rightarrow> nat option \<Rightarrow> status + 'r \<Rightarrow> bool" where
  "fitting W enc e r \<longleftrightarrow>
     (case r of Inl _ \<Rightarrow> True | Inr a \<Rightarrow> frame_len W (enc a) \<le> encode_limit e \<and> frame_len W (enc a) \<le> decode_limit None)"

text \<open>A stream whose client reads the response to its end, with answers that fit.\<close>

definition streaming_served ::
    "'b Wire \<Rightarrow> (string \<Rightarrow> 'x \<Rightarrow> bool) \<Rightarrow> nat option \<Rightarrow> nat option \<Rightarrow>
     ((streaming Request \<Rightarrow> 'x \<Rightarrow> (status + (status + Ack) list) \<times> 'x) \<Rightarrow> 'b http_request \<Rightarrow> 'x \<Rightarrow> 'b http_response \<times> 'x) \<Rightarrow> bool" where
  "streaming_served W completes d e serve \<longleftrightarrow>
     (\<forall>f req x. completes (uri_path req) x \<longrightarrow>
        (\<exists>items. reads_of W d (req_body req) items \<and>
           (\<forall>answers x'. f (request_new items) x = (Inr answers, x') \<longrightarrow>
              list_all (typed_reply typed_ack) answers \<longrightarrow> list_all (fitting W (enc_ack W) e) answers \<longrightarrow>
              goes_on (req_body req) items answers \<and>
              (\<exists>resp. serve f req x = (resp, x') \<and> stream_response W answers resp))))"

definition server_documented ::
    "'b Wire \<Rightarrow> (string \<Rightarrow> 'x \<Rightarrow> bool) \<Rightarrow> ('s, 'c, 'e, 'b, 'x) ServerLib \<Rightarrow> ('a, 'e) GatewayServer \<Rightarrow> bool" where
  "server_documented W completes L self \<longleftrightarrow>
     unary_served W typed_ack (enc_ack W) (dec_event W) (max_decoding_message_size self) (max_encoding_message_size self)
       (serve_unary_event L (server_grpc L self)) \<and>
     unary_served W typed_health (enc_health W) (dec_health_request W) (max_decoding_message_size self) (max_encoding_message_size self)
       (serve_unary_health L (server_grpc L self)) \<and>
     streaming_served W completes (max_decoding_message_size self) (max_encoding_message_size self)
       (serve_streaming L (server_grpc L self))"

text \<open>A client over a channel: the request goes out as one message, and the answer is read back. A call that the transport does not complete
  returns an error, whether it was lost before or after the server handled it.\<close>

definition unary_called ::
    "'b Wire \<Rightarrow> (string \<Rightarrow> 'x \<Rightarrow> bool) \<Rightarrow> ('q \<Rightarrow> bool) \<Rightarrow> ('q \<Rightarrow> 'b) \<Rightarrow> ('b \<Rightarrow> 'r option) \<Rightarrow>
     ('b http_request \<Rightarrow> 'x \<Rightarrow> 'b http_response \<times> 'x) \<Rightarrow> ('q Request \<Rightarrow> string \<Rightarrow> 'x \<Rightarrow> (status + 'r) \<times> 'x) \<Rightarrow> bool" where
  "unary_called W completes ok enc dec channel call \<longleftrightarrow>
     (\<forall>req path x resp x'. ok (into_inner req) \<longrightarrow> channel \<lparr>uri_path = path, req_body = [enc (into_inner req)]\<rparr> x = (resp, x') \<longrightarrow>
        (if completes path x
         then (\<forall>st. status_response W st resp \<longrightarrow> call req path x = (Inl st, x')) \<and>
           (failed_response W resp \<longrightarrow> (\<exists>st. call req path x = (Inl st, x'))) \<and>
           (\<forall>b m. message_response W b resp \<longrightarrow> dec b = Some m \<longrightarrow>
              (if frame_len W b \<le> decode_limit None then call req path x = (Inr m, x')
               else \<exists>st. call req path x = (Inl st, x')))
         else \<exists>st. call req path x = (Inl st, x) \<or> call req path x = (Inl st, x')))"

definition streaming_called ::
    "'b Wire \<Rightarrow> (string \<Rightarrow> 'x \<Rightarrow> bool) \<Rightarrow> ('b http_request \<Rightarrow> 'x \<Rightarrow> 'b http_response \<times> 'x) \<Rightarrow>
     (IngestBatch list Request \<Rightarrow> string \<Rightarrow> 'x \<Rightarrow> (status + (status + Ack) list) \<times> 'x) \<Rightarrow> bool" where
  "streaming_called W completes channel call \<longleftrightarrow>
     (\<forall>req path x resp x' acks tail. list_all typed_batch (into_inner req) \<longrightarrow> completes path x \<longrightarrow>
        channel \<lparr>uri_path = path, req_body = map (enc_batch W) (into_inner req)\<rparr> x = (resp, x') \<longrightarrow>
        read_status W (resp_headers resp) = None \<longrightarrow>
        map (dec_ack W) (resp_body resp) = map Some acks \<longrightarrow>
        (\<forall>b\<in>set (resp_body resp). frame_len W b \<le> decode_limit None) \<longrightarrow>
        (case read_status W (resp_trailers resp) of
           None \<Rightarrow> False
         | Some st \<Rightarrow> tail = (if code st = Ok_code then [] else [Inl st])) \<longrightarrow>
        call req path x = (Inr (map Inr acks @ tail), x'))"

definition client_documented ::
    "'b Wire \<Rightarrow> (string \<Rightarrow> 'x \<Rightarrow> bool) \<Rightarrow> ('b http_request \<Rightarrow> 'x \<Rightarrow> 'b http_response \<times> 'x) \<Rightarrow> ('t, 'g, 'c, 'x) ClientLib \<Rightarrow> 't \<Rightarrow> bool" where
  "client_documented W completes channel L t \<longleftrightarrow>
     unary_called W completes typed_ingest (enc_event W) (dec_ack W) channel (grpc_unary_event L (grpc_client_new L t)) \<and>
     unary_called W completes (\<lambda>_. True) (enc_health_request W) (dec_health W) channel (grpc_unary_health L (grpc_client_new L t)) \<and>
     streaming_called W completes channel (grpc_streaming L (grpc_client_new L t))"

section \<open>Libraries that keep the documentation\<close>

text \<open>Plain instances of the parameters, for the examples: the byte codec, and libraries that do what is documented and no more.\<close>

fun code_text :: "status_code \<Rightarrow> string" where
  "code_text Ok_code = ''0''" | "code_text Cancelled = ''1''" | "code_text Unknown = ''2''"
| "code_text InvalidArgument = ''3''" | "code_text DeadlineExceeded = ''4''" | "code_text NotFound = ''5''"
| "code_text AlreadyExists = ''6''" | "code_text PermissionDenied = ''7''" | "code_text ResourceExhausted = ''8''"
| "code_text FailedPrecondition = ''9''" | "code_text Aborted = ''10''" | "code_text OutOfRange = ''11''"
| "code_text Unimplemented = ''12''" | "code_text Internal = ''13''" | "code_text Unavailable = ''14''"
| "code_text DataLoss = ''15''" | "code_text Unauthenticated = ''16''"

definition status_codes :: "status_code list" where
  "status_codes = [Ok_code, Cancelled, Unknown, InvalidArgument, DeadlineExceeded, NotFound, AlreadyExists, PermissionDenied,
     ResourceExhausted, FailedPrecondition, Aborted, OutOfRange, Unimplemented, Internal, Unavailable, DataLoss, Unauthenticated]"

definition status_headers :: "status \<Rightarrow> (string \<rightharpoonup> string)" where
  "status_headers st = [''grpc-status'' \<mapsto> code_text (code st), ''grpc-message'' \<mapsto> status_message st]"

definition plain_read_status :: "(string \<rightharpoonup> string) \<Rightarrow> status option" where
  "plain_read_status h =
     (case h ''grpc-status'' of
        None \<Rightarrow> None
      | Some c \<Rightarrow> Some (mk_status (case map_of (map (\<lambda>k. (code_text k, k)) status_codes) c of None \<Rightarrow> Unknown | Some k \<Rightarrow> k)
          (case h ''grpc-message'' of None \<Rightarrow> [] | Some m \<Rightarrow> m)))"

definition plain_wire :: "bytes Wire" where
  "plain_wire =
     \<lparr>frame_len = length, read_status = plain_read_status, enc_event = put_ingest, dec_event = whole get_ingest,
      enc_batch = put_batch, dec_batch = whole get_batch, enc_ack = put_ack, dec_ack = whole get_ack,
      enc_health_request = (\<lambda>_. []), dec_health_request = (\<lambda>_. Some HealthRequest),
      enc_health = put_health, dec_health = whole get_health\<rparr>"

definition status_only :: "status \<Rightarrow> 'b http_response" where
  "status_only st = \<lparr>resp_headers = status_headers st, resp_body = [], resp_trailers = Map.empty\<rparr>"

definition body_then :: "'b list \<Rightarrow> status \<Rightarrow> 'b http_response" where
  "body_then body st = \<lparr>resp_headers = Map.empty, resp_body = body, resp_trailers = status_headers st\<rparr>"

definition plain_unary ::
    "('r \<Rightarrow> bytes) \<Rightarrow> (bytes \<Rightarrow> 'q option) \<Rightarrow> nat option \<times> nat option \<Rightarrow> ('q Request \<Rightarrow> 'x \<Rightarrow> (status + 'r) \<times> 'x) \<Rightarrow>
     bytes http_request \<Rightarrow> 'x \<Rightarrow> bytes http_response \<times> 'x" where
  "plain_unary enc dec limits f req x =
     (case req_body req of
        [b] \<Rightarrow>
          if decode_limit (fst limits) < length b then (status_only (mk_status OutOfRange []), x)
          else (case dec b of
              None \<Rightarrow> (status_only (mk_status Internal []), x)
            | Some m \<Rightarrow>
                (case f (request_new m) x of
                   (Inl st, x) \<Rightarrow> (status_only st, x)
                 | (Inr a, x) \<Rightarrow>
                     (if length (enc a) \<le> encode_limit (snd limits) then body_then [enc a] (mk_status Ok_code [])
                      else body_then [] (mk_status OutOfRange []), x)))
      | _ \<Rightarrow> (status_only (mk_status Internal []), x))"

definition plain_read :: "nat option \<Rightarrow> bytes \<Rightarrow> status + IngestBatch" where
  "plain_read d b =
     (if decode_limit d < length b then Inl (mk_status OutOfRange [])
      else (case whole get_batch b of None \<Rightarrow> Inl (mk_status Internal []) | Some m \<Rightarrow> Inr m))"

definition plain_streaming ::
    "nat option \<times> nat option \<Rightarrow> (streaming Request \<Rightarrow> 'x \<Rightarrow> (status + (status + Ack) list) \<times> 'x) \<Rightarrow> bytes http_request \<Rightarrow> 'x \<Rightarrow>
     bytes http_response \<times> 'x" where
  "plain_streaming limits f req x =
     (case f (request_new (map (\<lambda>b. (plain_read (fst limits) b, True)) (req_body req))) x of
        (Inl st, x) \<Rightarrow> (status_only st, x)
      | (Inr answers, x) \<Rightarrow>
          (body_then (map (put_ack \<circ> projr) (takeWhile is_ok answers))
             (case dropWhile is_ok answers of [] \<Rightarrow> mk_status Ok_code [] | r # _ \<Rightarrow> projl r), x))"

definition plain_server :: "(nat option \<times> nat option, unit, unit, bytes, 'x) ServerLib" where
  "plain_server =
     \<lparr>encodings_default = (), encodings_enable = (\<lambda>_ _. ()), grpc_server_new = (None, None),
      apply_compression_config = (\<lambda>_ _ s. s), apply_max_message_size_config = (\<lambda>d e _. (d, e)),
      serve_streaming = plain_streaming,
      serve_unary_event = plain_unary put_ack (whole get_ingest),
      serve_unary_health = plain_unary put_health (\<lambda>_. Some HealthRequest)\<rparr>"

text \<open>A client whose calls lose their answer when \<open>completes\<close> does not hold.\<close>

definition plain_call ::
    "(string \<Rightarrow> 'x \<Rightarrow> bool) \<Rightarrow> ('q \<Rightarrow> bytes) \<Rightarrow> (bytes \<Rightarrow> 'r option) \<Rightarrow> (bytes http_request \<Rightarrow> 'x \<Rightarrow> bytes http_response \<times> 'x) \<Rightarrow>
     'q Request \<Rightarrow> string \<Rightarrow> 'x \<Rightarrow> (status + 'r) \<times> 'x" where
  "plain_call completes enc dec channel req path x =
     (case channel \<lparr>uri_path = path, req_body = [enc (into_inner req)]\<rparr> x of (resp, x') \<Rightarrow>
        (if \<not> completes path x then (Inl (mk_status Unavailable []), x')
         else (case plain_read_status (resp_headers resp) of
             Some st \<Rightarrow> (Inl st, x')
           | None \<Rightarrow>
               (case resp_body resp of
                  [b] \<Rightarrow>
                    if decode_limit None < length b then (Inl (mk_status OutOfRange []), x')
                    else ((case dec b of Some m \<Rightarrow> Inr m | None \<Rightarrow> Inl (mk_status Internal [])), x')
                | _ \<Rightarrow> (Inl (mk_status Internal []), x')))))"

definition plain_stream_call ::
    "(bytes http_request \<Rightarrow> 'x \<Rightarrow> bytes http_response \<times> 'x) \<Rightarrow> IngestBatch list Request \<Rightarrow> string \<Rightarrow> 'x \<Rightarrow>
     (status + (status + Ack) list) \<times> 'x" where
  "plain_stream_call channel req path x =
     (case channel \<lparr>uri_path = path, req_body = map put_batch (into_inner req)\<rparr> x of (resp, x') \<Rightarrow>
        (case plain_read_status (resp_headers resp) of
           Some st \<Rightarrow> (Inl st, x')
         | None \<Rightarrow>
             (Inr (map (\<lambda>b. Inr (the (whole get_ack b))) (resp_body resp) @
                (case plain_read_status (resp_trailers resp) of
                   Some st \<Rightarrow> if code st = Ok_code then [] else [Inl st]
                 | None \<Rightarrow> [])), x')))"

definition plain_client ::
    "(string \<Rightarrow> 'x \<Rightarrow> bool) \<Rightarrow>
     (bytes http_request \<Rightarrow> 'x \<Rightarrow> bytes http_response \<times> 'x, bytes http_request \<Rightarrow> 'x \<Rightarrow> bytes http_response \<times> 'x, unit, 'x) ClientLib" where
  "plain_client completes =
     \<lparr>grpc_client_new = id, grpc_client_with_origin = (\<lambda>c _. c), grpc_send_compressed = (\<lambda>_ c. c),
      grpc_accept_compressed = (\<lambda>_ c. c), grpc_max_decoding = (\<lambda>_ c. c), grpc_max_encoding = (\<lambda>_ c. c),
      grpc_ready = (\<lambda>_ x. (None, x)),
      grpc_unary_event = plain_call completes put_ingest (whole get_ack),
      grpc_unary_health = plain_call completes (\<lambda>_. []) (whole get_health),
      grpc_streaming = plain_stream_call\<rparr>"

lemma plain_read_status_headers [simp]: "plain_read_status (status_headers st) = Some st"
  by (cases st; cases "code st") (simp_all add: plain_read_status_def status_headers_def status_codes_def mk_status_def)

lemma plain_read_status_empty [simp]: "plain_read_status Map.empty = None"
  by (simp add: plain_read_status_def)

text \<open>The documentation can be kept on byte strings.\<close>

lemma plain_wire_documented: "wire_documented plain_wire"
  by (simp add: wire_documented_def plain_wire_def plain_read_status_def status_codes_def whole_codec [OF codec_ingest]
      whole_codec [OF codec_batch] whole_codec [OF codec_ack] whole_codec [OF codec_health])
    (metis HealthRequest.exhaust)

lemma plain_wire_fields [simp]:
  "enc_event plain_wire = put_ingest" "dec_event plain_wire = whole get_ingest"
  "enc_ack plain_wire = put_ack" "dec_ack plain_wire = whole get_ack"
  "enc_batch plain_wire = put_batch" "dec_batch plain_wire = whole get_batch"
  "enc_health_request plain_wire = (\<lambda>_. [])" "dec_health_request plain_wire = (\<lambda>_. Some HealthRequest)"
  "enc_health plain_wire = put_health" "dec_health plain_wire = whole get_health"
  "read_status plain_wire = plain_read_status" "frame_len plain_wire = length"
  by (simp_all add: plain_wire_def)

lemma plain_responses [simp]:
  "status_response plain_wire st (status_only st') \<longleftrightarrow> st' = st \<and> code st \<noteq> Ok_code"
  "message_response plain_wire b (body_then [b'] st') \<longleftrightarrow> b' = b \<and> code st' = Ok_code"
  "failed_response plain_wire (body_then [] st') \<longleftrightarrow> code st' \<noteq> Ok_code"
  by (auto simp: status_response_def message_response_def failed_response_def ends_ok_def status_only_def body_then_def)

lemma plain_unary_served: "unary_served plain_wire ok enc dec d e (plain_unary enc dec (d, e))"
  by (auto simp: unary_served_def plain_unary_def mk_status_def typed_reply_def typed_status_def split: sum.splits)

lemma plain_server_fields [simp]:
  "server_grpc plain_server srv = (max_decoding_message_size srv, max_encoding_message_size srv)"
  "serve_streaming plain_server = plain_streaming"
  "serve_unary_event plain_server = plain_unary put_ack (whole get_ingest)"
  "serve_unary_health plain_server = plain_unary put_health (\<lambda>_. Some HealthRequest)"
  by (simp_all add: server_grpc_def plain_server_def)

lemma plain_streaming_served: "streaming_served plain_wire completes d e (plain_streaming (d, e))"
proof -
  have reads: "reads_of plain_wire d body (map (\<lambda>b. (plain_read d b, True)) body)" for body
    by (auto simp: reads_of_def plain_read_def split: option.splits)
  have response: "stream_response plain_wire answers (body_then (map (put_ack \<circ> projr) (takeWhile is_ok answers))
      (case dropWhile is_ok answers of [] \<Rightarrow> mk_status Ok_code [] | r # _ \<Rightarrow> projl r))" for answers
    by (auto simp: stream_response_def body_then_def ends_ok_def mk_status_def simp del: dropWhile_eq_Nil_conv split: list.splits)
  show ?thesis
    unfolding streaming_served_def
    by (intro allI impI exI conjI, rule reads) (auto simp: goes_on_def plain_streaming_def intro: response)
qed

lemma plain_server_documented: "server_documented plain_wire completes plain_server srv"
  by (simp add: server_documented_def plain_unary_served plain_streaming_served)

lemma plain_call_documented: "unary_called plain_wire completes ok enc dec channel (plain_call completes enc dec channel)"
  by (auto simp: unary_called_def plain_call_def status_response_def message_response_def failed_response_def)

lemma plain_client_fields [simp]:
  "grpc_client_new (plain_client completes) = id" "grpc_ready (plain_client completes) c x = (None, x)"
  "grpc_unary_event (plain_client completes) = plain_call completes put_ingest (whole get_ack)"
  "grpc_unary_health (plain_client completes) = plain_call completes (\<lambda>_. []) (whole get_health)"
  "grpc_streaming (plain_client completes) = plain_stream_call"
  by (simp_all add: plain_client_def)

lemma plain_streaming_called: "streaming_called plain_wire completes channel (plain_stream_call channel)"
proof -
  have "map (\<lambda>b. Inr (the (whole get_ack b))) body = map Inr acks" if "map (whole get_ack) body = map Some acks"
    for body and acks :: "Ack list"
    using that by (induction body arbitrary: acks) (auto simp: Cons_eq_map_conv)
  then show ?thesis
    by (auto simp: streaming_called_def plain_stream_call_def split: option.splits)
qed

lemma plain_client_documented: "client_documented plain_wire completes channel (plain_client completes) channel"
  by (simp add: client_documented_def plain_call_documented plain_streaming_called)

text \<open>A world for the examples: the service \<open>g\<close> at address 0, and a transport that completes every call.\<close>

definition sample_env :: "unit Env" where
  "sample_env = \<lparr>round_f64 = (\<lambda>x. x), powi_f64 = (\<lambda>x n. x), leaves = (\<lambda>_. \<lparr>leaf_name = [], leaf_emit = (\<lambda>_ _ x. (Inr (), 0, x)),
     leaf_health = (\<lambda>_ x. (True, 0, x)), leaf_shutdown = (\<lambda>_ x. (Inr (), 0, x))\<rparr>)\<rparr>"

definition sample_served :: "GatewayService \<Rightarrow> unit Served" where
  "sample_served g = \<lparr>cells = (\<lambda>_. g),
     world = \<lparr>time_now = 0, jitter_rng = 1, breakers = (\<lambda>_. breaker_cell_new), retries = (\<lambda>_. retry_cell_new),
       failure_buffers = (\<lambda>_. failure_buffer_new 10), backend = ()\<rparr>\<rparr>"

abbreviation sample_server :: "(nat, unit) GatewayServer" where
  "sample_server \<equiv> gateway_server_new (plain_server :: (nat option \<times> nat option, unit, unit, bytes, unit Served) ServerLib) 0"

abbreviation sample_channel :: "bytes http_request \<Rightarrow> unit Served \<Rightarrow> bytes http_response \<times> unit Served" where
  "sample_channel \<equiv> gateway_call plain_server (gateway_service_impl sample_env) sample_server"

abbreviation sample_client ::
    "(bytes http_request \<Rightarrow> unit Served \<Rightarrow> bytes http_response \<times> unit Served,
      bytes http_request \<Rightarrow> unit Served \<Rightarrow> bytes http_response \<times> unit Served, unit, unit Served) ClientLib" where
  "sample_client \<equiv> plain_client (\<lambda>_ _. True)"

lemma sample_server_fields [simp]:
  "gs_inner sample_server = 0" "max_decoding_message_size sample_server = None" "max_encoding_message_size sample_server = None"
  by (simp_all add: gateway_server_new_def gateway_server_from_arc_def)

lemma sample_served_cell [simp]: "cells (sample_served g) a = g"
  by (simp add: sample_served_def)

section \<open>A call reaches its handler\<close>

text \<open>What becomes of a call that is sent: \<open>x\<close> is the state before it, \<open>local\<close> what the handler does to it. A message above the
  decoding limit of the server is refused. A call that is carried to its end returns the answer of the handler when it fits, and otherwise an
  error after the handler has run. A call that is not may return an error before or after the handler has run.\<close>

definition carried :: "bool \<Rightarrow> bool \<Rightarrow> bool \<Rightarrow> 'x \<Rightarrow> (status + 'r) \<times> 'x \<Rightarrow> (status + 'r) \<times> 'x \<Rightarrow> bool" where
  "carried small fits completed x local result \<longleftrightarrow>
     (result = local \<or> (\<exists>st. result = (Inl st, snd local)) \<or> (\<exists>st. result = (Inl st, x))) \<and>
     (\<not> small \<longrightarrow> (\<exists>st. result = (Inl st, x))) \<and>
     (completed \<and> small \<and> fits \<longrightarrow> result = local) \<and>
     (completed \<and> small \<and> \<not> fits \<longrightarrow> (\<exists>st. result = (Inl st, snd local)))"

lemma unary_through:
  assumes served: "unary_served W ok_r enc_r dec_q d e serve" and called: "unary_called W completes ok_q enc_q dec_r channel call"
    and channel: "channel \<lparr>uri_path = path, req_body = [enc_q (into_inner req)]\<rparr> =
      serve f \<lparr>uri_path = path, req_body = [enc_q (into_inner req)]\<rparr>"
    and codec: "dec_q (enc_q (into_inner req)) = Some (into_inner req)" "\<And>a. ok_r a \<Longrightarrow> dec_r (enc_r a) = Some a"
    and typed: "ok_q (into_inner req)" "typed_reply ok_r (fst (f (request_new (into_inner req)) x))"
  shows "carried (frame_len W (enc_q (into_inner req)) \<le> decode_limit d)
    (fitting W enc_r e (fst (f (request_new (into_inner req)) x))) (completes path x) x
    (f (request_new (into_inner req)) x) (call req path x)"
proof -
  let ?m = "into_inner req"
  let ?req = "\<lparr>uri_path = path, req_body = [enc_q ?m]\<rparr>"
  obtain r x' where f: "f (request_new ?m) x = (r, x')" by fastforce
  note call = called [unfolded unary_called_def, rule_format, of req path x, OF typed(1), unfolded channel]
  note serve = served [unfolded unary_served_def, rule_format, of ?req "enc_q ?m", simplified, of f x]
  show ?thesis
  proof (cases "frame_len W (enc_q ?m) \<le> decode_limit d")
    case False
    then obtain st resp where resp: "serve f ?req x = (resp, x)" "status_response W st resp"
      using serve by auto
    have "\<exists>st. call req path x = (Inl st, x)" using call [OF resp(1)] resp(2) by (auto split: if_splits)
    with False show ?thesis by (auto simp: carried_def)
  next
    case True
    then obtain resp where resp: "serve f ?req x = (resp, x')"
      "case r of Inl st \<Rightarrow> status_response W st resp
       | Inr a \<Rightarrow> if frame_len W (enc_r a) \<le> encode_limit e then message_response W (enc_r a) resp else failed_response W resp"
      using serve f codec(1) typed(2) by auto
    note result = call [OF resp(1)]
    show ?thesis
    proof (cases "completes path x")
      case False
      with result show ?thesis using True f by (auto simp: carried_def)
    next
      case completed: True
      show ?thesis
      proof (cases r)
        case (Inl st)
        with result resp(2) completed True f show ?thesis by (simp add: carried_def fitting_def)
      next
        case (Inr a)
        have "dec_r (enc_r a) = Some a" using codec(2) typed(2) f Inr by simp
        with result resp(2) completed True f Inr show ?thesis
          by (auto simp: carried_def fitting_def split: if_splits)
      qed
    qed
  qed
qed

lemma gateway_call_paths:
  "gateway_call L T self \<lparr>uri_path = ''/polku.v1.Gateway/StreamEvents'', req_body = b\<rparr> =
     serve_streaming L (server_grpc L self) (gateway_stream_events T (gs_inner self))
       \<lparr>uri_path = ''/polku.v1.Gateway/StreamEvents'', req_body = b\<rparr>"
  "gateway_call L T self \<lparr>uri_path = ''/polku.v1.Gateway/SendEvent'', req_body = b\<rparr> =
     serve_unary_event L (server_grpc L self) (gateway_send_event T (gs_inner self))
       \<lparr>uri_path = ''/polku.v1.Gateway/SendEvent'', req_body = b\<rparr>"
  "gateway_call L T self \<lparr>uri_path = ''/polku.v1.Gateway/Health'', req_body = b\<rparr> =
     serve_unary_health L (server_grpc L self) (gateway_health T (gs_inner self))
       \<lparr>uri_path = ''/polku.v1.Gateway/Health'', req_body = b\<rparr>"
  by (auto simp: gateway_call_def)

text \<open>The two unary methods, from a channel that is ready.\<close>

lemma send_event_over_wire:
  assumes "wire_documented W" and "server_documented W completes SL srv"
    and "client_documented W completes (gateway_call SL T srv) CL t"
    and "grpc_ready CL (grpc_client_new CL t) pre = (None, x)" and "typed_ingest m"
    and "typed_reply typed_ack (fst (gateway_send_event T (gs_inner srv) (request_new m) x))"
  shows "carried (frame_len W (enc_event W m) \<le> decode_limit (max_decoding_message_size srv))
    (fitting W (enc_ack W) (max_encoding_message_size srv) (fst (gateway_send_event T (gs_inner srv) (request_new m) x)))
    (completes ''/polku.v1.Gateway/SendEvent'' x) x (gateway_send_event T (gs_inner srv) (request_new m) x)
    (client_send_event CL (client_new CL t) (request_new m) pre)"
proof -
  let ?req = "(request_new m)\<lparr>grpc_method := Some (''polku.v1.Gateway'', ''SendEvent'')\<rparr>"
  have m: "into_inner ?req = m" by (simp add: request_new_def)
  have called: "unary_called W completes typed_ingest (enc_event W) (dec_ack W) (gateway_call SL T srv)
      (grpc_unary_event CL (grpc_client_new CL t))"
    using assms(3) by (simp add: client_documented_def)
  have served: "unary_served W typed_ack (enc_ack W) (dec_event W) (max_decoding_message_size srv) (max_encoding_message_size srv)
      (serve_unary_event SL (server_grpc SL srv))"
    using assms(2) by (simp add: server_documented_def)
  have codec: "dec_event W (enc_event W (into_inner ?req)) = Some (into_inner ?req)"
    "\<And>a. typed_ack a \<Longrightarrow> dec_ack W (enc_ack W a) = Some a"
    using assms(1,5) by (simp_all add: wire_documented_def m)
  show ?thesis
    using unary_through [OF served called gateway_call_paths(2) codec, of x] assms(4-6)
    unfolding m by (simp add: client_send_event_def client_new_def)
qed

lemma health_over_wire:
  assumes "wire_documented W" and "server_documented W completes SL srv"
    and "client_documented W completes (gateway_call SL T srv) CL t"
    and "grpc_ready CL (grpc_client_new CL t) pre = (None, x)"
    and "typed_reply typed_health (fst (gateway_health T (gs_inner srv) (request_new m) x))"
  shows "carried (frame_len W (enc_health_request W m) \<le> decode_limit (max_decoding_message_size srv))
    (fitting W (enc_health W) (max_encoding_message_size srv) (fst (gateway_health T (gs_inner srv) (request_new m) x)))
    (completes ''/polku.v1.Gateway/Health'' x) x (gateway_health T (gs_inner srv) (request_new m) x)
    (client_health CL (client_new CL t) (request_new m) pre)"
proof -
  let ?req = "(request_new m)\<lparr>grpc_method := Some (''polku.v1.Gateway'', ''Health'')\<rparr>"
  have m: "into_inner ?req = m" by (simp add: request_new_def)
  have called: "unary_called W completes (\<lambda>_. True) (enc_health_request W) (dec_health W) (gateway_call SL T srv)
      (grpc_unary_health CL (grpc_client_new CL t))"
    using assms(3) by (simp add: client_documented_def)
  have served: "unary_served W typed_health (enc_health W) (dec_health_request W) (max_decoding_message_size srv)
      (max_encoding_message_size srv) (serve_unary_health SL (server_grpc SL srv))"
    using assms(2) by (simp add: server_documented_def)
  have codec: "dec_health_request W (enc_health_request W (into_inner ?req)) = Some (into_inner ?req)"
    "\<And>a. typed_health a \<Longrightarrow> dec_health W (enc_health W a) = Some a"
    using assms(1) by (simp_all add: wire_documented_def m)
  show ?thesis
    using unary_through [OF served called gateway_call_paths(3) codec, of x] assms(4,5)
    unfolding m by (simp add: client_health_def client_new_def)
qed

text \<open>A path that is not one of the three: the client reads \<open>Unimplemented\<close>, and no handler ran.\<close>

lemma unknown_path:
  assumes "wire_documented W"
    and "uri_path req \<notin> {''/polku.v1.Gateway/StreamEvents'', ''/polku.v1.Gateway/SendEvent'', ''/polku.v1.Gateway/Health''}"
  shows "\<exists>resp. gateway_call L T self req x = (resp, x) \<and> status_response W (mk_status Unimplemented []) resp"
  using assms by (simp add: gateway_call_def wire_documented_def status_response_def unimplemented_response_def mk_status_def)

text \<open>C11. What a remote call is worth, for a client and a server that keep the documented behaviour of \<open>tonic\<close> and messages and
  answers that the Rust types allow. A client whose channel is not ready gets \<open>Unknown\<close> with the reason, and nothing was sent. Otherwise
  \<open>send_event\<close> and \<open>health\<close> return the answer of the handler of the same name to the same message, with its effect, or an
  error, with the effect of the handler or none. A message above the decoding limit of the server, 4 MB unless configured, is refused with an error and
  reaches no handler. A smaller one whose call the transport completes gets the handler's answer, if this is an error
  or within the encoding limit of the server and the 4 MB of the client, and otherwise an error, although the handler has run.\<close>

theorem rpc_reaches_handler:
  assumes "wire_documented W" and "server_documented W completes SL srv"
    and "client_documented W completes (gateway_call SL T srv) CL t" and "typed_ingest m"
  shows "case grpc_ready CL (grpc_client_new CL t) pre of
      (Some e, x) \<Rightarrow>
        client_send_event CL (client_new CL t) (request_new m) pre = (Inl (mk_status Unknown (''Service was not ready: '' @ e)), x) \<and>
        client_health CL (client_new CL t) (request_new hm) pre = (Inl (mk_status Unknown (''Service was not ready: '' @ e)), x)
    | (None, x) \<Rightarrow>
        (let d = decode_limit (max_decoding_message_size srv); e = max_encoding_message_size srv;
             local = gateway_send_event T (gs_inner srv) (request_new m) x;
             hlocal = gateway_health T (gs_inner srv) (request_new hm) x
         in (typed_reply typed_ack (fst local) \<longrightarrow>
               carried (frame_len W (enc_event W m) \<le> d) (fitting W (enc_ack W) e (fst local))
                 (completes ''/polku.v1.Gateway/SendEvent'' x) x local (client_send_event CL (client_new CL t) (request_new m) pre)) \<and>
            (typed_reply typed_health (fst hlocal) \<longrightarrow>
               carried (frame_len W (enc_health_request W hm) \<le> d) (fitting W (enc_health W) e (fst hlocal))
                 (completes ''/polku.v1.Gateway/Health'' x) x hlocal (client_health CL (client_new CL t) (request_new hm) pre)))"
proof (cases "grpc_ready CL (grpc_client_new CL t) pre")
  case (Pair e x)
  show ?thesis
  proof (cases e)
    case None
    with Pair have ready: "grpc_ready CL (grpc_client_new CL t) pre = (None, x)" by simp
    from send_event_over_wire [OF assms(1-3) ready assms(4)] health_over_wire [OF assms(1-3) ready]
    show ?thesis by (simp add: ready Let_def)
  next
    case (Some e)
    with Pair show ?thesis by (simp add: client_send_event_def client_health_def client_new_def not_ready_def)
  qed
qed

text \<open>Closed instances: an event that is stored, and one whose acknowledgement the transport loses after it was stored.\<close>

lemma sample_request:
  "typed_event sample_event" "typed_ingest (forward_request sample_event)"
  "length (put_ingest (forward_request sample_event)) \<le> decode_limit None"
proof -
  show "typed_event sample_event"
    by (simp add: typed_event_def typed_map_def message_with_id_def event_from_message_def in_range_def)
  then show "typed_ingest (forward_request sample_event)"
    by (simp add: typed_ingest_def forward_request_def typed_event_def)
  show "length (put_ingest (forward_request sample_event)) \<le> decode_limit None"
    by (simp add: put_ingest_def ingest_parts_def forward_request_def put_event_def event_parts_def enc_pair_def enc_string_def
        enc_option_def enc_sum_def enc_list_def map_entries_def message_with_id_def event_from_message_def enc_word_def
        enc_nat.simps decode_limit_def)
qed

lemma sample_ack_fits:
  "length (put_ack (make_ack [ev_id sample_event] b)) \<le> min (encode_limit None) (decode_limit None)"
  using length_put_ack [of "[ev_id sample_event]" b]
  by (simp add: enc_list_def enc_string_def enc_nat.simps message_with_id_def event_from_message_def decode_limit_def encode_limit_def)

lemma sample_local:
  "\<exists>b s'. gateway_send_event (gateway_service_impl sample_env) 0 (request_new (forward_request sample_event)) (sample_served sample_gateway) =
      (Inr (make_ack [ev_id sample_event] b), s') \<and> messages (svc_buffer (cells s' 0)) = [sample_message ''m'']"
proof -
  obtain r g where send: "send_event (forward_request sample_event) sample_gateway = (r, g)" by fastforce
  have "process_event (forward_request sample_event) sample_gateway = Inr sample_event"
    by (simp add: process_event_def forward_request_def)
  moreover have "\<not> ring_buffer_is_full (svc_buffer sample_gateway)"
    using sample_gateway_room by (simp add: ring_buffer_is_full_def)
  ultimately have "\<exists>b. r = Inr (make_ack [ev_id sample_event] b)" "messages (svc_buffer g) = [sample_message ''m'']"
    using send_event_stores [OF sample_gateway_room(1), of "forward_request sample_event"] sample_gateway_room(2) send by auto
  then show ?thesis using send by (auto simp: gateway_service_impl_def request_new_def)
qed

theorem rpc_reaches_handler_witness:
  "let req = request_new (forward_request sample_event); s = sample_served sample_gateway;
       local = gateway_send_event (gateway_service_impl sample_env) 0 req s;
       lossy = plain_client (\<lambda>_ _. False)
   in is_ok (fst local) \<and> messages (svc_buffer (cells (snd local) 0)) = [sample_message ''m''] \<and>
      client_send_event sample_client (client_new sample_client sample_channel) req s = local \<and>
      (\<exists>st s'. client_send_event lossy (client_new lossy sample_channel) req s = (Inl st, s') \<and> (s' = snd local \<or> s' = s))"
proof -
  let ?m = "forward_request sample_event" and ?s = "sample_served sample_gateway"
  let ?local = "gateway_send_event (gateway_service_impl sample_env) 0 (request_new ?m) ?s"
  let ?lost = "client_send_event (plain_client (\<lambda>_ _. False)) (client_new (plain_client (\<lambda>_ _. False)) sample_channel)
      (request_new ?m) ?s"
  obtain b where local: "fst ?local = Inr (make_ack [ev_id sample_event] b)"
    "messages (svc_buffer (cells (snd ?local) 0)) = [sample_message ''m'']"
    using sample_local by auto
  have typed: "typed_reply typed_ack (fst ?local)" "fitting plain_wire put_ack None (fst ?local)"
    using sample_request(1) sample_ack_fits [of b] by (simp_all add: local(1) typed_event_def fitting_def)
  note run = rpc_reaches_handler [OF plain_wire_documented plain_server_documented plain_client_documented sample_request(2),
      where completes = "\<lambda>_ _. True" and T = "gateway_service_impl sample_env" and srv = sample_server and pre = ?s]
  note lossy = rpc_reaches_handler [OF plain_wire_documented plain_server_documented plain_client_documented sample_request(2),
      where completes = "\<lambda>_ _. False" and T = "gateway_service_impl sample_env" and srv = sample_server and pre = ?s]
  have "client_send_event sample_client (client_new sample_client sample_channel) (request_new ?m) ?s = ?local"
    using run typed sample_request(3) by (simp add: Let_def carried_def)
  moreover have "\<exists>st s'. ?lost = (Inl st, s') \<and> (s' = snd ?local \<or> s' = ?s)"
  proof -
    have "\<not> is_ok (fst ?lost)"
      by (simp add: client_send_event_def client_new_def plain_call_def case_prod_beta)
    moreover have "?lost = ?local \<or> (\<exists>st. ?lost = (Inl st, snd ?local)) \<or> (\<exists>st. ?lost = (Inl st, ?s))"
      using lossy typed by (simp add: Let_def carried_def)
    ultimately show ?thesis using local(1) by (metis is_ok_simps(1))
  qed
  ultimately show ?thesis using local by (simp add: Let_def)
qed

section \<open>Streams over the wire\<close>

text \<open>What a client reads of the answers to a stream.\<close>

definition until_status :: "(status + 'r) list \<Rightarrow> (status + 'r) list" where
  "until_status answers = takeWhile is_ok answers @ take 1 (dropWhile is_ok answers)"

lemma until_status_simps [simp]:
  "until_status [] = []" "until_status (Inr a # rs) = Inr a # until_status rs" "until_status (Inl st # rs) = [Inl st]"
  by (simp_all add: until_status_def)

lemma until_status_acks [simp]: "until_status (map Inr acks @ rs) = map Inr acks @ until_status rs"
  by (induction acks) simp_all

lemma until_status_alt:
  "until_status answers = map Inr (map projr (takeWhile is_ok answers)) @
     (case dropWhile is_ok answers of [] \<Rightarrow> [] | r # _ \<Rightarrow> [Inl (projl r)])"
proof (induction answers)
  case (Cons r rs)
  then show ?case by (cases r) auto
qed simp

text \<open>Reads of encoded batches that fit give back the batches.\<close>

lemma reads_of_encoded:
  assumes "wire_documented W" and "reads_of W d (map (enc_batch W) batches) items"
    and "list_all typed_batch batches" and "\<And>b. b \<in> set batches \<Longrightarrow> frame_len W (enc_batch W b) \<le> decode_limit d"
  shows "items = zip (map Inr (take (length items) batches)) (map snd items)"
proof (rule nth_equalityI)
  have len: "length items \<le> length batches" using assms(2) by (simp add: reads_of_def)
  then show "length items = length (zip (map Inr (take (length items) batches)) (map snd items))" by simp
  fix i assume i: "i < length items"
  with len have b: "batches ! i \<in> set batches" by simp
  have "dec_batch W (enc_batch W (batches ! i)) = Some (batches ! i)"
    using assms(1,3) b by (simp add: wire_documented_def list_all_iff)
  moreover have "frame_len W (enc_batch W (batches ! i)) \<le> decode_limit d" using assms(4) b .
  moreover have "case fst (items ! i) of
      Inr m \<Rightarrow> dec_batch W (enc_batch W (batches ! i)) = Some m
    | Inl _ \<Rightarrow> decode_limit d < frame_len W (enc_batch W (batches ! i)) \<or> dec_batch W (enc_batch W (batches ! i)) = None"
    using assms(2) i len by (auto simp: reads_of_def split: sum.splits)
  ultimately have "fst (items ! i) = Inr (batches ! i)" by (auto split: sum.splits)
  then show "items ! i = zip (map Inr (take (length items) batches)) (map snd items) ! i"
    using i len by (simp add: prod_eq_iff)
qed

lemma readable_all:
  "length alive = length batches \<Longrightarrow> readable_batches (zip (map Inr batches) alive) = zip batches alive"
  by (induction alive batches rule: list_induct2) (simp_all add: readable_batches_def)

text \<open>The client of a completed stream reads the answers up to the first status, for reads that go on until then.\<close>

lemma stream_through:
  assumes wire: "wire_documented W" and served: "streaming_served W completes d e serve"
    and called: "streaming_called W completes channel call"
    and channel: "channel \<lparr>uri_path = path, req_body = map (enc_batch W) (into_inner req)\<rparr> =
      serve f \<lparr>uri_path = path, req_body = map (enc_batch W) (into_inner req)\<rparr>"
    and completed: "completes path x" and typed: "list_all typed_batch (into_inner req)"
    and fits: "\<And>b. b \<in> set (into_inner req) \<Longrightarrow> frame_len W (enc_batch W b) \<le> decode_limit d"
    and run: "\<And>items. f (request_new items) x = (Inr (answers items), after items)"
    and reply: "\<And>k alive. k \<le> length (into_inner req) \<Longrightarrow> length alive = k \<Longrightarrow>
      list_all (typed_reply typed_ack) (answers (zip (map Inr (take k (into_inner req))) alive)) \<and>
      list_all (fitting W (enc_ack W) e) (answers (zip (map Inr (take k (into_inner req))) alive))"
  shows "\<exists>k alive. k \<le> length (into_inner req) \<and> length alive = k \<and>
    (let items = zip (map Inr (take k (into_inner req))) alive in
       goes_on (map (enc_batch W) (into_inner req)) items (answers items) \<and>
       call req path x = (Inr (until_status (answers items)), after items))"
proof -
  let ?req = "\<lparr>uri_path = path, req_body = map (enc_batch W) (into_inner req)\<rparr>"
  have "completes (uri_path ?req) x" using completed by simp
  from served [unfolded streaming_served_def, THEN spec [of _ f], THEN spec [of _ ?req], THEN spec [of _ x], THEN mp, OF this]
  obtain items where items: "reads_of W d (req_body ?req) items"
    and serve: "\<forall>answers x'. f (request_new items) x = (Inr answers, x') \<longrightarrow>
       list_all (typed_reply typed_ack) answers \<longrightarrow> list_all (fitting W (enc_ack W) e) answers \<longrightarrow>
       goes_on (req_body ?req) items answers \<and> (\<exists>resp. serve f ?req x = (resp, x') \<and> stream_response W answers resp)"
    by (elim exE conjE)
  have len: "length items \<le> length (into_inner req)" using items by (simp add: reads_of_def)
  have shape: "items = zip (map Inr (take (length items) (into_inner req))) (map snd items)"
    using reads_of_encoded [OF wire _ typed fits] items by simp
  have replies: "list_all (typed_reply typed_ack) (answers items)" "list_all (fitting W (enc_ack W) e) (answers items)"
    using reply [OF len, of "map snd items"] by (simp_all flip: shape)
  obtain resp where goes: "goes_on (req_body ?req) items (answers items)"
    and resp: "serve f ?req x = (resp, after items)" "stream_response W (answers items) resp"
    using serve [rule_format, OF run replies] by auto
  let ?acks = "map projr (takeWhile is_ok (answers items))"
  let ?tail = "case dropWhile is_ok (answers items) of [] \<Rightarrow> [] | r # _ \<Rightarrow> [Inl (projl r)]"
  have body: "resp_body resp = map (enc_ack W) ?acks" "read_status W (resp_headers resp) = None"
    using resp(2) by (simp_all add: stream_response_def comp_def)
  have sent: "typed_ack a \<and> frame_len W (enc_ack W a) \<le> decode_limit None" if "a \<in> set ?acks" for a
  proof -
    from that have "Inr a \<in> set (answers items)" by (auto simp: is_ok_def dest: set_takeWhileD split: sum.splits)
    with replies show ?thesis by (auto simp: list_all_iff fitting_def)
  qed
  then have "map (dec_ack W) (resp_body resp) = map Some ?acks"
    using wire unfolding body by (auto simp: wire_documented_def)
  moreover have "\<forall>b\<in>set (resp_body resp). frame_len W b \<le> decode_limit None"
    unfolding body using sent by auto
  moreover have "case read_status W (resp_trailers resp) of None \<Rightarrow> False
      | Some st \<Rightarrow> ?tail = (if code st = Ok_code then [] else [Inl st])"
  proof (cases "dropWhile is_ok (answers items)")
    case Nil
    with resp(2) show ?thesis by (auto simp: stream_response_def ends_ok_def simp del: dropWhile_eq_Nil_conv)
  next
    case (Cons r rs)
    then have "\<not> is_ok r" "r \<in> set (answers items)"
      by (metis hd_dropWhile list.distinct(1) list.sel(1), metis set_dropWhileD list.set_intros(1))
    then have "\<exists>st. r = Inl st \<and> code st \<noteq> Ok_code"
      using replies(1) by (auto simp: not_is_ok_iff list_all_iff typed_status_def)
    with Cons resp(2) show ?thesis by (auto simp: stream_response_def)
  qed
  moreover have "channel ?req x = (resp, after items)" using resp(1) channel by simp
  ultimately have "call req path x = (Inr (map Inr ?acks @ ?tail), after items)"
    using called typed completed body(2) unfolding streaming_called_def by blast
  then have "call req path x = (Inr (until_status (answers items)), after items)" by (simp add: until_status_alt)
  with goes len show ?thesis
    by (intro exI [of _ "length items"] exI [of _ "map snd items"]) (simp add: Let_def flip: shape)
qed

text \<open>The answers to the leading batches of a stream, as long as these can be transformed and are listened to.\<close>

lemma stream_prefix:
  assumes "j \<le> length batches" and "length alive = length batches" and "\<And>m. m < j \<Longrightarrow> alive ! m"
    and "\<And>m. m < j \<Longrightarrow> is_ok (process_batch_with_registry (batches ! m) (svc_registry g))"
  shows "\<exists>acks rest. fst (stream_events (zip batches alive) g) = map Inr acks @ rest \<and> length acks = j \<and>
    (\<forall>m<j. event_ids (acks ! m) = map ev_id (batch_events (svc_registry g) (batches ! m))) \<and>
    (j = length batches \<longrightarrow> rest = []) \<and>
    (\<forall>st. j < length batches \<longrightarrow> alive ! j \<longrightarrow> process_batch_with_registry (batches ! j) (svc_registry g) = Inl st \<longrightarrow>
       (\<exists>rs. rest = Inl st # rs))"
  using assms
proof (induction j arbitrary: batches alive g)
  case 0
  show ?case
  proof (cases batches)
    case (Cons b bs)
    with 0 obtain l ls where "alive = l # ls" by (cases alive) auto
    with Cons show ?thesis
      by (intro exI [of _ "[]"] exI [of _ "fst (stream_events (zip batches alive) g)"])
        (auto simp: stream_batch_def split: prod.splits)
  qed (use 0 in simp)
next
  case (Suc j)
  then obtain b bs l ls where split: "batches = b # bs" "alive = l # ls" by (cases batches; cases alive) auto
  from Suc.prems(3) [of 0] split have l: "l" by simp
  from Suc.prems(4) [of 0] split obtain events where ev: "process_batch_with_registry b (svc_registry g) = Inr events"
    by (auto simp: is_ok_def split: sum.splits)
  obtain ack g1 where step: "stream_batch b g = (Inr ack, g1)" and ids: "event_ids ack = map ev_id events"
    and reg: "svc_registry g1 = svc_registry g"
    using ev by (cases "events = []") (auto simp: stream_batch_def make_ack_def Let_def)
  obtain acks rest where IH: "fst (stream_events (zip bs ls) g1) = map Inr acks @ rest" "length acks = j"
    "\<forall>m<j. event_ids (acks ! m) = map ev_id (batch_events (svc_registry g) (bs ! m))" "j = length bs \<longrightarrow> rest = []"
    "\<forall>st. j < length bs \<longrightarrow> ls ! j \<longrightarrow> process_batch_with_registry (bs ! j) (svc_registry g) = Inl st \<longrightarrow> (\<exists>rs. rest = Inl st # rs)"
    using Suc.IH [of bs ls g1, unfolded reg] Suc.prems(1,2) Suc.prems(3,4) [of "Suc m" for m] split by auto
  have "fst (stream_events (zip batches alive) g) = map Inr (ack # acks) @ rest"
    using split l step IH(1) by (auto split: prod.splits)
  moreover have "\<forall>m<Suc j. event_ids ((ack # acks) ! m) = map ev_id (batch_events (svc_registry g) (batches ! m))"
    using split ids ev IH(3) by (auto simp: nth_Cons batch_events_def split: nat.splits)
  ultimately show ?case using IH(2,4,5) split by (intro exI [of _ "ack # acks"] exI [of _ rest]) simp
qed

text \<open>Every answer of the loop is what a batch of the stream calls for.\<close>

lemma stream_answers:
  "r \<in> set (fst (stream_events stream g)) \<Longrightarrow>
   \<exists>b\<in>fst ` set stream. (case process_batch_with_registry b (svc_registry g) of
      Inl st \<Rightarrow> r = Inl st | Inr events \<Rightarrow> (\<exists>buf. r = Inr (make_ack (map ev_id events) buf)))"
proof (induction stream g rule: stream_events.induct)
  case (2 batch listening stream g)
  obtain a g1 where step: "stream_batch batch g = (a, g1)" by fastforce
  then have reg: "svc_registry g1 = svc_registry g"
    by (auto simp: stream_batch_def Let_def split: sum.splits if_splits)
  have a: "case process_batch_with_registry batch (svc_registry g) of
      Inl st \<Rightarrow> a = Inl st | Inr events \<Rightarrow> (\<exists>buf. a = Inr (make_ack (map ev_id events) buf))"
    using step by (auto simp: stream_batch_def Let_def split: sum.splits if_splits)
  show ?case
  proof (cases "r = a")
    case True
    with a show ?thesis by auto
  next
    case False
    with 2 step have "\<not> (\<not> listening \<and> is_ok a)" "r \<in> set (fst (stream_events stream g1))"
      by (auto split: prod.splits if_splits)
    with 2(1) [OF step [symmetric]] reg show ?thesis by auto
  qed
qed simp

lemma process_batch_code: "process_batch_with_registry b registry = Inl st \<Longrightarrow> code st = Unimplemented"
  by (auto simp: process_batch_with_registry_def mk_status_def Let_def split: option.splits batch_payload.splits sum.splits)

text \<open>The reads of a stream that goes on as long as only messages have been answered.\<close>

lemma goes_on_prefix:
  assumes goes: "goes_on (map enc batches) (zip (map Inr (take k batches)) alive) (fst (stream_events (zip (take k batches) alive) g))"
    and k: "k \<le> length batches" "length alive = k" and "j < length batches"
    and "\<And>m. m < j \<Longrightarrow> is_ok (process_batch_with_registry (batches ! m) (svc_registry g))"
  shows "j < k \<and> alive ! j"
  using assms(4,5)
proof (induction j rule: less_induct)
  case (less j)
  let ?answers = "fst (stream_events (zip (take k batches) alive) g)"
  have before: "m < k \<and> alive ! m" if "m < j" for m
    using less.IH [OF that] less.prems that by simp
  have "j \<le> k" using before [of "j - 1"] by (cases j) auto
  have "\<exists>acks rest. ?answers = map Inr acks @ rest \<and> length acks = j"
    using stream_prefix [of j "take k batches" alive g] before less.prems \<open>j \<le> k\<close> k by auto
  then obtain acks rest where "?answers = map Inr acks @ rest" "length acks = j" by blast
  then have "\<forall>m<j. m < length ?answers \<and> is_ok (?answers ! m)" by (simp add: nth_append)
  with goes less.prems(1) have "j < length (zip (map Inr (take k batches)) alive)"
    "snd (zip (map Inr (take k batches)) alive ! j)"
    unfolding goes_on_def by auto
  then show ?case by (simp add: k)
qed

lemma leading_ok: "m < length (takeWhile P xs) \<Longrightarrow> P (xs ! m)"
  by (metis nth_mem set_takeWhileD takeWhile_nth)

text \<open>Both sides of a stream that goes on: what the client reads of the answers, and what the service has stored.\<close>

lemma goes_on_answers:
  fixes g :: GatewayService and bs :: "IngestBatch list"
  defines "i \<equiv> length (takeWhile (\<lambda>b. is_ok (process_batch_with_registry b (svc_registry g))) bs)"
  assumes goes: "goes_on (map enc bs) (zip (map Inr (take k bs)) alive) (fst (stream_events (zip (take k bs) alive) g))"
    and k: "k \<le> length bs" "length alive = k" and wf: "rb_wf (svc_buffer g)"
  shows "\<exists>acked n. until_status (fst (stream_events (zip (take k bs) alive) g)) =
      map Inr acked @ (if i < length bs then [Inl (projl (process_batch_with_registry (bs ! i) (svc_registry g)))] else []) \<and>
    length acked = i \<and> (\<forall>j<i. event_ids (acked ! j) = map ev_id (batch_events (svc_registry g) (bs ! j))) \<and>
    min (Suc i) (length bs) \<le> n \<and> n \<le> length bs \<and>
    messages (svc_buffer (snd (stream_events (zip (take k bs) alive) g))) =
      messages (rb_put (map message_from_event (concat (map (batch_events (svc_registry g)) (take n bs)))) (svc_buffer g))"
proof -
  let ?result = "\<lambda>b. process_batch_with_registry b (svc_registry g)"
  have i: "i \<le> length bs" by (simp add: i_def length_takeWhile_le)
  have ok: "is_ok (?result (bs ! m))" if "m < i" for m using that leading_ok i_def by blast
  have seen: "j < k \<and> alive ! j" if "j \<le> i" "j < length bs" for j
    using goes_on_prefix [OF goes k that(2)] ok that(1) by simp
  have ik: "i \<le> k" using seen [of "i - 1"] i by (cases i) auto
  have take: "take k bs ! m = bs ! m" if "m < k" for m using that k by simp
  obtain acked rest where acked: "fst (stream_events (zip (take k bs) alive) g) = map Inr acked @ rest" "length acked = i"
    "\<forall>m<i. event_ids (acked ! m) = map ev_id (batch_events (svc_registry g) (take k bs ! m))" "i = length (take k bs) \<longrightarrow> rest = []"
    "\<forall>st. i < length (take k bs) \<longrightarrow> alive ! i \<longrightarrow> ?result (take k bs ! i) = Inl st \<longrightarrow> (\<exists>rs. rest = Inl st # rs)"
    using stream_prefix [of i "take k bs" alive g] ik k seen ok i by auto
  have tail: "until_status rest = (if i < length bs then [Inl (projl (?result (bs ! i)))] else [])"
  proof (cases "i < length bs")
    case True
    then have "\<not> is_ok (?result (bs ! i))" using nth_length_takeWhile [of "\<lambda>b. is_ok (?result b)" bs] by (simp add: i_def)
    then obtain st where "?result (bs ! i) = Inl st" by (auto simp: not_is_ok_iff)
    with True acked(5) seen [of i] take show ?thesis by auto
  next
    case False
    with i ik k acked(4) show ?thesis by simp
  qed
  obtain n where n: "n \<le> k"
    "messages (svc_buffer (snd (stream_events (zip (take k bs) alive) g))) = messages (rb_put (map message_from_event
       (concat (map (\<lambda>b. batch_events (svc_registry g) (fst b)) (take n (zip (take k bs) alive))))) (svc_buffer g))"
    "\<forall>j\<le>k. (\<forall>m<j. alive ! m) \<longrightarrow> j \<le> n"
    using stream_events_effect [OF wf surjective_pairing, of "zip (take k bs) alive"] k by (auto simp: Let_def)
  have "map (\<lambda>b. batch_events (svc_registry g) (fst b)) (take n (zip (take k bs) alive)) = map (batch_events (svc_registry g)) (take n bs)"
    using k n(1) by (simp add: take_zip map_fst_zip min_def flip: map_map [unfolded comp_def])
  moreover have "min (Suc i) (length bs) \<le> n"
  proof -
    have "min (Suc i) (length bs) \<le> k" using seen [of i] ik i by (auto simp: min_def)
    moreover have "\<forall>m<min (Suc i) (length bs). alive ! m" using seen by simp
    ultimately show ?thesis using n(3) by blast
  qed
  ultimately show ?thesis
    using acked(1-3) tail n(1,2) k ik take by (intro exI [of _ acked] exI [of _ n]) auto
qed

text \<open>The replies of the loop can be sent when the batches are what they have to be.\<close>

lemma stream_replies:
  assumes "\<And>b st. b \<in> set bs \<Longrightarrow> process_batch_with_registry b (svc_registry g) = Inl st \<Longrightarrow> utf8_valid (status_message st)"
    and "\<And>b e. b \<in> set bs \<Longrightarrow> e \<in> set (batch_events (svc_registry g) b) \<Longrightarrow> utf8_valid (ev_id e)"
    and "\<And>b buf. b \<in> set bs \<Longrightarrow> frame_len W (enc_ack W (make_ack (map ev_id (batch_events (svc_registry g) b)) buf)) \<le>
      min (encode_limit e) (decode_limit None)"
    and "r \<in> set (fst (stream_events (zip (take k bs) alive) g))"
  shows "typed_reply typed_ack r \<and> fitting W (enc_ack W) e r"
proof -
  obtain b where b: "b \<in> set bs" "case process_batch_with_registry b (svc_registry g) of Inl st \<Rightarrow> r = Inl st
      | Inr events \<Rightarrow> (\<exists>buf. r = Inr (make_ack (map ev_id events) buf))"
    using stream_answers [OF assms(4)] by (metis imageE in_set_takeD prod.collapse set_zip_leftD)
  show ?thesis
    using b(2) assms(1-3) [OF b(1)] process_batch_code [of b "svc_registry g"]
    by (auto simp: batch_events_def typed_status_def fitting_def list_all_iff split: sum.splits)
qed

text \<open>C12. A stream over the wire, in a call that the transport completes: the channel is ready, the batches are what their Rust types allow and within the
  decoding limit of the server, and what they are answered with is likewise of its Rust types and within the limits of both sides. Let the first \<open>i\<close> batches be those before the
  first that cannot be transformed, or all. The client reads an acknowledgement of the events of each of
  these, in order, and then the status of the batch that cannot be transformed, if there is one, and no more. The service has
  handled the first \<open>n\<close> batches, with \<open>n\<close> at least \<open>i\<close>, and at least \<open>i + 1\<close> when there is a status: its buffer holds the newest of what it held and
  their events, in order. So without a status \<open>n\<close> is the length of the stream; with one, the loop of the service may have gone on,
  and how many of the later batches it has stored does not show in what the client reads.\<close>

theorem stream_over_wire:
  fixes CL :: "('t, 'g, 'c, 'x Served) ClientLib" and s :: "'x Served" and srv :: "(nat, 'e) GatewayServer" and bs :: "IngestBatch list"
  defines "g \<equiv> cells s (gs_inner srv)"
  defines "i \<equiv> length (takeWhile (\<lambda>b. is_ok (process_batch_with_registry b (svc_registry g))) bs)"
  assumes wire: "wire_documented W" and server: "server_documented W completes SL srv"
    and client: "client_documented W completes (gateway_call SL (gateway_service_impl E) srv) CL t"
    and ready: "grpc_ready CL (grpc_client_new CL t) pre = (None, s)" and completed: "completes ''/polku.v1.Gateway/StreamEvents'' s"
    and wf: "rb_wf (svc_buffer g)" and typed: "list_all typed_batch bs"
    and statuses: "\<forall>b\<in>set bs. \<forall>st. process_batch_with_registry b (svc_registry g) = Inl st \<longrightarrow> utf8_valid (status_message st)"
    and ids: "\<forall>b\<in>set bs. \<forall>e\<in>set (batch_events (svc_registry g) b). utf8_valid (ev_id e)"
    and fits: "\<forall>b\<in>set bs. frame_len W (enc_batch W b) \<le> decode_limit (max_decoding_message_size srv)"
    and acks: "\<forall>b\<in>set bs. \<forall>buf. frame_len W (enc_ack W (make_ack (map ev_id (batch_events (svc_registry g) b)) buf)) \<le>
      min (encode_limit (max_encoding_message_size srv)) (decode_limit None)"
  shows "\<exists>acked g' n. client_stream_events CL (client_new CL t) (request_new bs) pre =
      (Inr (map Inr acked @ (if i < length bs then [Inl (projl (process_batch_with_registry (bs ! i) (svc_registry g)))] else [])),
       set_cell (gs_inner srv) g' s) \<and>
    length acked = i \<and> (\<forall>j<i. event_ids (acked ! j) = map ev_id (batch_events (svc_registry g) (bs ! j))) \<and>
    min (Suc i) (length bs) \<le> n \<and> n \<le> length bs \<and>
    messages (svc_buffer g') =
      messages (rb_put (map message_from_event (concat (map (batch_events (svc_registry g)) (take n bs)))) (svc_buffer g))"
proof -
  let ?req = "(request_new bs)\<lparr>grpc_method := Some (''polku.v1.Gateway'', ''StreamEvents'')\<rparr>"
  let ?path = "''/polku.v1.Gateway/StreamEvents''" and ?result = "\<lambda>b. process_batch_with_registry b (svc_registry g)"
  let ?call = "grpc_streaming CL (grpc_client_new CL t)" and ?f = "gateway_stream_events (gateway_service_impl E) (gs_inner srv)"
  have req: "into_inner ?req = bs" by (simp add: request_new_def)
  have served: "streaming_served W completes (max_decoding_message_size srv) (max_encoding_message_size srv)
      (serve_streaming SL (server_grpc SL srv))"
    and called: "streaming_called W completes (gateway_call SL (gateway_service_impl E) srv) ?call"
    using server client by (simp_all add: server_documented_def client_documented_def)
  define answers where "answers = (\<lambda>items. fst (stream_events (readable_batches items) g))"
  define after where "after = (\<lambda>items. set_cell (gs_inner srv) (snd (stream_events (readable_batches items) g)) s)"
  have run: "?f (request_new items) s = (Inr (answers items), after items)" for items
    by (simp add: gateway_service_impl_def request_new_def answers_def after_def g_def case_prod_beta)
  have reply: "list_all (typed_reply typed_ack) (answers (zip (map Inr (take k (into_inner ?req))) alive)) \<and>
      list_all (fitting W (enc_ack W) (max_encoding_message_size srv)) (answers (zip (map Inr (take k (into_inner ?req))) alive))"
    if "k \<le> length (into_inner ?req)" "length alive = k" for k alive
  proof -
    have "typed_reply typed_ack r \<and> fitting W (enc_ack W) (max_encoding_message_size srv) r"
      if "r \<in> set (fst (stream_events (zip (take k bs) alive) g))" for r
      by (rule stream_replies [OF _ _ _ that]) (use statuses ids acks in auto)
    moreover have "readable_batches (zip (map Inr (take k bs)) alive) = zip (take k bs) alive"
      by (rule readable_all) (use that req in simp)
    ultimately show ?thesis by (simp only: answers_def req) (auto simp: list_all_iff)
  qed
  have "\<exists>k alive. k \<le> length bs \<and> length alive = k \<and> (let items = zip (map Inr (take k bs)) alive in
      goes_on (map (enc_batch W) bs) items (answers items) \<and>
      ?call ?req ?path s = (Inr (until_status (answers items)), after items))"
    by (rule stream_through [OF wire served called gateway_call_paths(1), where req = ?req and answers = answers and after = after,
        OF completed _ _ run reply, unfolded req, OF typed]) (use fits in auto)
  then obtain k alive where k: "k \<le> length bs" "length alive = k"
    and body: "let items = zip (map Inr (take k bs)) alive in goes_on (map (enc_batch W) bs) items (answers items) \<and>
      ?call ?req ?path s = (Inr (until_status (answers items)), after items)"
    by (elim exE conjE)
  have "readable_batches (zip (map Inr (take k bs)) alive) = zip (take k bs) alive"
    by (rule readable_all) (use k in simp)
  with body have goes: "goes_on (map (enc_batch W) bs) (zip (map Inr (take k bs)) alive) (fst (stream_events (zip (take k bs) alive) g))"
    and call: "?call ?req ?path s = (Inr (until_status (fst (stream_events (zip (take k bs) alive) g))),
        set_cell (gs_inner srv) (snd (stream_events (zip (take k bs) alive) g)) s)"
    by (simp_all add: Let_def answers_def after_def)
  have client: "client_stream_events CL (client_new CL t) (request_new bs) pre = ?call ?req ?path s"
    using ready by (simp add: client_stream_events_def client_new_def)
  from goes_on_answers [OF goes k wf, folded i_def] obtain acked n where
    "until_status (fst (stream_events (zip (take k bs) alive) g)) =
      map Inr acked @ (if i < length bs then [Inl (projl (process_batch_with_registry (bs ! i) (svc_registry g)))] else [])"
    and rest: "length acked = i" "\<forall>j<i. event_ids (acked ! j) = map ev_id (batch_events (svc_registry g) (bs ! j))"
      "min (Suc i) (length bs) \<le> n" "n \<le> length bs" "messages (svc_buffer (snd (stream_events (zip (take k bs) alive) g))) =
      messages (rb_put (map message_from_event (concat (map (batch_events (svc_registry g)) (take n bs)))) (svc_buffer g))"
    by (elim exE conjE)
  then show ?thesis
    unfolding client call
    by (intro exI [of _ acked] exI [of _ "snd (stream_events (zip (take k bs) alive) g)"] exI [of _ n]) simp
qed

text \<open>A closed instance, in which the service has stored the third batch although the client reads nothing after the status of the second.\<close>

abbreviation good_batch :: IngestBatch where
  "good_batch \<equiv> \<lparr>batch_source = ''s'', batch_cluster = ''c'', batch_body = Some (Batch_Events \<lparr>payload_events = [sample_event]\<rparr>)\<rparr>"

abbreviation bad_batch :: IngestBatch where
  "bad_batch \<equiv> \<lparr>batch_source = ''s'', batch_cluster = ''c'', batch_body = Some (Batch_Raw \<lparr>raw_data = [], raw_format = ''f''\<rparr>)\<rparr>"

lemma sample_batches:
  "process_batch_with_registry good_batch (svc_registry sample_gateway) = Inr [sample_event]"
  "\<exists>st. process_batch_with_registry bad_batch (svc_registry sample_gateway) = Inl st \<and> utf8_valid (status_message st)"
  "typed_batch good_batch" "typed_batch bad_batch"
  "length (put_batch good_batch) \<le> decode_limit None" "length (put_batch bad_batch) \<le> decode_limit None"
proof -
  show "process_batch_with_registry good_batch (svc_registry sample_gateway) = Inr [sample_event]"
    by (simp add: process_batch_with_registry_def)
  show "\<exists>st. process_batch_with_registry bad_batch (svc_registry sample_gateway) = Inl st \<and> utf8_valid (status_message st)"
    by (simp add: process_batch_with_registry_def gateway_service_new_def registry_transform_def registry_ingest_def
        plugin_registry_new_def mk_status_def transform_failed_text_def in_range_def)
  show "typed_batch good_batch" "typed_batch bad_batch"
    using sample_request(1) by (simp_all add: typed_batch_def in_range_def)
  show "length (put_batch good_batch) \<le> decode_limit None" "length (put_batch bad_batch) \<le> decode_limit None"
    by (simp_all add: put_batch_def batch_parts_def put_event_def event_parts_def enc_pair_def enc_string_def
        enc_option_def enc_sum_def enc_list_def map_entries_def message_with_id_def event_from_message_def enc_word_def
        enc_nat.simps decode_limit_def)
qed

lemma sample_stream_stores:
  "messages (svc_buffer (cells (snd (client_stream_events sample_client (client_new sample_client sample_channel)
      (request_new [good_batch, bad_batch, good_batch]) (sample_served sample_gateway))) 0)) =
    [sample_message ''m'', sample_message ''m'']"
proof -
  have reads: "plain_read None (put_batch good_batch) = Inr good_batch" "plain_read None (put_batch bad_batch) = Inr bad_batch"
    using sample_batches(3-6) by (simp_all add: plain_read_def whole_codec [OF codec_batch])
  obtain st where bad: "process_batch_with_registry bad_batch (svc_registry sample_gateway) = Inl st"
    using sample_batches(2) by blast
  let ?stream = "[(good_batch, True), (bad_batch, True), (good_batch, True)]"
  have "messages (svc_buffer (snd (stream_events ?stream sample_gateway))) = [sample_message ''m'', sample_message ''m'']"
    using stream_events_effect [OF sample_gateway_room(1) surjective_pairing, of ?stream] sample_batches(1) bad sample_gateway_room
    by (auto simp: Let_def batch_events_def messages_push simp del: stream_events.simps)
  then show ?thesis
    by (simp add: client_stream_events_def client_new_def plain_stream_call_def gateway_call_def plain_streaming_def reads
        request_new_def gateway_service_impl_def readable_batches_def case_prod_beta body_then_def
        del: stream_events.simps split: option.splits)
qed

theorem stream_over_wire_witness:
  "\<exists>ack st s'. client_stream_events sample_client (client_new sample_client sample_channel)
      (request_new [good_batch, bad_batch, good_batch]) (sample_served sample_gateway) = (Inr [Inr ack, Inl st], s') \<and>
    event_ids ack = [ev_id sample_event] \<and>
    messages (svc_buffer (cells s' 0)) = [sample_message ''m'', sample_message ''m'']"
proof -
  let ?s = "sample_served sample_gateway" and ?bs = "[good_batch, bad_batch, good_batch]" and ?reg = "svc_registry sample_gateway"
  obtain st where process: "process_batch_with_registry good_batch ?reg = Inr [sample_event]"
    "process_batch_with_registry bad_batch ?reg = Inl st" "utf8_valid (status_message st)"
    using sample_batches(1,2) by blast
  have events: "batch_events ?reg good_batch = [sample_event]" "batch_events ?reg bad_batch = []"
    using process by (simp_all add: batch_events_def)
  have acks: "\<forall>b\<in>set ?bs. \<forall>buf. length (put_ack (make_ack (map ev_id (batch_events ?reg b)) buf)) \<le>
      min (encode_limit None) (decode_limit None)"
    using sample_ack_fits length_put_ack [of "[]", THEN order_trans]
    by (auto simp: events enc_list_def enc_nat.simps encode_limit_def decode_limit_def)
  have typed: "list_all typed_batch ?bs" using sample_batches(3,4) by simp
  have fits: "\<forall>b\<in>set ?bs. length (put_batch b) \<le> decode_limit None" using sample_batches(5,6) by auto
  have statuses: "\<forall>b\<in>set ?bs. \<forall>st'. process_batch_with_registry b ?reg = Inl st' \<longrightarrow> utf8_valid (status_message st')"
    using process by auto
  have ids: "\<forall>b\<in>set ?bs. \<forall>e\<in>set (batch_events ?reg b). utf8_valid (ev_id e)"
    using sample_request(1) by (auto simp: events typed_event_def)
  have i: "length (takeWhile (\<lambda>b. is_ok (process_batch_with_registry b ?reg)) ?bs) = 1" using process by simp
  have ready: "grpc_ready sample_client (grpc_client_new sample_client sample_channel) ?s = (None, ?s)" by simp
  note run = stream_over_wire [where W = plain_wire and CL = sample_client and SL = plain_server and srv = sample_server and s = ?s
      and pre = ?s and bs = ?bs and completes = "\<lambda>_ _. True" and E = sample_env and t = sample_channel,
      simplified sample_served_cell sample_server_fields plain_wire_fields, unfolded i, OF plain_wire_documented
      plain_server_documented plain_client_documented ready TrueI sample_gateway_room(1) typed statuses ids fits acks]
  let ?call = "client_stream_events sample_client (client_new sample_client sample_channel) (request_new ?bs) ?s"
  from run obtain acked where acked: "fst ?call = Inr (map Inr acked @ [Inl st])" "length acked = 1"
    "event_ids (acked ! 0) = [ev_id sample_event]"
    using process events by auto
  then obtain ack where "acked = [ack]" by (auto simp: length_Suc_conv)
  with acked(1,3) sample_stream_stores show ?thesis
    by (intro exI [of _ ack] exI [of _ st] exI [of _ "snd ?call"]) (simp add: prod_eq_iff)
qed

section \<open>Forwarding through the stubs\<close>

text \<open>The calls that the forwarder makes: the generated client on a channel.\<close>

definition stub_rpc :: "('t, 'g, 'c, 'x) ClientLib \<Rightarrow> 't \<Rightarrow> 'x Rpc \<Rightarrow> 'x Rpc" where
  "stub_rpc CL channel C =
     C\<lparr>rpc_send := (\<lambda>ingest. client_send_event CL (client_new CL channel) (request_new ingest)),
       rpc_health := client_health CL (client_new CL channel) (request_new HealthRequest)\<rparr>"

text \<open>A run of the forwarder seen through a projection of the state of the server.\<close>

definition project_server :: "('x \<Rightarrow> 'y) \<Rightarrow> 'x grpc_sys \<Rightarrow> 'y grpc_sys" where
  "project_server p s =
     \<lparr>server = p (server s), tasks = tasks s, awaiting = awaiting s, returned = returned s, calls = calls s\<rparr>"

lemma project_server_fields [simp]:
  "server (project_server p s) = p (server s)" "tasks (project_server p s) = tasks s"
  "awaiting (project_server p s) = awaiting s" "returned (project_server p s) = returned s"
  "calls (project_server p s) = calls s"
  by (simp_all add: project_server_def)

lemma project_start: "project_server p (grpc_start events x) = grpc_start events (p x)"
  by (simp add: project_server_def grpc_start_def)

lemma project_await:
  assumes "rpc_show_status D = rpc_show_status C"
  shows "project_server p (await_step C events s) = await_step D events (project_server p s)"
    and "await_step C events s \<noteq> s \<Longrightarrow> await_step D events (project_server p s) \<noteq> project_server p s"
proof -
  have join: "join_result D = join_result C"
    by (intro ext) (simp add: join_result_def assms split: task.splits sum.splits)
  show *: "project_server p (await_step C events s) = await_step D events (project_server p s)"
    by (simp add: await_step_def join project_server_def split: option.splits sum.splits)
  assume "await_step C events s \<noteq> s"
  then have "awaiting (await_step C events s) \<noteq> awaiting s \<or> returned (await_step C events s) \<noteq> returned s"
    by (auto simp: await_step_def split: option.splits sum.splits if_splits)
  then show "await_step D events (project_server p s) \<noteq> project_server p s"
    by (metis * project_server_fields(3,4))
qed

lemma grpc_step_project:
  assumes step: "grpc_step C events s t" and shown: "rpc_show_status D = rpc_show_status C"
    and send: "\<And>e x. e \<in> set events \<Longrightarrow>
      rpc_send D (forward_request e) (p x) = map_prod id p (rpc_send C (forward_request e) x)"
  shows "grpc_step D events (project_server p s) (project_server p t)"
proof -
  have finish: "project_server p (finish_task C events i outcome s) = finish_task D events i outcome (project_server p s)"
    if "i < length events" for i outcome
    using send [of "events ! i"] that by (simp add: finish_task_def project_server_def map_prod_def case_prod_beta)
  from step show ?thesis
  proof cases
    case (call i)
    then show ?thesis using grpc_step.call [of i events "project_server p s" D] finish by simp
  next
    case (time_out_early i st)
    then show ?thesis
      using grpc_step.time_out_early [of i events "project_server p s" D st] by (simp add: project_server_def)
  next
    case (time_out_late i st)
    then show ?thesis using grpc_step.time_out_late [of i events "project_server p s" D st] finish by simp
  next
    case (break_early i e)
    then show ?thesis
      using grpc_step.break_early [of i events "project_server p s" D e] by (simp add: project_server_def)
  next
    case (break_late i e)
    then show ?thesis using grpc_step.break_late [of i events "project_server p s" D e] finish by simp
  next
    case await
    then show ?thesis
      using grpc_step.await [of D events "project_server p s"] project_await [OF shown, where p = p and events = events and s = s] by simp
  qed
qed

lemma grpc_steps_project:
  assumes "(grpc_step C events)\<^sup>*\<^sup>* (grpc_start events x) s" and "rpc_show_status D = rpc_show_status C"
    and "\<And>e x. e \<in> set events \<Longrightarrow>
      rpc_send D (forward_request e) (p x) = map_prod id p (rpc_send C (forward_request e) x)"
  shows "(grpc_step D events)\<^sup>*\<^sup>* (grpc_start events (p x)) (project_server p s)"
  using assms(1)
proof (induction rule: rtranclp_induct)
  case base
  then show ?case by (simp add: project_start)
next
  case (step s t)
  from grpc_step_project [OF step(2) assms(2,3)] step.IH show ?case by (rule rtranclp.rtrancl_into_rtrancl [rotated])
qed

text \<open>One call of the forwarder, seen from the service in its cell: an error with or without the effect of the call, or its
  acknowledgement.\<close>

definition unhindered ::
    "'b Wire \<Rightarrow> (string \<Rightarrow> 'x \<Rightarrow> bool) \<Rightarrow> ('t, 'g, 'c, 'x) ClientLib \<Rightarrow> 't \<Rightarrow> ('a, 'e) GatewayServer \<Rightarrow> Event list \<Rightarrow> bool" where
  "unhindered W completes CL t srv events \<longleftrightarrow>
     (\<forall>x. fst (grpc_ready CL (grpc_client_new CL t) x) = None) \<and> (\<forall>x. completes ''/polku.v1.Gateway/SendEvent'' x) \<and>
     (\<forall>ev\<in>set events. frame_len W (enc_event W (forward_request ev)) \<le> decode_limit (max_decoding_message_size srv) \<and>
        (\<forall>buf. frame_len W (enc_ack W (make_ack [ev_id ev] buf)) \<le>
           min (encode_limit (max_encoding_message_size srv)) (decode_limit None)))"

lemma forwarded_reply:
  assumes "typed_event ev"
  shows "typed_ingest (forward_request ev)" and "typed_reply typed_ack (fst (send_event (forward_request ev) g))"
    and "(\<And>buf. frame_len W (enc_ack W (make_ack [ev_id ev] buf)) \<le> min (encode_limit e) (decode_limit None)) \<Longrightarrow>
      fitting W (enc_ack W) e (fst (send_event (forward_request ev) g))"
proof -
  show "typed_ingest (forward_request ev)"
    using assms by (simp add: typed_ingest_def forward_request_def typed_event_def)
  have "process_event (forward_request ev) g = Inr ev"
    by (simp add: process_event_def forward_request_def)
  then show "typed_reply typed_ack (fst (send_event (forward_request ev) g))"
    "(\<And>buf. frame_len W (enc_ack W (make_ack [ev_id ev] buf)) \<le> min (encode_limit e) (decode_limit None)) \<Longrightarrow>
      fitting W (enc_ack W) e (fst (send_event (forward_request ev) g))"
    using assms by (simp_all add: send_event_def Let_def case_prod_beta typed_event_def fitting_def in_range_def)
qed

lemma stub_send:
  fixes CL :: "('t, 'g, 'c, 'x Served) ClientLib" and srv :: "(nat, 'e) GatewayServer"
  assumes docs: "wire_documented W" "server_documented W completes SL srv"
      "client_documented W completes (gateway_call SL (gateway_service_impl E) srv) CL t"
    and ready: "cells (snd (grpc_ready CL (grpc_client_new CL t) x)) (gs_inner srv) = cells x (gs_inner srv)"
    and typed: "typed_event ev"
    and send: "rpc_send (stub_rpc CL t C) (forward_request ev) x = (r, y)"
  shows "(\<not> is_ok r \<and> cells y (gs_inner srv) = cells x (gs_inner srv)) \<or>
      (cells y (gs_inner srv) = snd (send_event (forward_request ev) (cells x (gs_inner srv))) \<and>
       (is_ok r \<longrightarrow> r = fst (send_event (forward_request ev) (cells x (gs_inner srv)))))"
    and "unhindered W completes CL t srv [ev] \<Longrightarrow> send_event (forward_request ev) (cells x (gs_inner srv)) = (r, cells y (gs_inner srv))"
proof -
  let ?a = "gs_inner srv" and ?m = "forward_request ev"
  have call: "client_send_event CL (client_new CL t) (request_new ?m) x = (r, y)"
    using send by (simp add: stub_rpc_def)
  show "(\<not> is_ok r \<and> cells y ?a = cells x ?a) \<or>
      (cells y ?a = snd (send_event ?m (cells x ?a)) \<and> (is_ok r \<longrightarrow> r = fst (send_event ?m (cells x ?a))))"
    and "unhindered W completes CL t srv [ev] \<Longrightarrow> send_event ?m (cells x ?a) = (r, cells y ?a)"
  proof -
    obtain e x1 where x1: "grpc_ready CL (grpc_client_new CL t) x = (e, x1)" by fastforce
    with ready have same: "cells x1 ?a = cells x ?a" by simp
    let ?local = "gateway_send_event (gateway_service_impl E) ?a (request_new ?m) x1"
    obtain lr g where lr: "send_event ?m (cells x ?a) = (lr, g)" by fastforce
    then have local: "?local = (lr, set_cell ?a g x1)"
      by (simp add: gateway_service_impl_def request_new_def same)
    have reply: "typed_reply typed_ack lr" using forwarded_reply(2) [OF typed, of "cells x ?a"] lr by simp
    note through = send_event_over_wire [OF docs, of x x1 ?m, unfolded local fst_conv, OF _ forwarded_reply(1) [OF typed] reply]
    have "(\<not> is_ok r \<and> cells y ?a = cells x ?a) \<or> (cells y ?a = g \<and> (is_ok r \<longrightarrow> r = lr))"
    proof (cases e)
      case None
      from through x1 None call show ?thesis by (auto simp: carried_def same)
    next
      case (Some err)
      with call x1 same show ?thesis by (auto simp: client_send_event_def client_new_def)
    qed
    then show "(\<not> is_ok r \<and> cells y ?a = cells x ?a) \<or>
      (cells y ?a = snd (send_event ?m (cells x ?a)) \<and> (is_ok r \<longrightarrow> r = fst (send_event ?m (cells x ?a))))" by (simp add: lr)
    assume free: "unhindered W completes CL t srv [ev]"
    then have "e = None" using x1 by (metis fst_conv unhindered_def)
    moreover have "fitting W (enc_ack W) (max_encoding_message_size srv) lr"
      using forwarded_reply(3) [OF typed, of W "max_encoding_message_size srv" "cells x ?a"] free lr by (simp add: unhindered_def)
    ultimately have "(r, y) = (lr, set_cell ?a g x1)"
      using through x1 call free by (simp add: carried_def unhindered_def)
    then show "send_event ?m (cells x ?a) = (r, cells y ?a)" by (simp add: lr)
  qed
qed

text \<open>C10. Two gateways in a row, joined by the generated client and server, over a transport that may lose calls. Suppose that waiting for the channel
  does not touch the downstream service, whose buffer is well formed, and that the events are what their Rust type allows. In every state of an emission, the
  downstream buffer has taken in, after what it held, the events of some of the calls made so far, each of them once and in the order in which the calls
  took effect; a call whose answer was lost may be among them. If the emission has returned success, these are all events of the batch, and
  nothing was evicted for them. And it does return success, once it has returned, if nothing hinders it: the channel is
  always ready, every call completes and no task breaks or times out, the events and their acknowledgements are within the size
  limits of both sides, and the buffer had room for the batch.\<close>

theorem grpc_into_gateway_over_wire:
  fixes CL :: "('t, 'g, 'c, 'x Served) ClientLib" and pre :: "'x Served" and srv :: "(nat, 'e) GatewayServer"
  defines "buffer \<equiv> \<lambda>s. svc_buffer (cells s (gs_inner srv))"
  assumes docs: "wire_documented W" "server_documented W completes SL srv"
      "client_documented W completes (gateway_call SL (gateway_service_impl E) srv) CL t"
    and ready: "\<forall>x. cells (snd (grpc_ready CL (grpc_client_new CL t) x)) (gs_inner srv) = cells x (gs_inner srv)"
    and typed: "\<forall>ev\<in>set events. typed_event ev" and wf: "rb_wf (buffer pre)"
    and reach: "(grpc_step (stub_rpc CL t C) events)\<^sup>*\<^sup>* (grpc_start events pre) s"
  shows "distinct (calls s) \<and> (\<exists>kept. subseq kept (calls s) \<and> messages (buffer (server s)) =
      messages (rb_put (map (\<lambda>i. message_from_event (events ! i)) kept) (buffer pre))) \<and>
    (returned s = Some (Inr ()) \<longrightarrow> mset (calls s) = mset [0..<length events] \<and>
      messages (buffer (server s)) = messages (buffer pre) @ map (\<lambda>i. message_from_event (events ! i)) (calls s)) \<and>
    (unhindered W completes CL t srv events \<and> length (messages (buffer pre)) + length events \<le> rb_capacity (buffer pre) \<and>
      (\<forall>i<length events. undisturbed (tasks s ! i)) \<and> returned s \<noteq> None \<longrightarrow> returned s = Some (Inr ()))"
proof -
  let ?p = "\<lambda>s :: 'x Served. cells s (gs_inner srv)" and ?C = "stub_rpc CL t C"
  note send = stub_send [OF docs ready [rule_format], where C = C]
  have lossy: "lossy_calls ?C ?p events"
    unfolding lossy_calls_def using send(1) typed by blast
  have wf': "rb_wf (svc_buffer (?p pre))" using wf by (simp add: buffer_def)
  have dist: "distinct (calls s)" using grpc_steps_inv [OF reach] by (simp add: grpc_inv_def)
  have free: "returned s = Some (Inr ())"
    if hyp: "unhindered W completes CL t srv events" "length (messages (buffer pre)) + length events \<le> rb_capacity (buffer pre)"
      "\<forall>i<length events. undisturbed (tasks s ! i)" "returned s = Some r" for r
  proof -
    define D where "D = gateway_rpc \<lparr>endpoint_error = (\<lambda>_. None), rpc_connect = (\<lambda>_ _ _ g. (None, g)), rpc_send = send_event,
       rpc_health = (\<lambda>g. (Inl (mk_status Unavailable []), g)), rpc_show_status = rpc_show_status C\<rparr>"
    have shown: "rpc_show_status D = rpc_show_status ?C" by (simp add: D_def gateway_rpc_def stub_rpc_def)
    have "rpc_send D (forward_request ev) (?p x) = map_prod id ?p (rpc_send ?C (forward_request ev) x)"
      if ev: "ev \<in> set events" for ev x
    proof -
      have "unhindered W completes CL t srv [ev]" using hyp(1) ev by (auto simp: unhindered_def)
      with send(2) [OF _ surjective_pairing, of ev x] typed ev show ?thesis
        by (simp add: D_def map_prod_def case_prod_beta)
    qed
    from grpc_steps_project [OF reach shown this]
    have "(grpc_step D events)\<^sup>*\<^sup>* (grpc_start events (?p pre)) (project_server ?p s)" by simp
    from grpc_into_gateway [OF _ _ this [unfolded D_def]] have "r = Inr ()"
      using wf' hyp by (simp add: buffer_def)
    with hyp(4) show ?thesis by simp
  qed
  show ?thesis
    using lossy_emission [OF lossy wf' reach] dist free unfolding buffer_def by blast
qed

text \<open>A forwarder on the plain libraries.\<close>

definition sample_stub_rpc :: "unit Served Rpc" where
  "sample_stub_rpc = stub_rpc sample_client sample_channel \<lparr>endpoint_error = (\<lambda>_. None), rpc_connect = (\<lambda>_ _ _ x. (None, x)),
     rpc_send = (\<lambda>_ x. (Inl (mk_status Unavailable []), x)), rpc_health = (\<lambda>x. (Inl (mk_status Unavailable []), x)),
     rpc_show_status = status_message\<rparr>"

theorem grpc_into_gateway_over_wire_witness:
  "\<exists>s :: unit Served grpc_sys. (grpc_step sample_stub_rpc [sample_event])\<^sup>*\<^sup>* (grpc_start [sample_event] (sample_served sample_gateway)) s \<and>
     returned s = Some (Inr ()) \<and> messages (svc_buffer (cells (server s) 0)) = [sample_message ''m'']"
proof -
  let ?pre = "sample_served sample_gateway" and ?s = "one_event_run sample_stub_rpc sample_event (sample_served sample_gateway)"
  let ?start = "grpc_start [sample_event] ?pre"
  note docs = plain_wire_documented plain_server_documented plain_client_documented
  have ready: "\<forall>x. cells (snd (grpc_ready sample_client (grpc_client_new sample_client sample_channel) x)) 0 = cells x 0" by simp
  have typed: "\<forall>ev\<in>set [sample_event]. typed_event ev" using sample_request(1) by simp
  have free: "unhindered plain_wire (\<lambda>_ _. True) sample_client sample_channel sample_server [sample_event]"
    using sample_request(3) sample_ack_fits by (simp add: unhindered_def)
  obtain r y where send: "rpc_send sample_stub_rpc (forward_request sample_event) ?pre = (r, y)" by fastforce
  have "send_event (forward_request sample_event) sample_gateway = (r, cells y 0)"
    using stub_send(2) [OF docs _ sample_request(1) send [unfolded sample_stub_rpc_def] free] by simp
  then have "is_ok (fst (rpc_send sample_stub_rpc (forward_request sample_event) ?pre))"
    using send sample_gateway_room(4) by (simp add: sample_rpc_def)
  note run = one_event_run [OF this]
  have "messages (svc_buffer (cells (server ?s) 0)) = [sample_message ''m'']"
    using grpc_into_gateway_over_wire [OF docs, where srv = sample_server and events = "[sample_event]" and pre = ?pre,
        OF _ typed _ run(1) [unfolded sample_stub_rpc_def]] run(2,3) sample_gateway_room
    by (simp add: sample_stub_rpc_def)
  with run(1,2) show ?thesis by blast
qed

end
