(* ===== verification/Build_Pipeline.thy ===== *)
theory Build_Pipeline
  imports Polku_Prelude
begin

text \<open>
  The programs around the gateway: the build script \<open>gateway/build.rs\<close> and the pipeline \<open>ci/src/main.rs\<close>. The build script prints
  instructions for Cargo and may call \<open>tonic_build\<close>, which with the file system is the parameter \<open>BuildLib\<close>. The pipeline is a sequence of calls on the builder of
  \<open>sykli\<close>; a call is a value here, and a task gets the calls that follow its creation.
\<close>

section \<open>The build script\<close>

record BuildConfig =
  build_server :: bool
  build_client :: bool
  out_dir :: string

record 'x BuildLib =
  path_exists :: "string \<Rightarrow> 'x \<Rightarrow> bool"
  compile_protos :: "BuildConfig \<Rightarrow> string list \<Rightarrow> string list \<Rightarrow> 'x \<Rightarrow> string option \<times> 'x"

text \<open>The lines printed, the result and the file system.\<close>

definition build_script :: "'x BuildLib \<Rightarrow> 'x \<Rightarrow> string list \<times> (string + unit) \<times> 'x" where
  "build_script L x =
     (let proto_root = ''../../proto'';
          proto_file = proto_root @ ''/polku/v1/gateway.proto'';
          rerun = ''cargo:rerun-if-changed='' @ proto_file
      in if \<not> path_exists L proto_file x
         then ([rerun, ''cargo:warning=Proto source not found, using pre-generated file''], Inr (), x)
         else (case compile_protos L \<lparr>build_server = True, build_client = True, out_dir = ''src/proto''\<rparr>
                  [proto_file] [proto_root] x of
                 (Some e, x) \<Rightarrow> ([rerun], Inl e, x)
               | (None, x) \<Rightarrow> ([rerun], Inr (), x)))"

text \<open>Without the source of the protocol the build succeeds and leaves the generated file as it is.\<close>

lemma build_script_without_proto:
  assumes "\<not> path_exists L ''../../proto/polku/v1/gateway.proto'' x"
  shows "snd (build_script L x) = (Inr (), x)"
  using assms by (simp add: build_script_def Let_def)

section \<open>The pipeline\<close>

datatype resource = Dir string | Cache string

datatype ci_call =
    Declare resource
  | Task string
  | Container string
  | Mount resource string
  | Mount_cache resource string
  | Workdir string
  | Run string
  | Inputs "string list"
  | Output string string
  | After "string list"
  | Emit

definition ci_main :: "ci_call list" where
  "ci_main =
     (let src = Dir ''.''; cargo_registry = Cache ''cargo-registry''; cargo_git = Cache ''cargo-git''; target_cache = Cache ''target'';
          with_cargo = [Container ''rust:1.85'', Mount src ''/src'', Mount_cache cargo_registry ''/usr/local/cargo/registry'',
            Mount_cache cargo_git ''/usr/local/cargo/git'']
      in [Declare src, Declare cargo_registry, Declare cargo_git, Declare target_cache] @
         [Task ''fmt''] @ with_cargo @
         [Workdir ''/src'', Run ''rustup component add rustfmt && cargo fmt --all --check'',
          Inputs [''**/*.rs'', ''Cargo.toml'']] @
         [Task ''clippy''] @ with_cargo @
         [Mount_cache target_cache ''/src/target'', Workdir ''/src'',
          Run ''apt-get update && apt-get install -y protobuf-compiler && rustup component add clippy && cargo clippy --all-targets -- -D warnings'',
          Inputs [''**/*.rs'', ''Cargo.toml'', ''Cargo.lock''], After [''fmt'']] @
         [Task ''test''] @ with_cargo @
         [Mount_cache target_cache ''/src/target'', Workdir ''/src'',
          Run ''apt-get update && apt-get install -y protobuf-compiler && cargo test --all'',
          Inputs [''**/*.rs'', ''**/*.toml'', ''Cargo.lock''], After [''clippy'']] @
         [Task ''build''] @ with_cargo @
         [Mount_cache target_cache ''/src/target'', Workdir ''/src'',
          Run ''apt-get update && apt-get install -y protobuf-compiler && cargo build --release'',
          Inputs [''**/*.rs'', ''**/*.toml'', ''Cargo.lock''], Output ''binary'' ''target/release/polku-gateway'', After [''test'']] @
         [Emit])"

text \<open>Whether every task waits for tasks created before it only, every mounted resource is declared before, and the
  pipeline is emitted at the end.\<close>

fun well_ordered :: "string list \<Rightarrow> resource list \<Rightarrow> ci_call list \<Rightarrow> bool" where
  "well_ordered tasks declared [] = False"
| "well_ordered tasks declared (call # calls) =
     (case call of
        Declare r \<Rightarrow> well_ordered tasks (r # declared) calls
      | Task name \<Rightarrow> name \<notin> set tasks \<and> well_ordered (name # tasks) declared calls
      | Mount r _ \<Rightarrow> r \<in> set declared \<and> well_ordered tasks declared calls
      | Mount_cache r _ \<Rightarrow> r \<in> set declared \<and> well_ordered tasks declared calls
      | After names \<Rightarrow> list_all (\<lambda>n. n \<in> set (tl tasks)) names \<and> well_ordered tasks declared calls
      | Emit \<Rightarrow> calls = []
      | _ \<Rightarrow> well_ordered tasks declared calls)"

lemma ci_main_well_ordered: "well_ordered [] [] ci_main"
  by (simp add: ci_main_def Let_def)

end
