(* ===== verification/Hub_Capture.thy ===== *)
theory Hub_Capture
  imports Hub Resilience
begin

text \<open>
  A hub and a destination behind a failure capture, put together: the flush loop of \<open>gateway/src/hub.rs\<close> drops a batch whose emission
  fails, and the capture of \<open>gateway/src/emit/resilience/failure_buffer.rs\<close> keeps the events of just these batches, or of each the first only, as
  it is configured. What is counted here are the deliveries the hub remembers, split by their result.
\<close>

definition emitted_to :: "bool \<Rightarrow> nat \<Rightarrow> 'x HubSys \<Rightarrow> Event list" where
  "emitted_to ok i s =
     concat (map (\<lambda>(_, events, _). events) (filter (\<lambda>(j, _, r). j = i \<and> is_ok r = ok) (deliveries s)))"

text \<open>What a capture keeps of a failed batch, and of all the batches that failed.\<close>

definition kept_of :: "FailureCaptureConfig \<Rightarrow> Event list \<Rightarrow> Event list" where
  "kept_of cfg events = (if store_full_batch cfg then events else take 1 events)"

definition kept_at :: "FailureCaptureConfig \<Rightarrow> nat \<Rightarrow> 'x HubSys \<Rightarrow> Event list" where
  "kept_at cfg i s =
     concat (map (\<lambda>(_, events, _). kept_of cfg events) (filter (\<lambda>(j, _, r). j = i \<and> \<not> is_ok r) (deliveries s)))"

lemma kept_at_full: "store_full_batch cfg \<Longrightarrow> kept_at cfg i s = emitted_to False i s"
  by (simp add: kept_at_def emitted_to_def kept_of_def)

definition captured_at :: "nat \<Rightarrow> 'x HubSys \<Rightarrow> Event list" where
  "captured_at a s = map failed_event (fb_events (failure_buffers (hub_world s) a))"

lemma mset_emitted: "mset (delivered_to i s) = mset (emitted_to True i s) + mset (emitted_to False i s)"
proof -
  have "mset (concat (map (\<lambda>(_, events, _). events) (filter (\<lambda>(j, _). j = i) ds))) =
      mset (concat (map (\<lambda>(_, events, _). events) (filter (\<lambda>(j, _, r). j = i \<and> is_ok r = True) ds))) +
      mset (concat (map (\<lambda>(_, events, _). events) (filter (\<lambda>(j, _, r). j = i \<and> is_ok r = False) ds)))"
    for ds :: "(nat \<times> Event list \<times> plugin_result) list"
    by (induction ds) auto
  then show ?thesis by (simp add: delivered_to_def emitted_to_def)
qed

text \<open>The capture is the emitter at place \<open>i\<close>, and no other part of the emitters writes its buffer.\<close>

definition sole_capture :: "nat \<Rightarrow> nat \<Rightarrow> FailureCaptureConfig \<Rightarrow> Emitter list \<Rightarrow> bool" where
  "sole_capture i a cfg ems \<longleftrightarrow> i < length ems \<and>
     (\<exists>inner. ems ! i = FailureCaptureEmitter a cfg inner \<and> a \<notin> set (capture_addrs inner)) \<and>
     (\<forall>j<length ems. j \<noteq> i \<longrightarrow> a \<notin> set (capture_addrs (ems ! j)))"

definition capture_inv :: "nat \<Rightarrow> nat \<Rightarrow> nat \<Rightarrow> FailureCaptureConfig \<Rightarrow> 'x HubSys \<Rightarrow> bool" where
  "capture_inv cap i a cfg s \<longleftrightarrow>
     (let b = failure_buffers (hub_world s) a; failed = kept_at cfg i s in
      fb_wf b \<and> fb_capacity b = cap \<and> total_captured b = of_nat (length failed) \<and>
      captured_at a s = drop (length failed - cap) failed)"

lemma capture_inv_frame:
  "hub_world t = hub_world s \<Longrightarrow> deliveries t = deliveries s \<Longrightarrow> capture_inv cap i a cfg t = capture_inv cap i a cfg s"
  by (simp add: capture_inv_def captured_at_def kept_at_def)

lemma map_failed_event:
  "map failed_event (failed_events cfg nm t e events) = kept_of cfg events"
  by (cases events) (simp_all add: failed_events_def kept_of_def comp_def)

lemma drop_of_drop: "drop (length (drop (length xs - c) xs) + length ys - c) (drop (length xs - c) xs @ ys) =
    drop (length (xs @ ys) - c) (xs @ ys)"
proof (cases "length xs \<le> c")
  case False
  then have "drop (length xs - c) xs @ ys = drop (length xs - c) (xs @ ys)" by simp
  moreover have "length ys + (length xs - c) = length (xs @ ys) - c" using False by simp
  ultimately show ?thesis using False by (simp del: drop_append)
qed simp

text \<open>A push of what is kept of a failed batch leaves the last \<open>cap\<close> events of all that was kept.\<close>

lemma capture_push:
  assumes "fb_wf b" and "map failed_event (fb_events b) = drop (length failed - fb_capacity b) failed"
    and "map failed_event es = events"
  shows "map failed_event (fb_events (failure_buffer_push es b)) =
    drop (length (failed @ events) - fb_capacity b) (failed @ events)"
proof -
  have "length (fb_events b) = length (drop (length failed - fb_capacity b) failed)"
    using arg_cong [OF assms(2), of length] by simp
  moreover have "length es = length events" using assms(3) by auto
  ultimately show ?thesis
    using drop_of_drop [of failed "fb_capacity b" events] assms(2,3)
    by (simp add: fb_events_push [OF assms(1)] drop_map [symmetric] del: drop_append)
qed

lemma emit_capture:
  assumes "a \<notin> set (capture_addrs inner)"
  shows "failure_buffers (snd (emit E (FailureCaptureEmitter a cfg inner) events w)) a =
    (case fst (emit E (FailureCaptureEmitter a cfg inner) events w) of
       Inr _ \<Rightarrow> failure_buffers w a
     | Inl e \<Rightarrow> failure_buffer_push (failed_events cfg (name_of E inner) (time_now (snd (emit E inner events w))) e events)
         (failure_buffers w a))"
  using failure_buffers_emit [OF assms, of E events w]
  by (cases "emit E inner events w") (auto simp: capture_emit_def split: sum.splits)

lemma emit_one_calls:
  assumes "emit E em (filter (event_routed_to (name_of E em)) events) (hub_world s) = (r, w)"
    and "filter (event_routed_to (name_of E em)) events \<noteq> []"
  shows "hub_world (emit_one E j em events s) = w"
    and "deliveries (emit_one E j em events s) = deliveries s @ [(j, filter (event_routed_to (name_of E em)) events, r)]"
  using assms by (cases r, simp_all add: emit_one_def Let_def)+

lemma emitted_to_snoc:
  "deliveries t = deliveries s @ [(j, events, r)] \<Longrightarrow>
   emitted_to ok i t = emitted_to ok i s @ (if j = i \<and> is_ok r = ok then events else [])"
  by (simp add: emitted_to_def)

lemma kept_at_snoc:
  "deliveries t = deliveries s @ [(j, events, r)] \<Longrightarrow>
   kept_at cfg i t = kept_at cfg i s @ (if j = i \<and> \<not> is_ok r then kept_of cfg events else [])"
  by (simp add: kept_at_def)

lemma capture_inv_emit_one:
  assumes "sole_capture i a cfg ems" and "j < length ems" and "capture_inv cap i a cfg s"
  shows "capture_inv cap i a cfg (emit_one E j (ems ! j) events s)"
proof -
  let ?routed = "filter (event_routed_to (name_of E (ems ! j))) events"
  obtain r w where rw: "emit E (ems ! j) ?routed (hub_world s) = (r, w)" by fastforce
  let ?t = "emit_one E j (ems ! j) events s"
  show ?thesis
  proof (cases "?routed = []")
    case True
    then have "?t = s" by (simp add: emit_one_def)
    with assms(3) show ?thesis by simp
  next
    case False
    note t = emit_one_calls [OF rw False, of j]
    let ?b = "failure_buffers (hub_world s) a"
    have inv: "fb_wf ?b" "fb_capacity ?b = cap" "total_captured ?b = of_nat (length (kept_at cfg i s))"
      "map failed_event (fb_events ?b) = drop (length (kept_at cfg i s) - cap) (kept_at cfg i s)"
      using assms(3) by (simp_all add: capture_inv_def captured_at_def Let_def)
    show ?thesis
    proof (cases "j = i \<and> \<not> is_ok r")
      case failed: True
      then obtain e where r: "r = Inl e" by (cases r) auto
      obtain inner where em: "ems ! j = FailureCaptureEmitter a cfg inner" "a \<notin> set (capture_addrs inner)"
        using assms(1) failed by (auto simp: sole_capture_def)
      let ?es = "failed_events cfg (name_of E inner) (time_now (snd (emit E inner ?routed (hub_world s)))) e ?routed"
      have es: "map failed_event ?es = kept_of cfg ?routed" by (rule map_failed_event)
      then have len: "length ?es = length (kept_of cfg ?routed)" by (metis length_map)
      have b: "failure_buffers w a = failure_buffer_push ?es ?b"
        using emit_capture [OF em(2), of E cfg ?routed "hub_world s"] rw r em(1) by (simp del: emit.simps)
      have "kept_at cfg i ?t = kept_at cfg i s @ kept_of cfg ?routed"
        using kept_at_snoc [OF t(2), of cfg i] failed by simp
      then show ?thesis
        using capture_push [OF inv(1) _ es, of "kept_at cfg i s"] inv b len t(1)
        by (simp add: capture_inv_def captured_at_def Let_def del: drop_append)
    next
      case fine: False
      have "failure_buffers w a = ?b"
      proof (cases "j = i")
        case True
        then obtain inner where em: "ems ! j = FailureCaptureEmitter a cfg inner" "a \<notin> set (capture_addrs inner)"
          using assms(1) by (auto simp: sole_capture_def)
        with emit_capture [OF em(2), of E cfg ?routed "hub_world s"] fine True rw show ?thesis
          by (simp del: emit.simps split: sum.splits)
      next
        case False
        then show ?thesis
          using failure_buffers_emit [of a "ems ! j" E ?routed "hub_world s"] assms(1,2) rw by (auto simp: sole_capture_def)
      qed
      moreover have "kept_at cfg i ?t = kept_at cfg i s"
        using kept_at_snoc [OF t(2), of cfg i] fine by auto
      ultimately show ?thesis using assms(3) t(1) by (simp add: capture_inv_def captured_at_def Let_def)
    qed
  qed
qed

lemma capture_inv_step:
  assumes "hub_step M E R s t" and "sole_capture i a cfg (runner_emitters R)" and "capture_inv cap i a cfg s"
  shows "capture_inv cap i a cfg t"
proof (cases "\<exists>events j. flusher s = Emitting events j \<and> j < length (runner_emitters R) \<and>
    t = (emit_one E j (runner_emitters R ! j) events s)\<lparr>flusher := Emitting events (Suc j)\<rparr>")
  case True
  then obtain events j where j: "j < length (runner_emitters R)"
    "t = (emit_one E j (runner_emitters R ! j) events s)\<lparr>flusher := Emitting events (Suc j)\<rparr>" by blast
  then show ?thesis
    using capture_inv_emit_one [OF assms(2) j(1) assms(3), of E events]
      capture_inv_frame [of t "emit_one E j (runner_emitters R ! j) events s" cap i a cfg] by simp
next
  case False
  with assms(1) have "hub_world t = hub_world s \<and> deliveries t = deliveries s"
  proof (cases rule: hub_step.cases)
    case (send texts msg)
    then show ?thesis by (auto simp: try_send_def split: if_splits)
  next
    case (receive c)
    then show ?thesis
      by (auto simp: hub_receive_def Let_def case_prod_beta split: list.splits sum.splits option.splits)
  next
    case flush
    with False show ?thesis by (auto simp: flush_step_def Let_def case_prod_beta split: flush_pc.splits)
  qed (simp_all add: hub_finish_def)
  with assms(3) capture_inv_frame [of t s cap i a cfg] show ?thesis by simp
qed

lemma capture_inv_steps:
  "(hub_step M E R)\<^sup>*\<^sup>* s t \<Longrightarrow> sole_capture i a cfg (runner_emitters R) \<Longrightarrow> capture_inv cap i a cfg s \<Longrightarrow> capture_inv cap i a cfg t"
  by (induction rule: rtranclp_induct) (auto intro: capture_inv_step)

text \<open>C4. What a failure capture makes good of the batches that the flush loop drops. Let the \<open>i\<close>-th emitter of a hub be a
  capture with a buffer of its own, of capacity \<open>c\<close>. Under every interleaving, its buffer holds exactly the last \<open>c\<close> of the
  events it kept, in order, and its counter has counted them all (modulo \<open>2 ^ 64\<close>): every event of each failed batch when it stores full batches, of each
  failed batch the first only when it does not, so that the others are lost. Of the messages drained and routed to the emitter, each is in a
  batch that was emitted, in one that failed, or in the batch in hand. So a capture that stores full batches loses nothing
  as long as its buffer and that of the hub suffice: when the hub has finished, nothing has overflowed and at most \<open>c\<close> events have failed,
  every message that came through the chain and is routed there was either emitted with success or is held by the capture, exactly once.\<close>

theorem hub_no_silent_loss:
  assumes "0 < hub_buffer_capacity hub" and "sole_capture i a cfg (hub_emitters hub)"
    and "failure_buffers w a = failure_buffer_new c" and "0 < c"
    and "(hub_step M E (hub_build hub))\<^sup>*\<^sup>* (hub_start register (hub_build hub) registered w) s"
  shows "captured_at a s = drop (length (kept_at cfg i s) - c) (kept_at cfg i s) \<and>
    total_captured (failure_buffers (hub_world s) a) = of_nat (length (kept_at cfg i s)) \<and>
    (store_full_batch cfg \<longrightarrow> kept_at cfg i s = emitted_to False i s) \<and>
    mset (emitted_to True i s) + mset (emitted_to False i s) + mset (in_hand E (hub_emitters hub) i s) =
      mset (filter (event_routed_to (name_of E (hub_emitters hub ! i))) (map event_from_message (drained_log s))) \<and>
    (store_full_batch cfg \<and> flusher s = Finished \<and> overflowed s = 0 \<and> length (emitted_to False i s) \<le> c \<longrightarrow>
      mset (emitted_to True i s) + mset (captured_at a s) =
        mset (filter (event_routed_to (name_of E (hub_emitters hub ! i))) (map event_from_message (passed_log s))))"
proof -
  let ?R = "hub_build hub" and ?start = "hub_start register (hub_build hub) registered w"
  have R: "runner_emitters ?R = hub_emitters hub" "0 < rb_capacity (runner_buffer ?R)" "messages (runner_buffer ?R) = []"
    using assms(1) by (simp_all add: hub_build_def ring_buffer_new_def)
  have "capture_inv c i a cfg ?start"
    using assms(3,4)
    by (simp add: capture_inv_def captured_at_def kept_at_def hub_start_def failure_buffer_new_def fb_wf_def Let_def)
  then have cap: "capture_inv c i a cfg s" using capture_inv_steps [OF assms(5)] assms(2) R(1) by simp
  have inv: "hub_inv M E ?R s" by (rule hub_steps_inv [OF assms(5) hub_inv_start [OF R(2,3)]])
  have "delivered_to i s @ in_hand E (hub_emitters hub) i s =
      filter (event_routed_to (name_of E (hub_emitters hub ! i))) (map event_from_message (drained_log s))"
    using inv assms(2) R(1) by (simp add: hub_inv_def delivery_inv_def sole_capture_def)
  then have all: "mset (emitted_to True i s) + mset (emitted_to False i s) + mset (in_hand E (hub_emitters hub) i s) =
      mset (filter (event_routed_to (name_of E (hub_emitters hub ! i))) (map event_from_message (drained_log s)))"
    by (metis mset_append mset_emitted)
  have "drained_log s = passed_log s \<and> in_hand E (hub_emitters hub) i s = []" if "flusher s = Finished" "overflowed s = 0"
    using inv that by (auto simp: hub_inv_def shutdown_inv_def buffer_inv_def in_hand_def subseq_same_length)
  with cap all show ?thesis by (auto simp: capture_inv_def Let_def kept_at_full)
qed

text \<open>The flush loop takes up a batch in two steps.\<close>

lemma flush_takes_batch:
  assumes "flusher s = Checking" and "messages (hub_buffer s) = m # ms" and "0 < bs"
  shows "flusher (flush_step E ems bs s) = Waiting"
    and "flusher (flush_step E ems bs (flush_step E ems bs s)) = Emitting (map event_from_message (take bs (m # ms))) 0"
    and "deliveries (flush_step E ems bs (flush_step E ems bs s)) = deliveries s"
  using assms by (simp_all add: flush_step_def ring_buffer_is_empty_def Let_def case_prod_beta)

text \<open>A hub whose only destination is down, behind a capture with room for ten events.\<close>

definition failing_hub :: Hub where
  "failing_hub = emitter_arc (FailureCaptureEmitter 4 failure_capture_config_default (Leaf 1)) hub_new"

theorem hub_no_silent_loss_witness:
  "\<exists>s. (hub_step sample_mw_env sample_env (hub_build failing_hub))\<^sup>*\<^sup>*
      (hub_start (\<lambda>_. None) (hub_build failing_hub) None sample_world) s \<and>
    emitted_to True 0 s = [] \<and> captured_at 4 s = [event_from_message (sample_message ''m'')]"
proof -
  let ?M = sample_mw_env and ?R = "hub_build failing_hub" and ?m = "sample_message ''m''"
  let ?c = "\<lparr>call_time = 0, call_wall = None, call_ulid = []\<rparr>" and ?em = "FailureCaptureEmitter 4 failure_capture_config_default (Leaf 1)"
  let ?start = "hub_start (\<lambda>_. None) ?R None sample_world"
  let ?sent = "snd (try_send ([], []) ?m ?start)" and ?f = "flush_step sample_env (runner_emitters ?R) (runner_batch_size ?R)"
  let ?got = "hub_receive ?M ?c ?sent"
  have R: "runner_emitters ?R = [?em]" "runner_batch_size ?R = 100" "hub_emitters failing_hub = [?em]"
    by (simp_all add: failing_hub_def small_hub_defs)
  have msg: "event_routed_to ''failure_capture'' (event_from_message ?m)"
    by (simp add: should_route_to_def message_with_id_def)
  have got: "flusher ?got = Checking" "messages (hub_buffer ?got) = ?m # []" "deliveries ?got = []"
    by (simp_all add: hub_receive_def try_send_def failing_hub_def small_hub_defs ring_buffer_push_def Let_def case_prod_beta)
  have "0 < runner_batch_size ?R" using R(2) by simp
  note batch = flush_takes_batch [OF got(1,2) this, of sample_env "runner_emitters ?R"]
  have pow: "(?f ^^ 0) ?got = ?got" "(?f ^^ 1) ?got = ?f ?got" "(?f ^^ 2) ?got = ?f (?f ?got)"
    "(?f ^^ 3) ?got = ?f ((?f ^^ 2) ?got)"
    by (simp_all only: numeral_2_eq_2 numeral_3_eq_3 One_nat_def funpow.simps o_apply id_apply)
  have run: "flusher ((?f ^^ 0) ?got) \<noteq> Finished" "flusher ((?f ^^ 1) ?got) \<noteq> Finished"
    "flusher ((?f ^^ 2) ?got) = Emitting [event_from_message ?m] 0" "deliveries ((?f ^^ 2) ?got) = []"
    unfolding pow using got batch R(2) by simp_all
  have "hub_step ?M sample_env ?R ?start ?sent"
    by (rule hub_step.send [of _ "([], [])" ?m]) (simp_all add: try_send_def hub_start_def Let_def)
  moreover have "hub_step ?M sample_env ?R ?sent ?got"
    by (rule hub_step.receive) (simp_all add: try_send_def hub_start_def Let_def)
  moreover have "flusher ((?f ^^ k) ?got) \<noteq> Finished" if "k < 3" for k
  proof -
    from that have "k = 0 \<or> k = 1 \<or> k = 2" by linarith
    then show ?thesis using run(1-3) by (elim disjE) simp_all
  qed
  then have "(hub_step ?M sample_env ?R)\<^sup>*\<^sup>* ?got ((?f ^^ 3) ?got)" by (rule flush_steps)
  ultimately have reach: "(hub_step ?M sample_env ?R)\<^sup>*\<^sup>* ?start ((?f ^^ 3) ?got)"
    by (meson converse_rtranclp_into_rtranclp)
  have "fst (emit sample_env ?em [event_from_message ?m] w) = Inl (Send ''down'')" for w
    by (simp add: sample_env_def sample_leaf_def capture_emit_def Let_def)
  then have "deliveries ((?f ^^ 3) ?got) = [(0, [event_from_message ?m], Inl (Send ''down''))]"
    unfolding pow(4) using run(3,4) msg emit_one_calls(2) [of sample_env ?em "[event_from_message ?m]" "(?f ^^ 2) ?got" _ _ 0]
    by (simp add: flush_step_def R del: emit.simps event_routed_to_from_message) (metis eq_fst_iff)
  then have "emitted_to True 0 ((?f ^^ 3) ?got) = []"
    "kept_at failure_capture_config_default 0 ((?f ^^ 3) ?got) = [event_from_message ?m]"
    by (simp_all add: emitted_to_def kept_at_def kept_of_def failure_capture_config_default_def)
  moreover have "captured_at 4 ((?f ^^ 3) ?got) =
      drop (length (kept_at failure_capture_config_default 0 ((?f ^^ 3) ?got)) - 10)
        (kept_at failure_capture_config_default 0 ((?f ^^ 3) ?got))"
    using hub_no_silent_loss [OF _ _ _ _ reach, of 0 4 failure_capture_config_default 10] R(3)
    by (simp add: failing_hub_def small_hub_defs sole_capture_def sample_world_def)
  ultimately show ?thesis using reach by (intro exI [of _ "(?f ^^ 3) ?got"]) simp
qed

end
