(* ===== verification/Middleware_Tests.thy ===== *)
theory Middleware_Tests
  imports Middleware_Chain
begin

text \<open>
  The unit tests of \<open>gateway/src/middleware\<close>, run on the model. What a test does not control is its
  argument: the record \<open>c\<close> with the clocks and the identifier a message is made with, and for a sleep the time \<open>d\<close> it lasts. Statements
  without a sleep take no time, and messages made in a row have the same identifier unless the test sets it. Left out are the tests that
  sample statistics over thousands of draws and those that race threads on the lock-free limiter and sampler, whose outcomes for all runs are
  theorems of \<open>Sampler\<close> and \<open>Rate_Limiter\<close>.
\<close>

definition new_message :: "Call \<Rightarrow> string \<Rightarrow> string \<Rightarrow> bytes \<Rightarrow> Message" where
  "new_message c src ty p = message_new (call_ulid c) (call_wall c) src ty p"

lemmas message_test_defs = new_message_def message_new_def with_metadata_def with_routes_def Let_def

section \<open>\<open>mod.rs\<close>\<close>

definition test_passthrough :: "Call \<Rightarrow> bool" where
  "test_passthrough c \<longleftrightarrow>
     (let msg = new_message c ''test'' ''evt'' []
      in case passthrough_process msg of None \<Rightarrow> False | Some m \<Rightarrow> msg_id m = msg_id msg)"

definition test_filter_keep :: "Call \<Rightarrow> bool" where
  "test_filter_keep c \<longleftrightarrow>
     filter_process (\<lambda>msg. message_type msg = ''keep'') (new_message c ''test'' ''keep'' []) \<noteq> None"

definition test_filter_drop :: "Call \<Rightarrow> bool" where
  "test_filter_drop c \<longleftrightarrow>
     filter_process (\<lambda>msg. message_type msg = ''keep'') (new_message c ''test'' ''drop_me'' []) = None"

definition insert_metadata :: "string \<Rightarrow> string \<Rightarrow> Message \<Rightarrow> Message" where
  "insert_metadata k v msg = msg\<lparr>metadata := (metadata msg)(k \<mapsto> v)\<rparr>"

definition test_transform :: "Call \<Rightarrow> bool" where
  "test_transform c \<longleftrightarrow>
     (case transform_process (insert_metadata ''transformed'' ''yes'') (new_message c ''test'' ''evt'' []) of
        None \<Rightarrow> False | Some msg \<Rightarrow> metadata msg ''transformed'' = Some ''yes'')"

definition test_middleware_chain :: "'j MwEnv \<Rightarrow> Call \<Rightarrow> bool" where
  "test_middleware_chain E c \<longleftrightarrow>
     (let chain = chain_add (Mw_Transform (insert_metadata ''step2'' ''done''))
            (chain_add (Mw_Filter (\<lambda>_. True)) (chain_add (Mw_Transform (insert_metadata ''step1'' ''done'')) chain_new))
      in case chain_process E c (new_message c ''test'' ''evt'' []) chain of
           Inr (Some msg, _) \<Rightarrow> metadata msg ''step1'' = Some ''done'' \<and> metadata msg ''step2'' = Some ''done''
         | _ \<Rightarrow> False)"

definition test_middleware_chain_filter :: "'j MwEnv \<Rightarrow> Call \<Rightarrow> bool" where
  "test_middleware_chain_filter E c \<longleftrightarrow>
     (let chain = chain_add (Mw_Transform (insert_metadata ''step2'' ''done''))
            (chain_add (Mw_Filter (\<lambda>_. False)) (chain_add (Mw_Transform (insert_metadata ''step1'' ''done'')) chain_new))
      in case chain_process E c (new_message c ''test'' ''evt'' []) chain of Inr (out, _) \<Rightarrow> out = None | _ \<Rightarrow> False)"

lemma chain_tests_pass:
  "test_passthrough c" "test_filter_keep c" "test_filter_drop c" "test_transform c" "test_middleware_chain E c"
  "test_middleware_chain_filter E c"
  by (simp_all add: test_passthrough_def test_filter_keep_def test_filter_drop_def test_transform_def
      test_middleware_chain_def test_middleware_chain_filter_def passthrough_process_def filter_process_def
      transform_process_def insert_metadata_def chain_add_def chain_new_def message_test_defs)

section \<open>\<open>router.rs\<close>\<close>

text \<open>The routes a router leaves a message with.\<close>

definition routed :: "Router \<Rightarrow> Message \<Rightarrow> string list option" where
  "routed router msg = map_option route_to (router_process router msg)"

definition test_router_no_rules_passthrough :: "Call \<Rightarrow> bool" where
  "test_router_no_rules_passthrough c \<longleftrightarrow>
     (let msg = new_message c ''src'' ''evt'' [] in routed router_new msg = Some (route_to msg))"

definition test_router_first_match_wins :: "Call \<Rightarrow> bool" where
  "test_router_first_match_wins c \<longleftrightarrow>
     (let router = router_rule (\<lambda>_. True) [''second''] (router_rule (\<lambda>_. True) [''first''] router_new)
      in routed router (new_message c ''src'' ''evt'' []) = Some [''first''])"

definition test_router_by_type_prefix :: "Call \<Rightarrow> bool" where
  "test_router_by_type_prefix c \<longleftrightarrow>
     (let router = default_route [''default''] (route_type_prefix ''metric.'' [''metrics'']
            (route_type_prefix ''error.'' [''alerts''] router_new))
      in routed router (new_message c ''src'' ''error.critical'' []) = Some [''alerts''] \<and>
         routed router (new_message c ''src'' ''metric.cpu'' []) = Some [''metrics''] \<and>
         routed router (new_message c ''src'' ''other.event'' []) = Some [''default''])"

definition test_router_by_source :: "Call \<Rightarrow> bool" where
  "test_router_by_source c \<longleftrightarrow>
     (let router = route_source ''elava'' [''aws-sink''] (route_source ''tapio'' [''ebpf-sink''] router_new)
      in routed router (new_message c ''tapio'' ''evt'' []) = Some [''ebpf-sink''] \<and>
         routed router (new_message c ''elava'' ''evt'' []) = Some [''aws-sink''])"

definition test_router_custom_rule :: "Call \<Rightarrow> bool" where
  "test_router_custom_rule c \<longleftrightarrow>
     (let router = router_rule (\<lambda>msg. metadata msg ''priority'' = Some ''high'') [''priority-queue''] router_new;
          msg = new_message c ''src'' ''evt'' []
      in routed router msg = Some [] \<and> routed router (with_metadata msg ''priority'' ''high'') = Some [''priority-queue''])"

lemma router_tests_pass:
  "test_router_no_rules_passthrough c" "test_router_first_match_wins c" "test_router_by_type_prefix c"
  "test_router_by_source c" "test_router_custom_rule c"
  by (simp_all add: test_router_no_rules_passthrough_def test_router_first_match_wins_def test_router_by_type_prefix_def
      test_router_by_source_def test_router_custom_rule_def routed_def router_process_def router_new_def router_rule_def
      route_type_prefix_def route_source_def default_route_def message_test_defs)

section \<open>\<open>enricher.rs\<close>\<close>

definition enriched :: "Enricher \<Rightarrow> Message \<Rightarrow> string \<Rightarrow> string option" where
  "enriched enricher msg k = (case enricher_process enricher msg of None \<Rightarrow> None | Some m \<Rightarrow> metadata m k)"

definition test_enricher_adds_metadata :: "Call \<Rightarrow> bool" where
  "test_enricher_adds_metadata c \<longleftrightarrow>
     enriched (enricher_new (\<lambda>_. [(''enriched'', ''true'')])) (new_message c ''test'' ''evt'' []) ''enriched'' = Some ''true''"

definition test_enricher_with_static_metadata :: "Call \<Rightarrow> bool" where
  "test_enricher_with_static_metadata c \<longleftrightarrow>
     (let enricher = enricher_with_static [(''env'', ''production''), (''version'', ''1.0'')];
          msg = new_message c ''test'' ''evt'' []
      in enriched enricher msg ''env'' = Some ''production'' \<and> enriched enricher msg ''version'' = Some ''1.0'')"

text \<open>\<open>str::to_uppercase\<close>, on ASCII.\<close>

definition ascii_upper :: "string \<Rightarrow> string" where
  "ascii_upper = map (\<lambda>x. if CHR ''a'' \<le> x \<and> x \<le> CHR ''z'' then char_of ((of_char x :: nat) - 32) else x)"

definition test_enricher_uses_message_context :: "Call \<Rightarrow> bool" where
  "test_enricher_uses_message_context c \<longleftrightarrow>
     enriched (enricher_new (\<lambda>msg. [(''source_upper'', ascii_upper (source msg))]))
       (new_message c ''my-service'' ''evt'' []) ''source_upper'' = Some ''MY-SERVICE''"

definition test_enricher_preserves_existing_metadata :: "Call \<Rightarrow> bool" where
  "test_enricher_preserves_existing_metadata c \<longleftrightarrow>
     (let enricher = enricher_new (\<lambda>_. [(''new_key'', ''new_value'')]);
          msg = with_metadata (new_message c ''test'' ''evt'' []) ''existing'' ''value''
      in enriched enricher msg ''existing'' = Some ''value'' \<and> enriched enricher msg ''new_key'' = Some ''new_value'')"

definition test_enricher_overwrites_on_conflict :: "Call \<Rightarrow> bool" where
  "test_enricher_overwrites_on_conflict c \<longleftrightarrow>
     enriched (enricher_new (\<lambda>_. [(''key'', ''new'')])) (with_metadata (new_message c ''test'' ''evt'' []) ''key'' ''old'') ''key''
       = Some ''new''"

lemma ascii_upper_sample: "ascii_upper ''my-service'' = ''MY-SERVICE''"
  by code_simp

lemma enricher_tests_pass:
  "test_enricher_adds_metadata c" "test_enricher_with_static_metadata c" "test_enricher_uses_message_context c"
  "test_enricher_preserves_existing_metadata c" "test_enricher_overwrites_on_conflict c"
  by (simp_all add: test_enricher_adds_metadata_def test_enricher_with_static_metadata_def
      test_enricher_uses_message_context_def test_enricher_preserves_existing_metadata_def
      test_enricher_overwrites_on_conflict_def enriched_def enricher_process_def enricher_new_def enricher_with_static_def
      ascii_upper_sample message_test_defs)

section \<open>\<open>validator.rs\<close>\<close>

definition test_validator_passes_valid :: "Call \<Rightarrow> bool" where
  "test_validator_passes_valid c \<longleftrightarrow>
     validator_process (validator_new (\<lambda>_. Valid)) (new_message c ''test'' ''evt'' ''data'') \<noteq> None"

definition test_validator_drops_invalid :: "Call \<Rightarrow> bool" where
  "test_validator_drops_invalid c \<longleftrightarrow>
     validator_process (validator_new (\<lambda>_. Invalid ''bad'')) (new_message c ''test'' ''evt'' ''data'') = None"

definition test_validator_tags_invalid :: "Call \<Rightarrow> bool" where
  "test_validator_tags_invalid c \<longleftrightarrow>
     (case validator_process (on_invalid Tag (validator_new (\<lambda>_. Invalid ''bad data''))) (new_message c ''test'' ''evt'' ''data'') of
        None \<Rightarrow> False
      | Some m \<Rightarrow> metadata m ''polku.validator.error'' = Some ''bad data'' \<and> metadata m ''polku.validator.valid'' = Some ''false'')"

definition valid_json :: bytes where
  "valid_json = ''{'' @ [CHR 0x22] @ ''key'' @ [CHR 0x22] @ '': '' @ [CHR 0x22] @ ''value'' @ [CHR 0x22] @ ''}''"

definition test_validator_json_valid :: "(bytes \<Rightarrow> string + 'j) \<Rightarrow> Call \<Rightarrow> bool" where
  "test_validator_json_valid parse c \<longleftrightarrow>
     validator_process (validator_json parse) (new_message c ''test'' ''evt'' valid_json) \<noteq> None"

definition test_validator_json_invalid :: "(bytes \<Rightarrow> string + 'j) \<Rightarrow> Call \<Rightarrow> bool" where
  "test_validator_json_invalid parse c \<longleftrightarrow>
     validator_process (validator_json parse) (new_message c ''test'' ''evt'' ''not json'') = None"

definition test_validator_json_empty :: "(bytes \<Rightarrow> string + 'j) \<Rightarrow> Call \<Rightarrow> bool" where
  "test_validator_json_empty parse c \<longleftrightarrow>
     validator_process (validator_json parse) (new_message c ''test'' ''evt'' []) = None"

definition test_validator_non_empty_valid :: "Call \<Rightarrow> bool" where
  "test_validator_non_empty_valid c \<longleftrightarrow>
     validator_process validator_non_empty (new_message c ''test'' ''evt'' ''data'') \<noteq> None"

definition test_validator_non_empty_invalid :: "Call \<Rightarrow> bool" where
  "test_validator_non_empty_invalid c \<longleftrightarrow>
     validator_process validator_non_empty (new_message c ''test'' ''evt'' []) = None"

definition test_validator_max_size_valid :: "Call \<Rightarrow> bool" where
  "test_validator_max_size_valid c \<longleftrightarrow>
     validator_process (validator_max_size 100) (new_message c ''test'' ''evt'' ''small'') \<noteq> None"

definition test_validator_max_size_invalid :: "Call \<Rightarrow> bool" where
  "test_validator_max_size_invalid c \<longleftrightarrow>
     validator_process (validator_max_size 5) (new_message c ''test'' ''evt'' ''too long'') = None"

definition test_validator_custom_logic :: "Call \<Rightarrow> bool" where
  "test_validator_custom_logic c \<longleftrightarrow>
     (let validator = validator_new (\<lambda>msg. if metadata msg ''valid'' \<noteq> None then Valid
            else Invalid (''missing '' @ [CHR 0x27] @ ''valid'' @ [CHR 0x27] @ '' metadata''));
          msg = new_message c ''test'' ''evt'' []
      in validator_process validator msg = None \<and> validator_process validator (with_metadata msg ''valid'' ''yes'') \<noteq> None)"

lemmas validator_test_defs = validator_process_def validator_new_def validator_json_def validator_non_empty_def
  validator_max_size_def on_invalid_def message_test_defs

lemma validator_tests_pass:
  "test_validator_passes_valid c" "test_validator_drops_invalid c" "test_validator_tags_invalid c"
  "test_validator_json_empty parse c" "test_validator_non_empty_valid c" "test_validator_non_empty_invalid c"
  "test_validator_max_size_valid c" "test_validator_max_size_invalid c" "test_validator_custom_logic c"
  by (simp_all add: test_validator_passes_valid_def test_validator_drops_invalid_def test_validator_tags_invalid_def
      test_validator_json_empty_def test_validator_non_empty_valid_def test_validator_non_empty_invalid_def
      test_validator_max_size_valid_def test_validator_max_size_invalid_def test_validator_custom_logic_def
      validator_test_defs)

text \<open>With a parser that reads the first payload and not the second, as \<open>serde_json\<close> does.\<close>

lemma validator_json_tests_pass:
  "parse valid_json = Inr v \<Longrightarrow> test_validator_json_valid parse c"
  "parse ''not json'' = Inl e \<Longrightarrow> test_validator_json_invalid parse c"
  by (simp_all add: test_validator_json_valid_def test_validator_json_invalid_def validator_test_defs)
    (simp add: valid_json_def)

end
