(* ===== verification/Stateful_Middleware_Tests.thy ===== *)
theory Stateful_Middleware_Tests
  imports Middleware_Tests
begin

text \<open>
  The unit tests of the middlewares of \<open>gateway/src/middleware\<close> that keep a state: aggregator, deduplicator, sampler, rate
  limiter and throttle. \<open>t\<close> is the clock when the test starts.
\<close>

section \<open>\<open>aggregator.rs\<close>\<close>

text \<open>Processing messages one after the other; the result of the last one, and the aggregator.\<close>

fun aggregates :: "'j Json \<Rightarrow> Call \<Rightarrow> Message list \<Rightarrow> panic + Aggregator \<Rightarrow> panic + (Message option \<times> Aggregator)" where
  "aggregates J c ms (Inl p) = Inl p"
| "aggregates J c [] (Inr agg) = Inr (None, agg)"
| "aggregates J c [m] (Inr agg) = aggregator_process J c m agg"
| "aggregates J c (m # m' # ms) (Inr agg) =
     (case aggregator_process J c m agg of Inl p \<Rightarrow> Inl p | Inr (_, agg) \<Rightarrow> aggregates J c (m' # ms) (Inr agg))"

definition outcome :: "(Message option \<Rightarrow> Aggregator \<Rightarrow> bool) \<Rightarrow> panic + (Message option \<times> Aggregator) \<Rightarrow> bool" where
  "outcome P r \<longleftrightarrow> (case r of Inl p \<Rightarrow> False | Inr (out, agg) \<Rightarrow> P out agg)"

definition combined :: "(Message \<Rightarrow> bool) \<Rightarrow> panic + (Message option \<times> Aggregator) \<Rightarrow> bool" where
  "combined P = outcome (\<lambda>out agg. case out of None \<Rightarrow> False | Some m \<Rightarrow> P m)"

definition with_strategy :: "nat \<Rightarrow> AggregateStrategy \<Rightarrow> panic + Aggregator" where
  "with_strategy n st = map_sum id (aggregator_strategy st) (aggregator_new n)"

definition test_aggregator_holds_until_batch_complete :: "'j Json \<Rightarrow> Call \<Rightarrow> bool" where
  "test_aggregator_holds_until_batch_complete J c \<longleftrightarrow>
     (let m = new_message c ''test'' ''evt''
      in outcome (\<lambda>out agg. out = None \<and> pending agg = 1) (aggregates J c [m ''a''] (aggregator_new 3)) \<and>
         outcome (\<lambda>out agg. out = None \<and> pending agg = 2) (aggregates J c [m ''a'', m ''b''] (aggregator_new 3)) \<and>
         outcome (\<lambda>out agg. out \<noteq> None \<and> pending agg = 0) (aggregates J c [m ''a'', m ''b'', m ''c''] (aggregator_new 3)))"

definition test_aggregator_concat_strategy :: "'j Json \<Rightarrow> Call \<Rightarrow> bool" where
  "test_aggregator_concat_strategy J c \<longleftrightarrow>
     (let m = new_message c ''test'' ''evt''
      in combined (\<lambda>r. payload_str r = Some (''line1'' @ [CHR 0x0A] @ ''line2'' @ [CHR 0x0A]))
           (aggregates J c [m ''line1'', m ''line2''] (with_strategy 2 Concat)))"

definition test_aggregator_last_strategy :: "'j Json \<Rightarrow> Call \<Rightarrow> bool" where
  "test_aggregator_last_strategy J c \<longleftrightarrow>
     (let m = new_message c ''test'' ''evt''
      in combined (\<lambda>r. payload_str r = Some ''last'') (aggregates J c [m ''first'', m ''last''] (with_strategy 2 Last)))"

definition test_aggregator_first_strategy :: "'j Json \<Rightarrow> Call \<Rightarrow> bool" where
  "test_aggregator_first_strategy J c \<longleftrightarrow>
     (let m = new_message c ''test'' ''evt''
      in combined (\<lambda>r. payload_str r = Some ''first'') (aggregates J c [m ''first'', m ''last''] (with_strategy 2 First)))"

definition test_aggregator_metadata_merged :: "'j Json \<Rightarrow> Call \<Rightarrow> bool" where
  "test_aggregator_metadata_merged J c \<longleftrightarrow>
     (let m = new_message c ''test'' ''evt''
      in combined (\<lambda>r. metadata r ''key1'' = Some ''val1'' \<and> metadata r ''key2'' = Some ''val2'' \<and>
             metadata r ''polku.aggregator.count'' = Some ''2'')
           (aggregates J c [with_metadata (m ''a'') ''key1'' ''val1'', with_metadata (m ''b'') ''key2'' ''val2''] (aggregator_new 2)))"

definition test_aggregator_same_source_preserved :: "'j Json \<Rightarrow> Call \<Rightarrow> bool" where
  "test_aggregator_same_source_preserved J c \<longleftrightarrow>
     combined (\<lambda>r. source r = ''source-a'')
       (aggregates J c [new_message c ''source-a'' ''evt'' ''a'', new_message c ''source-a'' ''evt'' ''b''] (aggregator_new 2))"

definition test_aggregator_different_sources_become_aggregated :: "'j Json \<Rightarrow> Call \<Rightarrow> bool" where
  "test_aggregator_different_sources_become_aggregated J c \<longleftrightarrow>
     combined (\<lambda>r. source r = ''aggregated'')
       (aggregates J c [new_message c ''source-a'' ''evt'' ''a'', new_message c ''source-b'' ''evt'' ''b''] (aggregator_new 2))"

definition test_aggregator_message_type :: "'j Json \<Rightarrow> Call \<Rightarrow> bool" where
  "test_aggregator_message_type J c \<longleftrightarrow>
     (let m = new_message c ''test'' ''order.created''
      in combined (\<lambda>r. message_type r = ''order.created.aggregate'') (aggregates J c [m ''a'', m ''b''] (aggregator_new 2)))"

definition test_aggregator_flush :: "'j Json \<Rightarrow> Call \<Rightarrow> bool" where
  "test_aggregator_flush J c \<longleftrightarrow>
     (let m = new_message c ''test'' ''evt''
      in outcome (\<lambda>out agg. pending agg = 3 \<and>
             (case aggregator_flush J c agg of
                Inr (Some r, agg1) \<Rightarrow> metadata r ''polku.aggregator.count'' = Some ''3'' \<and> pending agg1 = 0
              | _ \<Rightarrow> False))
           (aggregates J c [m ''0'', m ''1'', m ''2''] (aggregator_new 5)))"

definition test_aggregator_flush_empty :: "'j Json \<Rightarrow> Call \<Rightarrow> bool" where
  "test_aggregator_flush_empty J c \<longleftrightarrow>
     outcome (\<lambda>out agg. case aggregator_flush J c agg of Inr (r, _) \<Rightarrow> r = None | _ \<Rightarrow> False)
       (aggregates J c [] (aggregator_new 5))"

definition test_aggregator_routes_merged :: "'j Json \<Rightarrow> Call \<Rightarrow> bool" where
  "test_aggregator_routes_merged J c \<longleftrightarrow>
     (let m = new_message c ''test'' ''evt''
      in combined (\<lambda>r. ''output-a'' \<in> set (route_to r) \<and> ''output-b'' \<in> set (route_to r))
           (aggregates J c [with_routes (m ''a'') [''output-a''], with_routes (m ''b'') [''output-b'']] (aggregator_new 2)))"

definition test_aggregator_zero_batch_panics :: bool where
  "test_aggregator_zero_batch_panics \<longleftrightarrow> aggregator_new 0 = Inl (AssertFailed ''batch_size must be > 0'')"

lemmas aggregator_test_defs = outcome_def combined_def with_strategy_def aggregator_new_def aggregator_strategy_def
  aggregator_process_def aggregator_flush_def pending_def combine_def combine_payload_def combine_metadata_def
  combine_source_def set_combine_routes payload_str_def message_test_defs

lemma show_small_nat: "show_nat 2 = ''2''" "show_nat 3 = ''3''" "show_nat (Suc (Suc 0)) = ''2''" "show_nat (Suc (Suc (Suc 0))) = ''3''"
  by code_simp+

lemma utf8_valid_samples: "utf8_valid (''line1'' @ [CHR 0x0A] @ ''line2'' @ [CHR 0x0A])" "utf8_valid ''first''" "utf8_valid ''last''"
  by code_simp+

lemma aggregator_tests_pass:
  "test_aggregator_holds_until_batch_complete J c" "test_aggregator_last_strategy J c" "test_aggregator_first_strategy J c"
  "test_aggregator_metadata_merged J c" "test_aggregator_same_source_preserved J c"
  "test_aggregator_different_sources_become_aggregated J c" "test_aggregator_message_type J c" "test_aggregator_flush J c"
  "test_aggregator_flush_empty J c" "test_aggregator_routes_merged J c" "test_aggregator_zero_batch_panics"
  by (simp_all add: test_aggregator_holds_until_batch_complete_def test_aggregator_last_strategy_def
      test_aggregator_first_strategy_def test_aggregator_metadata_merged_def test_aggregator_same_source_preserved_def
      test_aggregator_different_sources_become_aggregated_def test_aggregator_message_type_def test_aggregator_flush_def
      test_aggregator_flush_empty_def test_aggregator_routes_merged_def test_aggregator_zero_batch_panics_def
      aggregator_test_defs show_small_nat utf8_valid_samples del: utf8_valid.simps)

lemma aggregator_concat_test_passes: "test_aggregator_concat_strategy J c"
  using utf8_valid_samples(1)
  by (simp add: test_aggregator_concat_strategy_def aggregator_test_defs del: utf8_valid.simps)

text \<open>The test of the JSON strategy parses what it gets; \<open>as_array\<close> is that of \<open>serde_json\<close>. It relies on what a list of values
  is serialised to being parsed as an array of these values.\<close>

definition test_aggregator_json_array_strategy :: "'j Json \<Rightarrow> ('j \<Rightarrow> 'j list option) \<Rightarrow> Call \<Rightarrow> bool" where
  "test_aggregator_json_array_strategy J as_array c \<longleftrightarrow>
     (let m = new_message c ''test'' ''evt'';
          doc = (\<lambda>k n. [CHR 0x7B, CHR 0x22, k, CHR 0x22, CHR '':'', n, CHR 0x7D])
      in combined (\<lambda>r. case from_slice J (payload r) of
             Inl _ \<Rightarrow> False
           | Inr v \<Rightarrow> (case as_array v of None \<Rightarrow> False | Some vs \<Rightarrow> length vs = 2))
           (aggregates J c [m (doc CHR ''a'' CHR ''1''), m (doc CHR ''b'' CHR ''2'')] (with_strategy 2 JsonArray)))"

lemma aggregator_json_test_passes:
  assumes "\<And>vs. \<exists>b v. json_to_vec J vs = Inr b \<and> from_slice J b = Inr v \<and> as_array v = Some vs"
  shows "test_aggregator_json_array_strategy J as_array c"
proof -
  have "\<exists>v. from_slice J (combine_payload J JsonArray ms) = Inr v \<and> as_array v = Some (map (json_payload J) ms)" for ms
    using assms [of "map (json_payload J) ms"] by (auto simp: combine_payload_def)
  note parsed = this
  have "combined (\<lambda>r. case from_slice J (payload r) of
        Inl _ \<Rightarrow> False | Inr v \<Rightarrow> (case as_array v of None \<Rightarrow> False | Some vs \<Rightarrow> length vs = 2))
      (aggregates J c [m1, m2] (with_strategy 2 JsonArray))" for m1 m2
    using parsed [of "[m1, m2]"]
    by (auto simp: combined_def outcome_def with_strategy_def aggregator_new_def aggregator_strategy_def
        aggregator_process_def combine_def Let_def)
  then show ?thesis by (simp add: test_aggregator_json_array_strategy_def Let_def)
qed

section \<open>\<open>dedup.rs\<close>\<close>

definition test_dedup_first_message_passes :: "nat \<Rightarrow> Call \<Rightarrow> bool" where
  "test_dedup_first_message_passes t c \<longleftrightarrow>
     fst (deduplicator_process t (new_message c ''test'' ''evt'' []) (deduplicator_new (60 * 10 ^ 9))) \<noteq> None"

definition message_of_id :: "Call \<Rightarrow> string \<Rightarrow> Message" where
  "message_of_id c i = (new_message c ''test'' ''evt'' [])\<lparr>msg_id := i\<rparr>"

definition test_dedup_duplicate_dropped :: "nat \<Rightarrow> Call \<Rightarrow> bool" where
  "test_dedup_duplicate_dropped t c \<longleftrightarrow>
     (let (r1, d1) = deduplicator_process t (message_of_id c ''fixed-id'') (deduplicator_new (60 * 10 ^ 9));
          (r2, d2) = deduplicator_process t (message_of_id c ''fixed-id'') d1
      in r1 \<noteq> None \<and> r2 = None)"

definition test_dedup_different_ids_pass :: "nat \<Rightarrow> Call \<Rightarrow> bool" where
  "test_dedup_different_ids_pass t c \<longleftrightarrow>
     (let (r1, d1) = deduplicator_process t (message_of_id c ''id-1'') (deduplicator_new (60 * 10 ^ 9));
          (r2, d2) = deduplicator_process t (message_of_id c ''id-2'') d1
      in r1 \<noteq> None \<and> r2 \<noteq> None)"

definition test_dedup_expired_passes_again :: "nat \<Rightarrow> nat \<Rightarrow> Call \<Rightarrow> bool" where
  "test_dedup_expired_passes_again t d c \<longleftrightarrow>
     (let (r1, d1) = deduplicator_process t (message_of_id c ''expire-test'') (deduplicator_new (10 * 10 ^ 6));
          (r2, d2) = deduplicator_process (t + d) (message_of_id c ''expire-test'') d1
      in r1 \<noteq> None \<and> r2 \<noteq> None)"

text \<open>The threads of the concurrent test each take the lock once: the order does not matter, since all check the same identifier.\<close>

definition test_dedup_concurrent :: "nat \<Rightarrow> bool" where
  "test_dedup_concurrent t \<longleftrightarrow>
     (let (results, d) = dedup_run (replicate 10 (t, ''same-id'')) (deduplicator_new (60 * 10 ^ 9))
      in length (filter id results) = 1)"

definition test_check_method_directly :: "nat \<Rightarrow> bool" where
  "test_check_method_directly t \<longleftrightarrow>
     (let (a, d1) = dedup_check t ''id-1'' (deduplicator_new (60 * 10 ^ 9)); (b, d2) = dedup_check t ''id-1'' d1;
          (c, d3) = dedup_check t ''id-2'' d2; (d, d4) = dedup_check t ''id-2'' d3
      in a \<and> \<not> b \<and> c \<and> \<not> d)"

definition test_cleanup_interval_minimum :: "nat \<Rightarrow> bool" where
  "test_cleanup_interval_minimum t \<longleftrightarrow> fst (dedup_check t ''test'' (with_cleanup_interval (10 ^ 9) 0))"

lemma replicate_numeral: "replicate (numeral v) x = x # replicate (pred_numeral v) x"
  by (simp add: numeral_eq_Suc)

lemmas dedup_test_defs = deduplicator_process_def dedup_check_def deduplicator_new_def with_cleanup_interval_def
  dedup_cleanup_def dedup_len_def message_of_id_def message_test_defs

lemma dedup_tests_pass:
  "test_dedup_first_message_passes t c" "test_dedup_duplicate_dropped t c" "test_dedup_different_ids_pass t c"
  "test_check_method_directly t" "test_cleanup_interval_minimum t" "test_dedup_concurrent t"
  by (simp_all add: test_dedup_first_message_passes_def test_dedup_duplicate_dropped_def test_dedup_different_ids_pass_def
      test_check_method_directly_def test_cleanup_interval_minimum_def test_dedup_concurrent_def replicate_numeral
      dedup_test_defs cong: prod.case_cong_weak let_weak_cong)

text \<open>\<open>process\<close> does to the deduplicator what \<open>check\<close> does with the identifier of the message.\<close>

definition numbered_checks :: "nat \<Rightarrow> nat list \<Rightarrow> (nat \<times> string) list" where
  "numbered_checks t is = map (\<lambda>i. (t, ''msg-'' @ show_nat i)) is"

definition test_dedup_cleanup :: "nat \<Rightarrow> nat \<Rightarrow> bool" where
  "test_dedup_cleanup t d \<longleftrightarrow>
     (let (_, d1) = dedup_run (numbered_checks t [0..<5]) (with_cleanup_interval (5 * 10 ^ 6) 10);
          (_, d2) = dedup_run (numbered_checks (t + d) [5..<20]) d1
      in dedup_len d1 = 5 \<and> dedup_len d2 < 20)"

lemma dedup_cleanup_test_passes: "10 * 10 ^ 6 \<le> d \<Longrightarrow> test_dedup_cleanup t d"
  by (simp add: test_dedup_cleanup_def numbered_checks_def upt_rec show_nat.simps char_of_def bit_iff_odd
      dedup_test_defs word_le_nat_alt cong: prod.case_cong_weak let_weak_cong)

lemma dedup_expired_test_passes: "15 * 10 ^ 6 \<le> d \<Longrightarrow> test_dedup_expired_passes_again t d c"
  by (simp add: test_dedup_expired_passes_again_def dedup_test_defs)

section \<open>\<open>sampler.rs\<close>\<close>

definition sampled :: "nat \<Rightarrow> panic + Sampler \<Rightarrow> bool list" where
  "sampled n r = (case r of Inl p \<Rightarrow> [] | Inr s \<Rightarrow> fst (sampler_run n s))"

definition test_sampler_always_pass :: "(real \<Rightarrow> real) \<Rightarrow> nat option \<Rightarrow> bool" where
  "test_sampler_always_pass fl epoch \<longleftrightarrow> sampled 100 (sampler_new fl epoch 1) = replicate 100 True"

definition test_sampler_always_drop :: "(real \<Rightarrow> real) \<Rightarrow> nat option \<Rightarrow> bool" where
  "test_sampler_always_drop fl epoch \<longleftrightarrow> sampled 100 (sampler_new fl epoch 0) = replicate 100 False"

definition test_sampler_invalid_rate_high :: "(real \<Rightarrow> real) \<Rightarrow> nat option \<Rightarrow> bool" where
  "test_sampler_invalid_rate_high fl epoch \<longleftrightarrow>
     sampler_new fl epoch (3 / 2) = Inl (AssertFailed ''sample rate must be between 0.0 and 1.0'')"

definition test_sampler_invalid_rate_negative :: "(real \<Rightarrow> real) \<Rightarrow> nat option \<Rightarrow> bool" where
  "test_sampler_invalid_rate_negative fl epoch \<longleftrightarrow>
     sampler_new fl epoch (- 1 / 10) = Inl (AssertFailed ''sample rate must be between 0.0 and 1.0'')"

lemma sampler_extreme_tests_pass:
  assumes "fl 0 = 0"
  shows "test_sampler_always_pass fl epoch" "test_sampler_always_drop fl epoch"
proof -
  have seeded: "sampler_with_seed fl epoch rate seed = Inr s"
    if "sampler_new fl epoch rate = Inr s" "sampler_state s = seed OR 1" for rate seed s
    using that by (simp add: sampler_with_seed_def)
  show "test_sampler_always_pass fl epoch"
    using sampler_extremes [OF assms seeded, of 1] by (simp add: test_sampler_always_pass_def sampled_def sampler_new_def)
  show "test_sampler_always_drop fl epoch"
    using sampler_extremes [OF assms seeded, of 0] by (simp add: test_sampler_always_drop_def sampled_def sampler_new_def)
qed

lemma sampler_panic_tests_pass:
  "test_sampler_invalid_rate_high fl epoch" "test_sampler_invalid_rate_negative fl epoch"
  by (simp_all add: test_sampler_invalid_rate_high_def test_sampler_invalid_rate_negative_def sampler_new_def)

section \<open>\<open>rate_limiter.rs\<close>\<close>

text \<open>The answers of a limiter to requests at the given times.\<close>

definition acquired :: "nat list \<Rightarrow> RateLimiter \<Rightarrow> bool list option" where
  "acquired ts limiter = (case rl_run ts limiter of Inl p \<Rightarrow> None | Inr (oks, _) \<Rightarrow> Some oks)"

definition test_rate_limiter_allows_within_limit :: "nat \<Rightarrow> Call \<Rightarrow> bool" where
  "test_rate_limiter_allows_within_limit t c \<longleftrightarrow>
     (case rate_limiter_process t (new_message c ''test'' ''evt'' []) (rate_limiter_new t 100 10) of
        Inl p \<Rightarrow> False | Inr (result, _) \<Rightarrow> result \<noteq> None)"

definition test_rate_limiter_blocks_over_burst :: "nat \<Rightarrow> bool" where
  "test_rate_limiter_blocks_over_burst t \<longleftrightarrow> acquired [t, t, t] (rate_limiter_new t 100 2) = Some [True, True, False]"

definition test_rate_limiter_refills :: "nat \<Rightarrow> nat \<Rightarrow> bool" where
  "test_rate_limiter_refills t d \<longleftrightarrow> acquired [t, t, t + d] (rate_limiter_new t 1000 1) = Some [True, False, True]"

definition test_zero_burst_blocks_all :: "nat \<Rightarrow> bool" where
  "test_zero_burst_blocks_all t \<longleftrightarrow> acquired [t] (rate_limiter_new t 1000 0) = Some [False]"

lemmas limiter_test_defs = rate_limiter_try_acquire_def rate_limiter_refill_def rate_limiter_new_def interval_nanos_def
  now_nanos_def saturating_sub_def saturating_mul_def div_u64_def acquired_def message_test_defs

lemma limiter_tests_pass:
  "test_rate_limiter_allows_within_limit t c" "test_rate_limiter_blocks_over_burst t" "test_zero_burst_blocks_all t"
  by (simp_all add: test_rate_limiter_allows_within_limit_def test_rate_limiter_blocks_over_burst_def
      test_zero_burst_blocks_all_def rate_limiter_process_def limiter_test_defs)

lemma limiter_refill_test_passes:
  assumes "2 * 10 ^ 6 \<le> d" and "d < 2 ^ 64"
  shows "test_rate_limiter_refills t d"
proof -
  let ?empty = "(rate_limiter_new t 1000 1)\<lparr>tokens := 0\<rparr>"
  have "d div 1000000 * 1000 < 2 ^ 64" using assms(2) by simp
  then have "\<exists>s. rate_limiter_try_acquire (t + d) ?empty = Inr (True, s)"
    using assms
    by (intro refill_grants) (simp_all add: rl_wf_def rate_limiter_new_def interval_nanos_def saturating_mul_def Let_def)
  moreover have "rate_limiter_try_acquire t (rate_limiter_new t 1000 1) = Inr (True, ?empty)"
    "rate_limiter_try_acquire t ?empty = Inr (False, ?empty)"
    by (simp_all add: limiter_test_defs)
  ultimately show ?thesis by (auto simp: test_rate_limiter_refills_def acquired_def)
qed

section \<open>\<open>throttle.rs\<close>\<close>

text \<open>The answers of a throttle to messages of the given sources at the given times, each within one tick, and the number of sources afterwards.
  \<open>order\<close> is the iteration order of the hash map.\<close>

definition throttled :: "(bucket_map \<Rightarrow> bucket_map) \<Rightarrow> (nat \<times> string) list \<Rightarrow> Throttle \<Rightarrow> (bool list \<times> nat) option" where
  "throttled order rs throttle =
     (case throttle_run order (map (map_prod instantly id) rs) throttle of Inl p \<Rightarrow> None | Inr (oks, th) \<Rightarrow> Some (oks, source_count th))"

definition test_throttle_allows_within_limit :: "(bucket_map \<Rightarrow> bucket_map) \<Rightarrow> nat \<Rightarrow> Call \<Rightarrow> bool" where
  "test_throttle_allows_within_limit order t c \<longleftrightarrow>
     (case throttle_process order (instantly t) (new_message c ''source-a'' ''evt'' []) (throttle_new 100 10) of
        Inl p \<Rightarrow> False | Inr (result, _) \<Rightarrow> result \<noteq> None)"

definition test_throttle_blocks_over_burst :: "(bucket_map \<Rightarrow> bucket_map) \<Rightarrow> nat \<Rightarrow> bool" where
  "test_throttle_blocks_over_burst order t \<longleftrightarrow>
     throttled order (replicate 3 (t, ''source-a'')) (throttle_new 100 2) = Some ([True, True, False], 1)"

definition test_throttle_independent_per_source :: "(bucket_map \<Rightarrow> bucket_map) \<Rightarrow> nat \<Rightarrow> bool" where
  "test_throttle_independent_per_source order t \<longleftrightarrow>
     throttled order (replicate 3 (t, ''source-a'') @ [(t, ''source-b'')]) (throttle_new 100 2) =
       Some ([True, True, False, True], 2)"

text \<open>The first three messages, then four more after the wait, and a last one.\<close>

definition test_throttle_lru_eviction :: "(bucket_map \<Rightarrow> bucket_map) \<Rightarrow> nat \<Rightarrow> nat \<Rightarrow> bool" where
  "test_throttle_lru_eviction order t d \<longleftrightarrow>
     (let throttle = max_sources 3 (throttle_new 100 10);
          early = [(t, ''source-0''), (t, ''source-1''), (t, ''source-2'')];
          late = [(t + d, ''source-1''), (t + d, ''source-2''), (t + d, ''source-3'')]
      in map_option snd (throttled order early throttle) = Some 3 \<and>
         map_option snd (throttled order (early @ late) throttle) = Some 3 \<and>
         map_option snd (throttled order (early @ late @ [(t + d, ''source-0'')]) throttle) = Some 3)"

definition test_throttle_refills :: "(bucket_map \<Rightarrow> bucket_map) \<Rightarrow> nat \<Rightarrow> nat \<Rightarrow> bool" where
  "test_throttle_refills order t d \<longleftrightarrow>
     throttled order [(t, ''source-a''), (t, ''source-a''), (t + d, ''source-a'')] (throttle_new 1000 1) =
       Some ([True, False, True], 1)"

definition test_throttle_max_sources_builder :: bool where
  "test_throttle_max_sources_builder \<longleftrightarrow> max_sources_limit (max_sources 500 (throttle_new 100 10)) = 500"

lemmas throttle_test_defs = throttle_new_def max_sources_def max_sources_limit_def source_count_def get_or_create_bucket_def
  tracked_try_acquire_def token_bucket_try_acquire_def token_bucket_refill_def token_bucket_new_def saturating_sub_def
  saturating_mul_def div_u64_def replicate_numeral message_test_defs

lemma throttle_tests_pass:
  "test_throttle_allows_within_limit order t c" "test_throttle_blocks_over_burst order t"
  "test_throttle_independent_per_source order t" "test_throttle_max_sources_builder"
  by (simp_all add: test_throttle_allows_within_limit_def test_throttle_blocks_over_burst_def
      test_throttle_independent_per_source_def test_throttle_max_sources_builder_def throttled_def throttle_process_def
      throttle_test_defs tracked_bucket_new_def)

text \<open>With sleeps of exactly their length, and the entries iterated in the order of insertion.\<close>

lemma throttle_timed_tests_pass:
  "test_throttle_refills order t (2 * 10 ^ 6)" "test_throttle_lru_eviction id t (10 ^ 6)"
  by (simp_all add: test_throttle_refills_def test_throttle_lru_eviction_def throttled_def evict_lru_def saturating_add_def
      throttle_test_defs tracked_bucket_new_def cong: prod.case_cong_weak let_weak_cong)

end
