(* ===== verification/Resilience_Tests.thy ===== *)
theory Resilience_Tests
  imports Emitters
begin

text \<open>
  The unit tests of \<open>gateway/src/emit/resilience\<close>, run on the model. A test is a truth value: the
  conjunction of its assertions over the states its statements go through. What a test does not control is its argument: the
  clock readings (\<open>t\<close>, and \<open>d\<close> for how long a sleep really lasts), the rounding of \<open>f64\<close>
  operations, the state of the generator of jitter. The mock emitters are leaves that take no time.
\<close>

section \<open>Mock emitters\<close>

definition always_failing :: "'x leaf" where
  "always_failing =
     \<lparr>leaf_name = ''always_failing'', leaf_emit = (\<lambda>_ t x. (Inl (Connection ''always fails''), 0, x)),
      leaf_health = (\<lambda>t x. (False, 0, x)), leaf_shutdown = (\<lambda>t x. (Inr (), 0, x))\<rparr>"

definition success_emitter :: "'x leaf" where
  "success_emitter =
     \<lparr>leaf_name = ''success'', leaf_emit = (\<lambda>_ t x. (Inr (), 0, x)),
      leaf_health = (\<lambda>t x. (True, 0, x)), leaf_shutdown = (\<lambda>t x. (Inr (), 0, x))\<rparr>"

definition make_test_event :: "string \<Rightarrow> Event" where
  "make_test_event i =
     \<lparr>ev_id = i, timestamp_unix_ns = 0, ev_source = ''test'', event_type = ''test'', ev_metadata = Map.empty,
      ev_payload = [], ev_route_to = []\<rparr>"

text \<open>A world with one mock behind number 0 and a failure buffer of capacity 100 at every address.\<close>

definition mock_env :: "(real \<Rightarrow> real) \<Rightarrow> (f64 \<Rightarrow> int \<Rightarrow> f64) \<Rightarrow> 'x leaf \<Rightarrow> 'x Env" where
  "mock_env fl pwi mock = \<lparr>round_f64 = fl, powi_f64 = pwi, leaves = (\<lambda>_. mock)\<rparr>"

definition mock_world :: "nat \<Rightarrow> u64 \<Rightarrow> 'x \<Rightarrow> 'x World" where
  "mock_world t rng x =
     \<lparr>time_now = t, jitter_rng = rng, breakers = (\<lambda>_. breaker_cell_new), retries = (\<lambda>_. retry_cell_new),
      failure_buffers = (\<lambda>_. failure_buffer_new 100), backend = x\<rparr>"

lemmas mock_defs = always_failing_def success_emitter_def make_test_event_def mock_env_def mock_world_def

section \<open>The buffer\<close>

definition test_failure :: "string \<Rightarrow> string \<Rightarrow> nat \<Rightarrow> FailedEvent" where
  "test_failure i e t =
     \<lparr>failed_event = make_test_event i, failed_error = e, emitter_name = ''test'', failed_at = t, attempts = 1\<rparr>"

text \<open>The loops of the tests, which push one event after the other.\<close>

definition push_each :: "nat \<Rightarrow> nat \<Rightarrow> FailureBuffer \<Rightarrow> FailureBuffer" where
  "push_each n t b = fold (\<lambda>i b. failure_buffer_push [test_failure (''evt-'' @ show_nat i) ''test'' t] b) [0..<n] b"

definition test_buffer_push_and_len :: "nat \<Rightarrow> bool" where
  "test_buffer_push_and_len t \<longleftrightarrow>
     (let b = failure_buffer_push [test_failure ''e1'' ''test error'' t] (failure_buffer_new 100)
      in failure_buffer_len b = 1 \<and> \<not> failure_buffer_is_empty b)"

definition test_buffer_capacity_limit :: "nat \<Rightarrow> bool" where
  "test_buffer_capacity_limit t \<longleftrightarrow>
     (let b = push_each 5 t (failure_buffer_new 3);
          (events, b1) = failure_buffer_drain 10 b
      in failure_buffer_len b = 3 \<and> total_captured b = 5 \<and> fb_total_dropped b = 2 \<and> length events = 3 \<and>
         ev_id (failed_event (events ! 0)) = ''evt-2'' \<and> ev_id (failed_event (events ! 1)) = ''evt-3'' \<and>
         ev_id (failed_event (events ! 2)) = ''evt-4'')"

definition test_buffer_drain :: "nat \<Rightarrow> bool" where
  "test_buffer_drain t \<longleftrightarrow>
     (let (drained, b) = failure_buffer_drain 3 (push_each 5 t (failure_buffer_new 100));
          (drained1, b1) = failure_buffer_drain 10 b
      in length drained = 3 \<and> failure_buffer_len b = 2 \<and> length drained1 = 2 \<and> failure_buffer_is_empty b1)"

definition test_buffer_peek :: "nat \<Rightarrow> bool" where
  "test_buffer_peek t \<longleftrightarrow>
     (let b = push_each 3 t (failure_buffer_new 100)
      in length (failure_buffer_peek 2 b) = 2 \<and> failure_buffer_len b = 3)"

definition test_buffer_clear :: "nat \<Rightarrow> bool" where
  "test_buffer_clear t \<longleftrightarrow>
     (let b = failure_buffer_push [test_failure ''e1'' ''test'' t] (failure_buffer_new 100)
      in failure_buffer_len b = 1 \<and> failure_buffer_is_empty (failure_buffer_clear b))"

lemmas buffer_test_defs = test_failure_def push_each_def make_test_event_def failure_buffer_new_def failure_buffer_push_def
  failure_buffer_drain_def failure_buffer_peek_def failure_buffer_clear_def failure_buffer_len_def failure_buffer_is_empty_def
  Let_def

lemma failure_buffer_tests_pass:
  "test_buffer_push_and_len t" "test_buffer_capacity_limit t" "test_buffer_drain t" "test_buffer_peek t"
  "test_buffer_clear t"
  by (simp_all add: test_buffer_push_and_len_def test_buffer_capacity_limit_def test_buffer_drain_def test_buffer_peek_def
      test_buffer_clear_def buffer_test_defs upt_rec show_nat.simps char_of_def bit_iff_odd)

section \<open>The capture\<close>

definition emits :: "'x Env \<Rightarrow> Emitter \<Rightarrow> string list \<Rightarrow> 'x World \<Rightarrow> plugin_result \<times> 'x World" where
  "emits E em ids w = emit E em (map make_test_event ids) w"

definition test_buffer_emitter_captures_failures :: "nat \<Rightarrow> bool" where
  "test_buffer_emitter_captures_failures t \<longleftrightarrow>
     (let E = mock_env id (\<lambda>x _. x) always_failing; emitter = failure_capture_with_defaults (Leaf 0) 0;
          (result, w) = emits E emitter [''e1'', ''e2''] (mock_world t 1 ());
          (failed, b) = failure_buffer_drain 10 (failure_buffers w 0)
      in \<not> is_ok result \<and> failure_buffer_len (failure_buffers w 0) = 2 \<and> length failed = 2 \<and>
         emitter_name (failed ! 0) = ''always_failing'' \<and> ev_id (failed_event (failed ! 0)) = ''e1'' \<and>
         ev_id (failed_event (failed ! 1)) = ''e2'')"

definition test_buffer_emitter_passthrough_success :: "nat \<Rightarrow> bool" where
  "test_buffer_emitter_passthrough_success t \<longleftrightarrow>
     (let E = mock_env id (\<lambda>x _. x) success_emitter; emitter = failure_capture_with_defaults (Leaf 0) 0;
          (result, w) = emits E emitter [''e1''] (mock_world t 1 ())
      in is_ok result \<and> failure_buffer_is_empty (failure_buffers w 0))"

definition test_buffer_emitter_sample_mode :: "nat \<Rightarrow> bool" where
  "test_buffer_emitter_sample_mode t \<longleftrightarrow>
     (let E = mock_env id (\<lambda>x _. x) always_failing;
          emitter = failure_capture_new (Leaf 0) 0 \<lparr>fc_capacity = 100, store_full_batch = False\<rparr>;
          (_, w) = emits E emitter [''e1'', ''e2'', ''e3''] (mock_world t 1 ());
          (failed, b) = failure_buffer_drain 10 (failure_buffers w 0)
      in failure_buffer_len (failure_buffers w 0) = 1 \<and> ev_id (failed_event (failed ! 0)) = ''e1'' \<and>
         sublist ''batch of 3'' (failed_error (failed ! 0)))"

definition test_buffer_emitter_health_passthrough :: "nat \<Rightarrow> bool" where
  "test_buffer_emitter_health_passthrough t \<longleftrightarrow>
     fst (health (mock_env id (\<lambda>x _. x) success_emitter) (failure_capture_with_defaults (Leaf 0) 0) (mock_world t 1 ()))"

definition test_buffer_emitter_shutdown_with_events :: "nat \<Rightarrow> bool" where
  "test_buffer_emitter_shutdown_with_events t \<longleftrightarrow>
     (let E = mock_env id (\<lambda>x _. x) always_failing; emitter = failure_capture_with_defaults (Leaf 0) 0;
          (_, w) = emits E emitter [''e1''] (mock_world t 1 ());
          (result, w1) = shutdown E emitter w
      in failure_buffer_len (failure_buffers w 0) = 1 \<and> is_ok result \<and> failure_buffer_len (failure_buffers w1 0) = 1)"

definition test_buffer_emitter_shutdown_empty :: "nat \<Rightarrow> bool" where
  "test_buffer_emitter_shutdown_empty t \<longleftrightarrow>
     (let E = mock_env id (\<lambda>x _. x) success_emitter; emitter = failure_capture_with_defaults (Leaf 0) 0;
          (_, w) = emits E emitter [''e1''] (mock_world t 1 ());
          (result, w1) = shutdown E emitter w
      in failure_buffer_is_empty (failure_buffers w 0) \<and> is_ok result)"

lemmas capture_test_defs = emits_def mock_defs wrapper_defs failure_capture_with_defaults_def capture_emit_def
  failed_events_def failure_capture_config_default_def

lemma capture_tests_pass:
  "test_buffer_emitter_captures_failures t" "test_buffer_emitter_passthrough_success t" "test_buffer_emitter_sample_mode t"
  "test_buffer_emitter_health_passthrough t" "test_buffer_emitter_shutdown_with_events t" "test_buffer_emitter_shutdown_empty t"
  by (simp_all add: test_buffer_emitter_captures_failures_def test_buffer_emitter_passthrough_success_def
      test_buffer_emitter_sample_mode_def test_buffer_emitter_health_passthrough_def
      test_buffer_emitter_shutdown_with_events_def test_buffer_emitter_shutdown_empty_def
      capture_test_defs buffer_test_defs show_nat.simps char_of_def bit_iff_odd sublist_code)

section \<open>The circuit breaker\<close>

fun emit_times :: "'x Env \<Rightarrow> Emitter \<Rightarrow> nat \<Rightarrow> 'x World \<Rightarrow> 'x World" where
  "emit_times E em 0 w = w"
| "emit_times E em (Suc n) w = emit_times E em n (snd (emits E em [''test-1''] w))"

lemma emit_times_numeral [simp]:
  "emit_times E em (numeral v) w = emit_times E em (pred_numeral v) (snd (emits E em [''test-1''] w))"
  by (simp add: numeral_eq_Suc)

text \<open>An emitter that fails a number of times: its counter of calls is what it keeps.\<close>

definition recoverable_emitter :: "u32 \<Rightarrow> u32 leaf" where
  "recoverable_emitter max_failures =
     \<lparr>leaf_name = ''recoverable'',
      leaf_emit = (\<lambda>_ t count. (if count < max_failures then Inl (Connection ''temporary failure'') else Inr (), 0, count + 1)),
      leaf_health = (\<lambda>t x. (True, 0, x)), leaf_shutdown = (\<lambda>t x. (Inr (), 0, x))\<rparr>"

definition sleep :: "nat \<Rightarrow> 'x World \<Rightarrow> 'x World" where
  "sleep d w = w\<lparr>time_now := time_now w + d\<rparr>"

abbreviation breaker_state :: "'x World \<Rightarrow> CircuitState" where
  "breaker_state w \<equiv> current_state (breakers w 0)"

definition test_circuit_starts_closed :: "nat \<Rightarrow> bool" where
  "test_circuit_starts_closed t \<longleftrightarrow>
     breaker_state (snd (circuit_breaker_with_defaults 0 (Leaf 0) (mock_world t 1 ()))) = Closed"

definition test_circuit_allows_success :: "nat \<Rightarrow> bool" where
  "test_circuit_allows_success t \<longleftrightarrow>
     (let (cb, w) = circuit_breaker_with_defaults 0 (Leaf 0) (mock_world t 1 ());
          (result, w1) = emits (mock_env id (\<lambda>x _. x) success_emitter) cb [''test-1''] w
      in is_ok result \<and> breaker_state w1 = Closed)"

definition test_circuit_opens_after_threshold :: "nat \<Rightarrow> bool" where
  "test_circuit_opens_after_threshold t \<longleftrightarrow>
     (let E = mock_env id (\<lambda>x _. x) always_failing;
          (cb, w) = circuit_breaker_new 0 (circuit_breaker_config_default\<lparr>failure_threshold := 3\<rparr>) (Leaf 0) (mock_world t 1 ());
          w1 = emit_times E cb 3 w
      in breaker_state w1 = Open \<and> open_count (breakers w1 0) = 1)"

definition test_open_circuit_rejects_requests :: "nat \<Rightarrow> bool" where
  "test_open_circuit_rejects_requests t \<longleftrightarrow>
     (let E = mock_env id (\<lambda>x _. x) always_failing;
          (cb, w) = circuit_breaker_new 0
            (circuit_breaker_config_default\<lparr>failure_threshold := 1, reset_timeout := 60 * 10 ^ 9\<rparr>) (Leaf 0) (mock_world t 1 ());
          (_, w1) = emits E cb [''test-1''] w;
          (result, w2) = emits E cb [''test-1''] w1
      in breaker_state w1 = Open \<and> result = Inl NotReady \<and> rejected_count (breakers w2 0) = 1)"

definition test_circuit_transitions_to_half_open :: "nat \<Rightarrow> nat \<Rightarrow> bool" where
  "test_circuit_transitions_to_half_open t d \<longleftrightarrow>
     (let E = mock_env id (\<lambda>x _. x) always_failing;
          (cb, w) = circuit_breaker_new 0
            (circuit_breaker_config_default\<lparr>failure_threshold := 1, reset_timeout := 10 * 10 ^ 6\<rparr>) (Leaf 0) (mock_world t 1 ());
          (_, w1) = emits E cb [''test-1''] w;
          (_, w2) = emits E cb [''test-1''] (sleep d w1)
      in breaker_state w1 = Open \<and> breaker_state w2 = Open)"

definition test_circuit_closes_after_success :: "nat \<Rightarrow> nat \<Rightarrow> bool" where
  "test_circuit_closes_after_success t d \<longleftrightarrow>
     (let E = mock_env id (\<lambda>x _. x) (recoverable_emitter 2);
          (cb, w) = circuit_breaker_new 0
            \<lparr>failure_threshold = 1, success_threshold = 1, reset_timeout = 5 * 10 ^ 6, half_open_max_requests = 1\<rparr>
            (Leaf 0) (mock_world t 1 0);
          (_, w1) = emits E cb [''test-1''] w;
          (_, w2) = emits E cb [''test-1''] (sleep d w1);
          (result, w3) = emits E cb [''test-1''] (sleep d w2)
      in breaker_state w1 = Open \<and> breaker_state w2 = Open \<and> is_ok result \<and> breaker_state w3 = Closed)"

definition test_health_reflects_circuit_state :: "nat \<Rightarrow> bool" where
  "test_health_reflects_circuit_state t \<longleftrightarrow>
     (let E = mock_env id (\<lambda>x _. x) always_failing;
          (cb, w) = circuit_breaker_new 0 (circuit_breaker_config_default\<lparr>failure_threshold := 1\<rparr>) (Leaf 0) (mock_world t 1 ());
          (healthy, w1) = health E cb w;
          (_, w2) = emits E cb [''test-1''] w1
      in \<not> healthy \<and> breaker_state w2 = Open \<and> \<not> fst (health E cb w2))"

definition test_success_resets_failure_count :: "nat \<Rightarrow> bool" where
  "test_success_resets_failure_count t \<longleftrightarrow>
     (let E = mock_env id (\<lambda>x _. x) (recoverable_emitter 2);
          (cb, w) = circuit_breaker_new 0 (circuit_breaker_config_default\<lparr>failure_threshold := 5\<rparr>) (Leaf 0) (mock_world t 1 0);
          (_, w1) = emits E cb [''test-1''] w;
          (_, w2) = emits E cb [''test-1''] w1;
          (result, w3) = emits E cb [''test-1''] w2
      in is_ok result \<and> breaker_state w3 = Closed)"

lemmas breaker_test_defs = emits_def mock_defs recoverable_emitter_def sleep_def wrapper_defs circuit_breaker_with_defaults_def
  circuit_breaker_config_default_def put_breaker_def breaker_cell_new_def circuit_breaker_state_new_def current_state_def
  breaker_emit_def breaker_ops

lemma breaker_tests_pass:
  "test_circuit_starts_closed t" "test_circuit_allows_success t" "test_circuit_opens_after_threshold t"
  "test_open_circuit_rejects_requests t" "test_health_reflects_circuit_state t" "test_success_resets_failure_count t"
  by (simp_all add: test_circuit_starts_closed_def test_circuit_allows_success_def test_circuit_opens_after_threshold_def
      test_open_circuit_rejects_requests_def test_health_reflects_circuit_state_def test_success_resets_failure_count_def
      breaker_test_defs word_le_nat_alt cong: prod.case_cong_weak let_weak_cong)

lemma breaker_timed_tests_pass:
  "15 * 10 ^ 6 \<le> d \<Longrightarrow> test_circuit_transitions_to_half_open t d"
  "10 * 10 ^ 6 \<le> d \<Longrightarrow> test_circuit_closes_after_success t d"
  by (simp_all add: test_circuit_transitions_to_half_open_def test_circuit_closes_after_success_def breaker_test_defs
      cong: prod.case_cong_weak let_weak_cong)

section \<open>Retry and backoff\<close>

text \<open>An emitter that fails a number of times and counts its calls.\<close>

definition failing_emitter :: "u32 \<Rightarrow> (u32 \<times> u32) leaf" where
  "failing_emitter max_failures =
     \<lparr>leaf_name = ''failing'',
      leaf_emit = (\<lambda>_ t (fail_count, calls).
        (if fail_count < max_failures then Inl (Connection ''simulated failure'') else Inr (), 0, (fail_count + 1, calls + 1))),
      leaf_health = (\<lambda>t x. (True, 0, x)), leaf_shutdown = (\<lambda>t x. (Inr (), 0, x))\<rparr>"

definition test_backoff_attempt_zero_is_zero :: "(real \<Rightarrow> real) \<Rightarrow> (f64 \<Rightarrow> int \<Rightarrow> f64) \<Rightarrow> u64 \<Rightarrow> bool" where
  "test_backoff_attempt_zero_is_zero fl pwi rng \<longleftrightarrow> fst (delay_for_attempt fl pwi backoff_config_default 0 rng) = 0"

text \<open>The numbers of these tests are exact in \<open>f64\<close>, so that no operation rounds.\<close>

definition exact_delay :: "BackoffConfig \<Rightarrow> u32 \<Rightarrow> f64 \<Rightarrow> nat" where
  "exact_delay = delay_for_attempt_with_jitter (\<lambda>x. x) (\<lambda>x n. x ^ nat n)"

definition test_backoff_exponential_growth :: bool where
  "test_backoff_exponential_growth \<longleftrightarrow>
     (let config = \<lparr>initial_delay = 100 * 10 ^ 6, max_delay = 10 * 10 ^ 9, multiplier = 2, max_attempts = 10, jitter_factor = 0\<rparr>
      in exact_delay config 1 (1 / 2) = 100 * 10 ^ 6 \<and> exact_delay config 2 (1 / 2) = 200 * 10 ^ 6 \<and>
         exact_delay config 3 (1 / 2) = 400 * 10 ^ 6 \<and> exact_delay config 4 (1 / 2) = 800 * 10 ^ 6)"

definition test_backoff_caps_at_max :: bool where
  "test_backoff_caps_at_max \<longleftrightarrow>
     (let config = \<lparr>initial_delay = 100 * 10 ^ 6, max_delay = 500 * 10 ^ 6, multiplier = 2, max_attempts = 10, jitter_factor = 0\<rparr>
      in exact_delay config 4 (1 / 2) = 500 * 10 ^ 6 \<and> exact_delay config 10 (1 / 2) = 500 * 10 ^ 6)"

definition test_backoff_jitter_range :: bool where
  "test_backoff_jitter_range \<longleftrightarrow>
     (let config = \<lparr>initial_delay = 100 * 10 ^ 6, max_delay = 10 * 10 ^ 9, multiplier = 2, max_attempts = 10, jitter_factor = 1 / 4\<rparr>
      in exact_delay config 1 0 = 75 * 10 ^ 6 \<and> exact_delay config 1 1 = 125 * 10 ^ 6)"

lemma backoff_tests_pass:
  "test_backoff_attempt_zero_is_zero fl pwi rng" "test_backoff_exponential_growth" "test_backoff_caps_at_max"
  "test_backoff_jitter_range"
  by (simp_all add: test_backoff_attempt_zero_is_zero_def test_backoff_exponential_growth_def test_backoff_caps_at_max_def
      test_backoff_jitter_range_def exact_delay_def delay_for_attempt_with_jitter_def backoff_base_us_def as_micros_def
      from_micros_def f64_as_u64_def Let_def)

definition retrying :: "(real \<Rightarrow> real) \<Rightarrow> (f64 \<Rightarrow> int \<Rightarrow> f64) \<Rightarrow> u32 \<Rightarrow> BackoffConfig \<Rightarrow> nat \<Rightarrow> u64 \<Rightarrow>
    plugin_result \<times> (u32 \<times> u32) World" where
  "retrying fl pwi max_failures config t rng =
     (let (retry, w) = retry_emitter_new 0 config (Leaf 0) (mock_world t rng (0, 0))
      in emits (mock_env fl pwi (failing_emitter max_failures)) retry [''test-1''] w)"

abbreviation calls :: "(u32 \<times> u32) World \<Rightarrow> u32" where
  "calls w \<equiv> snd (backend w)"

definition test_retry_succeeds_first_try where
  "test_retry_succeeds_first_try fl pwi t rng \<longleftrightarrow>
     (let (result, w) = retrying fl pwi 0 (backoff_config_default\<lparr>max_attempts := 3, initial_delay := 10 ^ 6\<rparr>) t rng
      in is_ok result \<and> calls w = 1 \<and> retry_count (retries w 0) = 0 \<and> recovered_count (retries w 0) = 0)"

definition test_retry_recovers_from_transient_failure where
  "test_retry_recovers_from_transient_failure fl pwi t rng \<longleftrightarrow>
     (let (result, w) = retrying fl pwi 2
        (backoff_config_default\<lparr>max_attempts := 3, initial_delay := 10 ^ 6, max_delay := 10 * 10 ^ 6\<rparr>) t rng
      in is_ok result \<and> calls w = 3 \<and> retry_count (retries w 0) = 2 \<and> recovered_count (retries w 0) = 1)"

definition test_retry_exhausted where
  "test_retry_exhausted fl pwi t rng \<longleftrightarrow>
     (let (result, w) = retrying fl pwi 10 (backoff_config_default\<lparr>max_attempts := 3, initial_delay := 10 ^ 6\<rparr>) t rng
      in \<not> is_ok result \<and> calls w = 4 \<and> retry_count (retries w 0) = 3 \<and> recovered_count (retries w 0) = 0)"

definition test_retry_health_passthrough where
  "test_retry_health_passthrough fl pwi t rng \<longleftrightarrow>
     (let (retry, w) = retry_emitter_with_defaults 0 (Leaf 0) (mock_world t rng (0, 0))
      in fst (health (mock_env fl pwi (failing_emitter 0)) retry w))"

lemma retry_wait_eq:
  "retry_wait E a cfg k w =
     (if (of_nat k :: u32) = 0 then w\<lparr>jitter_rng := xorshift64 (jitter_rng w)\<rparr>
      else (bump_retry a (w\<lparr>jitter_rng := xorshift64 (jitter_rng w)\<rparr>))
        \<lparr>time_now := time_now w + fst (delay_for_attempt (round_f64 E) (powi_f64 E) cfg (of_nat k) (jitter_rng w))\<rparr>)"
  by (simp add: retry_wait_def case_prod_beta Let_def bump_retry_def)

lemmas retry_test_defs = retrying_def emits_def mock_defs failing_emitter_def wrapper_defs retry_emitter_with_defaults_def
  backoff_config_default_def retry_emit_def retry_wait_eq bump_retry_def bump_recovered_def retry_cell_new_def Let_def

lemma retry_loop_numeral:
  "retry_loop E a cfg inner k (numeral v) e evs w =
     (case inner evs (retry_wait E a cfg k w) of
        (Inr _, w1) \<Rightarrow> (Inr (), if 0 < k then bump_recovered a w1 else w1)
      | (Inl e, w1) \<Rightarrow> retry_loop E a cfg inner (k + 1) (pred_numeral v) (Some e) evs w1)"
  by (simp add: numeral_eq_Suc)

lemma retry_tests_pass:
  "test_retry_succeeds_first_try fl pwi t rng" "test_retry_recovers_from_transient_failure fl pwi t rng"
  "test_retry_exhausted fl pwi t rng" "test_retry_health_passthrough fl pwi t rng"
  by (simp_all add: test_retry_succeeds_first_try_def test_retry_recovers_from_transient_failure_def
      test_retry_exhausted_def test_retry_health_passthrough_def retry_test_defs retry_loop_numeral
      cong: prod.case_cong_weak let_weak_cong)

section \<open>Stacks\<close>

text \<open>Building on a mock in a fresh world, and emitting one test event.\<close>

definition built :: "ResilientEmitter \<Rightarrow> nat \<Rightarrow> u64 \<Rightarrow> Emitter \<times> u32 World" where
  "built self t rng = build 0 self (mock_world t rng 0)"

abbreviation captured_in :: "'x World \<Rightarrow> FailureBuffer" where
  "captured_in w \<equiv> failure_buffers w 0"

definition test_resilient_emitter_with_retry_recovers where
  "test_resilient_emitter_with_retry_recovers fl pwi t rng \<longleftrightarrow>
     (let (resilient, w) = built (with_default_failure_capture 0
            (with_retry (backoff_config_default\<lparr>max_attempts := 3, initial_delay := 10 ^ 6\<rparr>) (wrap_arc (Leaf 0)))) t rng;
          (result, w1) = emits (mock_env fl pwi (recoverable_emitter 2)) resilient [''test-1''] w
      in is_ok result \<and> failure_buffer_is_empty (captured_in w1))"

definition test_resilient_emitter_captures_after_retries_exhausted where
  "test_resilient_emitter_captures_after_retries_exhausted fl pwi t rng \<longleftrightarrow>
     (let (resilient, w) = built (with_default_failure_capture 0
            (with_retry (backoff_config_default\<lparr>max_attempts := 2, initial_delay := 10 ^ 6\<rparr>) (wrap_arc (Leaf 0)))) t rng;
          (result, w1) = emits (mock_env fl pwi always_failing) resilient [''test-1''] w
      in \<not> is_ok result \<and> failure_buffer_len (captured_in w1) = 1)"

definition test_resilient_emitter_circuit_breaker_opens where
  "test_resilient_emitter_circuit_breaker_opens fl pwi t rng \<longleftrightarrow>
     (let E = mock_env fl pwi always_failing;
          (resilient, w) = built (with_default_failure_capture 0 (with_circuit_breaker
            (circuit_breaker_config_default\<lparr>failure_threshold := 2, reset_timeout := 60 * 10 ^ 9\<rparr>)
            (with_retry (backoff_config_default\<lparr>max_attempts := 0\<rparr>) (wrap_arc (Leaf 0))))) t rng;
          (_, w1) = emits E resilient [''test-1''] w;
          (_, w2) = emits E resilient [''test-1''] w1;
          (result, w3) = emits E resilient [''test-1''] w2
      in result = Inl NotReady \<and> 2 \<le> failure_buffer_len (captured_in w3))"

definition test_resilient_emitter_full_stack where
  "test_resilient_emitter_full_stack fl pwi t rng \<longleftrightarrow>
     (let (resilient, w) = built (with_default_failure_capture 0 (with_circuit_breaker
            (circuit_breaker_config_default\<lparr>failure_threshold := 5\<rparr>)
            (with_retry (backoff_config_default\<lparr>max_attempts := 2, initial_delay := 10 ^ 6\<rparr>) (wrap_arc (Leaf 0))))) t rng;
          (result, w1) = emits (mock_env fl pwi (recoverable_emitter 1)) resilient [''test-1''] w
      in is_ok result \<and> failure_buffer_is_empty (captured_in w1))"

definition test_builder_defaults where
  "test_builder_defaults fl pwi t rng \<longleftrightarrow>
     (let (resilient, w) = built (with_default_circuit_breaker (with_default_retry (wrap_arc (Leaf 0)))) t rng
      in is_ok (fst (emits (mock_env fl pwi (recoverable_emitter 0)) resilient [''test-1''] w)))"

definition test_builder_arc_input where
  "test_builder_arc_input fl pwi t rng \<longleftrightarrow>
     (let (resilient, w) = built (with_default_retry (wrap_arc (Leaf 0))) t rng
      in is_ok (fst (emits (mock_env fl pwi (recoverable_emitter 0)) resilient [''test-1''] w)))"

lemmas stack_test_defs = built_def build_def wrap_arc_def with_retry_def with_default_retry_def with_circuit_breaker_def
  with_default_circuit_breaker_def with_failure_capture_def with_default_failure_capture_def
  retry_test_defs breaker_test_defs capture_test_defs failure_buffer_new_def failure_buffer_push_def
  failure_buffer_len_def failure_buffer_is_empty_def retry_loop_numeral word_le_nat_alt

lemma stack_tests_pass:
  "test_resilient_emitter_with_retry_recovers fl pwi t rng"
  "test_resilient_emitter_captures_after_retries_exhausted fl pwi t rng"
  "test_resilient_emitter_circuit_breaker_opens fl pwi t rng" "test_resilient_emitter_full_stack fl pwi t rng"
  "test_builder_defaults fl pwi t rng" "test_builder_arc_input fl pwi t rng"
  by (simp_all add: test_resilient_emitter_with_retry_recovers_def test_resilient_emitter_captures_after_retries_exhausted_def
      test_resilient_emitter_circuit_breaker_opens_def test_resilient_emitter_full_stack_def test_builder_defaults_def
      test_builder_arc_input_def stack_test_defs cong: prod.case_cong_weak let_weak_cong)

end
