(* ===== verification/Service_Tests.thy ===== *)
theory Service_Tests
  imports Gateway_Server Config Metrics_Server Stdout_Emitter Middleware_Tests Resilience_Tests
begin

text \<open>
  The unit tests of the buffer, the envelope, the errors, the configuration, the metrics endpoint, the console emitter, the
  registry and the gateway service, run on the model. What a test does not control is its argument: \<open>c\<close> for the clocks and
  identifiers, \<open>fl\<close> for the rounding of \<open>f64\<close> operations, the registration of collectors and the encoder of the metrics
  library, the environment. Left out is \<open>test_zero_copy_clone\<close>, which compares addresses.
\<close>

section \<open>\<open>buffer.rs\<close>\<close>

definition make_message :: "string \<Rightarrow> Message" where
  "make_message i = message_with_id i 0 ''test'' ''test'' []"

definition numbered_messages :: "nat \<Rightarrow> Message list" where
  "numbered_messages n = map (\<lambda>i. make_message (''msg-'' @ show_nat i)) [0..<n]"

definition test_push_and_drain :: bool where
  "test_push_and_drain \<longleftrightarrow>
     (let (dropped, b1) = ring_buffer_push (numbered_messages 5) (ring_buffer_new 10);
          (drained, b2) = ring_buffer_drain 3 b1
      in dropped = 0 \<and> ring_buffer_len b1 = 5 \<and> length drained = 3 \<and> msg_id (drained ! 0) = ''msg-0'' \<and>
         msg_id (drained ! 2) = ''msg-2'' \<and> ring_buffer_len b2 = 2)"

definition test_overflow_drops_oldest :: bool where
  "test_overflow_drops_oldest \<longleftrightarrow>
     (let (dropped, b1) = ring_buffer_push (numbered_messages 5) (ring_buffer_new 3);
          (drained, b2) = ring_buffer_drain 3 b1
      in dropped = 2 \<and> ring_buffer_len b1 = 3 \<and> msg_id (drained ! 0) = ''msg-2'' \<and>
         msg_id (drained ! 1) = ''msg-3'' \<and> msg_id (drained ! 2) = ''msg-4'')"

definition test_fill_ratio :: "(real \<Rightarrow> real) \<Rightarrow> bool" where
  "test_fill_ratio fl \<longleftrightarrow>
     (let (_, b) = ring_buffer_push (numbered_messages 50) (ring_buffer_new 100)
      in \<bar>fl (fill_ratio fl b - fl (1 / 2))\<bar> < fl (1 / 100))"

definition test_metrics :: bool where
  "test_metrics \<longleftrightarrow>
     (let (_, b1) = ring_buffer_push (numbered_messages 10) (ring_buffer_new 5);
          (_, b2) = ring_buffer_drain 5 b1
      in total_dropped b1 = 5 \<and> total_drained b2 = 5)"

lemma length_numbered [simp]: "length (numbered_messages n) = n"
  by (simp add: numbered_messages_def)

lemma msg_id_numbered [simp]: "i < n \<Longrightarrow> msg_id (numbered_messages n ! i) = ''msg-'' @ show_nat i"
  by (simp add: numbered_messages_def make_message_def message_with_id_def)

text \<open>The numbered messages after a push into an empty buffer: the newest ones that fit.\<close>

lemma push_numbered:
  assumes "0 < c"
  shows "messages (rb_put (numbered_messages n) (ring_buffer_new c)) = drop (n - c) (numbered_messages n)"
    and "fst (ring_buffer_push (numbered_messages n) (ring_buffer_new c)) = n - c"
  using assms messages_push [of "ring_buffer_new c" "numbered_messages n"]
    dropped_push [of "ring_buffer_new c" "numbered_messages n"]
  by (simp_all add: ring_buffer_new_def rb_wf_def)

lemma buffer_tests_pass: test_push_and_drain test_overflow_drops_oldest test_metrics
  by (simp_all add: test_push_and_drain_def test_overflow_drops_oldest_def test_metrics_def push_numbered case_prod_beta
      ring_buffer_len_def show_nat.simps char_of_def bit_iff_odd total_dropped_push total_drained_drain total_drained_push Let_def)
    (simp_all add: ring_buffer_new_def buffer_metrics_default_def total_dropped_def total_drained_def)

text \<open>The halves are exact: only the literal \<open>0.01\<close> may be rounded, and it stays positive.\<close>

lemma fill_ratio_test_passes:
  assumes "fl 0 = 0" and "fl (1 / 2) = 1 / 2" and "fl 50 = 50" and "fl 100 = 100" and "0 < fl (1 / 100)"
  shows "test_fill_ratio fl"
  using assms by (simp add: test_fill_ratio_def fill_ratio_def push_numbered case_prod_beta)
    (simp add: ring_buffer_new_def)

section \<open>\<open>message.rs\<close>\<close>

definition test_message_creation :: "Call \<Rightarrow> bool" where
  "test_message_creation c \<longleftrightarrow>
     (let p = [CHR 0x7B, CHR 0x22] @ ''user_id'' @ [CHR 0x22] @ '': 123'' @ [CHR 0x7D];
          msg = new_message c ''user-service'' ''user.created'' p
      in msg_id msg \<noteq> [] \<and> 0 < sint (timestamp msg) \<and> source msg = ''user-service'' \<and>
         message_type msg = ''user.created'' \<and> payload msg = p \<and> route_to msg = [])"

definition test_message_with_metadata :: "Call \<Rightarrow> bool" where
  "test_message_with_metadata c \<longleftrightarrow>
     (let msg = with_metadata (with_metadata (new_message c ''svc'' ''evt'' []) ''trace_id'' ''abc-123'') ''tenant'' ''acme''
      in metadata msg ''trace_id'' = Some ''abc-123'' \<and> metadata msg ''tenant'' = Some ''acme'')"

definition test_message_routing :: "Call \<Rightarrow> bool" where
  "test_message_routing c \<longleftrightarrow>
     (let to_all = new_message c ''svc'' ''evt'' [];
          targeted = with_routes (new_message c ''svc'' ''evt'' []) [''kafka'', ''metrics'']
      in should_route_to to_all ''any-output'' \<and> should_route_to to_all ''another'' \<and>
         should_route_to targeted ''kafka'' \<and> should_route_to targeted ''metrics'' \<and>
         \<not> should_route_to targeted ''stdout'')"

definition test_payload_str :: "Call \<Rightarrow> bool" where
  "test_payload_str c \<longleftrightarrow>
     (let p = [CHR 0x7B, CHR 0x22] @ ''valid'' @ [CHR 0x22] @ '': '' @ [CHR 0x22] @ ''json'' @ [CHR 0x22, CHR 0x7D];
          json = new_message c ''svc'' ''evt'' p;
          binary = new_message c ''svc'' ''evt'' [CHR 0xFF, CHR 0xFE]
      in payload_str json = Some p \<and> payload_str binary = None)"

definition test_proto_conversion :: "Call \<Rightarrow> bool" where
  "test_proto_conversion c \<longleftrightarrow>
     (let msg = with_routes (with_metadata (new_message c ''svc'' ''user.created'' ''test'') ''key'' ''value'') [''out1''];
          proto = event_from_message msg;
          back = message_from_event proto
      in ev_id proto = msg_id msg \<and> ev_source proto = ''svc'' \<and> event_type proto = ''user.created'' \<and>
         ev_metadata proto ''key'' = Some ''value'' \<and>
         msg_id back = msg_id msg \<and> source back = source msg \<and> message_type back = message_type msg)"

lemma message_tests_pass:
  "test_message_with_metadata c" "test_message_routing c" "test_payload_str c" "test_proto_conversion c"
  by (simp_all add: test_message_with_metadata_def test_message_routing_def test_payload_str_def
      test_proto_conversion_def should_route_to_def payload_str_def in_range_def continuation_def
      event_from_message_def message_from_event_def message_test_defs)

text \<open>The first test relies on a clock after 1970 and on identifiers that are not empty.\<close>

lemma creation_test_passes:
  "call_ulid c \<noteq> [] \<Longrightarrow> call_wall c = Some t \<Longrightarrow> 0 < sint t \<Longrightarrow> test_message_creation c"
  by (simp add: test_message_creation_def message_test_defs)

section \<open>\<open>error.rs\<close>, \<open>config.rs\<close>, \<open>metrics_server.rs\<close>\<close>

definition test_plugin_error_to_polku_error :: bool where
  "test_plugin_error_to_polku_error \<longleftrightarrow>
     (case polku_error_from_plugin_error (Init ''failed to connect'') of Plugin _ _ \<Rightarrow> True | _ \<Rightarrow> False)"

definition test_polku_error_to_grpc_status :: bool where
  "test_polku_error_to_grpc_status \<longleftrightarrow> code (status_from_polku_error (BufferFull 100)) = ResourceExhausted"

definition test_default_config :: bool where
  "test_default_config \<longleftrightarrow>
     cfg_buffer_capacity config_default = 100000 \<and> cfg_batch_size config_default = 1000 \<and>
     cfg_flush_interval_ms config_default = 100"

definition test_config_from_env :: "(string \<Rightarrow> string) \<Rightarrow> environment \<Rightarrow> bool" where
  "test_config_from_env lower environ \<longleftrightarrow>
     (case config_from_env lower environ of Inl _ \<Rightarrow> False | Inr config \<Rightarrow> 0 < cfg_buffer_capacity config)"

definition test_metrics_handler_returns_prometheus_format ::
    "(string \<Rightarrow> string option) \<Rightarrow> (Metrics option \<Rightarrow> bytes option) \<Rightarrow> Metrics option \<Rightarrow> bool" where
  "test_metrics_handler_returns_prometheus_format register encode registered \<longleftrightarrow>
     (let (_, registered) = metrics_init register registered;
          response = metrics_handler encode registered
      in response_status response = 200 \<and>
         (case content_type response of None \<Rightarrow> False | Some ct \<Rightarrow> sublist ''text/plain'' ct))"

definition test_health_handler :: bool where
  "test_health_handler \<longleftrightarrow> response_status health_handler = 200"

lemma small_tests_pass:
  test_plugin_error_to_polku_error test_polku_error_to_grpc_status test_default_config
  "test_metrics_handler_returns_prometheus_format register encode registered" test_health_handler
  by (simp_all add: test_plugin_error_to_polku_error_def test_polku_error_to_grpc_status_def test_default_config_def
      test_metrics_handler_returns_prometheus_format_def test_health_handler_def polku_error_from_plugin_error_def
      mk_status_def config_default_def metrics_handler_def health_handler_def sublist_Cons_right case_prod_beta)

text \<open>The configuration test relies on an environment in which the variables are not set.\<close>

lemma config_test_passes: "test_config_from_env lower (\<lambda>_. None)"
  by (simp add: test_config_from_env_def config_from_env_def load_var_def env_var_def try_then_def config_default_def)

section \<open>\<open>stdout.rs\<close>\<close>

definition make_event :: "string \<Rightarrow> Event" where
  "make_event i =
     \<lparr>ev_id = i, timestamp_unix_ns = 1234567890, ev_source = ''test-source'', event_type = ''test'',
      ev_metadata = Map.empty, ev_payload = [CHR 0x01, CHR 0x02, CHR 0x03], ev_route_to = []\<rparr>"

definition test_emit_events :: "'o Console \<Rightarrow> 'o \<Rightarrow> bool" where
  "test_emit_events C out \<longleftrightarrow>
     (let (r, emitter) = stdout_emit C [make_event ''e1'', make_event ''e2''] (stdout_emitter_new out)
      in is_ok r \<and> emitted_count emitter = 2)"

definition test_health :: "'o \<Rightarrow> bool" where
  "test_health out \<longleftrightarrow> stdout_health (stdout_emitter_new out)"

lemma stdout_tests_pass: "test_emit_events C out" "test_health out"
  by (simp_all add: test_emit_events_def test_health_def stdout_emit_def emitted_count_def stdout_emitter_new_def
      stdout_health_def)

section \<open>\<open>registry.rs\<close>\<close>

definition mock_ingestor :: "string \<Rightarrow> Ingestor" where
  "mock_ingestor nm =
     \<lparr>ingestor_name = nm,
      ingestor_ingest = (\<lambda>ctx data. Inr [\<lparr>ev_id = ctx_source ctx @ '':'' @ show_nat (length data), timestamp_unix_ns = 0,
        ev_source = ctx_source ctx, event_type = ''test'', ev_metadata = Map.empty, ev_payload = data, ev_route_to = []\<rparr>])\<rparr>"

definition mock_emitter :: "string \<Rightarrow> 'x leaf" where
  "mock_emitter nm =
     \<lparr>leaf_name = nm, leaf_emit = (\<lambda>_ t x. (Inr (), 0, x)), leaf_health = (\<lambda>t x. (True, 0, x)),
      leaf_shutdown = (\<lambda>t x. (Inr (), 0, x))\<rparr>"

text \<open>The emitters of the tests are the leaves 1 and 2, whose names are \<open>emitter1\<close> and \<open>emitter2\<close>.\<close>

definition registry_env :: "(real \<Rightarrow> real) \<Rightarrow> (f64 \<Rightarrow> int \<Rightarrow> f64) \<Rightarrow> 'x Env" where
  "registry_env fl pwi =
     \<lparr>round_f64 = fl, powi_f64 = pwi, leaves = (\<lambda>n. mock_emitter (''emitter'' @ show_nat n))\<rparr>"

definition test_register_ingestor :: bool where
  "test_register_ingestor \<longleftrightarrow>
     (let registry = register_ingestor ''test-source'' (mock_ingestor ''test-ingestor'') plugin_registry_new
      in has_ingestor ''test-source'' registry \<and> \<not> has_ingestor ''unknown'' registry \<and> ingestor_count registry = 1)"

definition test_register_emitter :: bool where
  "test_register_emitter \<longleftrightarrow> emitter_count (register_emitter (Leaf 0) plugin_registry_new) = 1"

definition test_ingest :: bool where
  "test_ingest \<longleftrightarrow>
     (let registry = register_ingestor ''test-source'' (mock_ingestor ''test-ingestor'') plugin_registry_new;
          ctx = \<lparr>ctx_source = ''test-source'', ctx_cluster = ''test-cluster'', ctx_format = ''protobuf''\<rparr>
      in case registry_ingest ctx ''hello'' registry of
           Inl _ \<Rightarrow> False | Inr events \<Rightarrow> length events = 1 \<and> ev_id (events ! 0) = ''test-source:5'')"

definition test_ingest_unknown_source :: bool where
  "test_ingest_unknown_source \<longleftrightarrow>
     (let ctx = \<lparr>ctx_source = ''unknown'', ctx_cluster = ''test-cluster'', ctx_format = ''protobuf''\<rparr>
      in \<not> is_ok (registry_ingest ctx ''hello'' plugin_registry_new))"

definition test_emit_to_all :: "(real \<Rightarrow> real) \<Rightarrow> (f64 \<Rightarrow> int \<Rightarrow> f64) \<Rightarrow> 'x World \<Rightarrow> bool" where
  "test_emit_to_all fl pwi w \<longleftrightarrow>
     (let registry = register_emitter (Leaf 2) (register_emitter (Leaf 1) plugin_registry_new);
          event = \<lparr>ev_id = ''test'', timestamp_unix_ns = 0, ev_source = ''test'', event_type = ''test'',
            ev_metadata = Map.empty, ev_payload = [], ev_route_to = []\<rparr>
      in fst (emit_to_all (registry_env fl pwi) [event] registry w) = 2)"

definition test_emitter_health :: "(real \<Rightarrow> real) \<Rightarrow> (f64 \<Rightarrow> int \<Rightarrow> f64) \<Rightarrow> 'x World \<Rightarrow> bool" where
  "test_emitter_health fl pwi w \<longleftrightarrow>
     (let registry = register_emitter (Leaf 1) plugin_registry_new;
          (h, _) = emitter_health (registry_env fl pwi) registry w
      in map_of h ''emitter1'' = Some True)"

lemma registry_tests_pass:
  test_register_ingestor test_register_emitter test_ingest test_ingest_unknown_source "test_emit_to_all fl pwi w"
  "test_emitter_health fl pwi w"
  by (simp_all add: test_register_ingestor_def test_register_emitter_def test_ingest_def test_ingest_unknown_source_def
      test_emit_to_all_def test_emitter_health_def register_ingestor_def register_emitter_def plugin_registry_new_def
      has_ingestor_def ingestor_count_def emitter_count_def registry_ingest_def mock_ingestor_def show_nat.simps
      char_of_def bit_iff_odd emit_to_all_def emitter_health_def registry_env_def mock_emitter_def case_prod_beta)

section \<open>\<open>server.rs\<close>\<close>

definition make_service :: "nat \<Rightarrow> GatewayService" where
  "make_service t = gateway_service_new t (ring_buffer_new 100)"

definition test_process_event_passthrough :: "nat \<Rightarrow> bool" where
  "test_process_event_passthrough t \<longleftrightarrow>
     (let event = \<lparr>ev_id = ''test-id'', timestamp_unix_ns = 123, ev_source = ''test'', event_type = ''test.event'',
            ev_metadata = Map.empty, ev_payload = [CHR 0x01, CHR 0x02, CHR 0x03], ev_route_to = []\<rparr>;
          ingest = \<lparr>ie_source = ''client'', ie_cluster = ''prod'', ie_format = [], ie_payload = Some (Event_Event event)\<rparr>
      in case process_event ingest (make_service t) of Inl _ \<Rightarrow> False | Inr e \<Rightarrow> ev_id e = ''test-id'')"

definition test_process_event_empty_payload :: "nat \<Rightarrow> bool" where
  "test_process_event_empty_payload t \<longleftrightarrow>
     (let ingest = \<lparr>ie_source = ''client'', ie_cluster = ''prod'', ie_format = [], ie_payload = None\<rparr>
      in \<not> is_ok (process_event ingest (make_service t)))"

definition test_process_batch_passthrough :: bool where
  "test_process_batch_passthrough \<longleftrightarrow>
     (let e1 = \<lparr>ev_id = ''e1'', timestamp_unix_ns = 1, ev_source = ''test'', event_type = ''test'',
            ev_metadata = Map.empty, ev_payload = [], ev_route_to = []\<rparr>;
          e2 = \<lparr>ev_id = ''e2'', timestamp_unix_ns = 2, ev_source = ''test'', event_type = ''test'',
            ev_metadata = Map.empty, ev_payload = [], ev_route_to = []\<rparr>;
          batch = \<lparr>batch_source = ''client'', batch_cluster = ''prod'',
            batch_body = Some (Batch_Events \<lparr>payload_events = [e1, e2]\<rparr>)\<rparr>
      in case process_batch_with_registry batch plugin_registry_new of Inl _ \<Rightarrow> False | Inr es \<Rightarrow> length es = 2)"

definition test_process_batch_empty :: bool where
  "test_process_batch_empty \<longleftrightarrow>
     (let batch = \<lparr>batch_source = ''client'', batch_cluster = ''prod'', batch_body = None\<rparr>
      in case process_batch_with_registry batch plugin_registry_new of Inl _ \<Rightarrow> False | Inr es \<Rightarrow> es = [])"

definition test_process_batch_raw_no_plugin :: bool where
  "test_process_batch_raw_no_plugin \<longleftrightarrow>
     (let batch = \<lparr>batch_source = ''unknown-source'', batch_cluster = ''prod'',
            batch_body = Some (Batch_Raw \<lparr>raw_data = [CHR 0x7B, CHR 0x7D], raw_format = ''json''\<rparr>)\<rparr>
      in \<not> is_ok (process_batch_with_registry batch plugin_registry_new))"

lemma service_tests_pass:
  "test_process_event_passthrough t" "test_process_event_empty_payload t" test_process_batch_passthrough
  test_process_batch_empty test_process_batch_raw_no_plugin
  by (simp_all add: test_process_event_passthrough_def test_process_event_empty_payload_def
      test_process_batch_passthrough_def test_process_batch_empty_def test_process_batch_raw_no_plugin_def
      process_event_def process_batch_with_registry_def registry_transform_def registry_ingest_def plugin_registry_new_def)

end
