(* ===== verification/Hub_Progress.thy ===== *)
theory Hub_Progress
  imports Hub
begin

text \<open>
  From anywhere to the end: a hub whose middlewares are well formed never panics in its receive loop, and from every state it
  can reach, the senders can be dropped and the pipeline run to its end, however many messages
  wait in the channel and the buffer and whatever the emitters answer. The steps that lead there
  are those of \<open>HubRunner::run\<close> in \<open>gateway/src/hub.rs\<close>.
\<close>

definition sound :: "'x HubSys \<Rightarrow> bool" where
  "sound s \<longleftrightarrow> list_all mw_wf (hub_chain s) \<and> \<not> run_panicked s \<and> (receiving s \<or> shutdown_flag s)"

lemma hub_receive_sound:
  assumes "sound s" and "channel s = m # ms"
  shows "sound (hub_receive M c s)" and "channel (hub_receive M c s) = ms"
    and "senders (hub_receive M c s) = senders s" and "accepted (hub_receive M c s) = accepted s"
    and "receiving (hub_receive M c s) = receiving s"
proof -
  obtain out mws where mws: "chain_process M c m (hub_chain s) = Inr (out, mws)" "list_all mw_wf mws"
    using chain_process_total [of "hub_chain s" M c m] assms(1) by (auto simp: sound_def)
  have "sound (hub_receive M c s) \<and> channel (hub_receive M c s) = ms \<and> senders (hub_receive M c s) = senders s \<and>
      accepted (hub_receive M c s) = accepted s \<and> receiving (hub_receive M c s) = receiving s"
    using assms mws by (cases out) (auto simp: hub_receive_def sound_def Let_def case_prod_beta)
  then show "sound (hub_receive M c s)" and "channel (hub_receive M c s) = ms"
    and "senders (hub_receive M c s) = senders s" and "accepted (hub_receive M c s) = accepted s"
    and "receiving (hub_receive M c s) = receiving s" by blast+
qed

lemma sound_step:
  assumes "hub_step M E R s t" and "sound s"
  shows "sound t"
  using assms(1)
proof cases
  case (send texts msg)
  with assms(2) show ?thesis by (auto simp: try_send_def sound_def split: if_splits)
next
  case (receive c)
  with assms(2) show ?thesis using hub_receive_sound(1) by (cases "channel s") auto
next
  case flush
  with assms(2) show ?thesis
    by (auto simp: sound_def flush_step_def Let_def case_prod_beta split: flush_pc.splits)
qed (use assms(2) in \<open>auto simp: sound_def hub_finish_def\<close>)

lemma sound_steps: "(hub_step M E R)\<^sup>*\<^sup>* s t \<Longrightarrow> sound s \<Longrightarrow> sound t"
  by (induction rule: rtranclp_induct) (auto intro: sound_step)

text \<open>The receive loop empties the channel.\<close>

lemma channel_drains:
  "sound s \<Longrightarrow> receiving s \<Longrightarrow>
   \<exists>t. (hub_step M E R)\<^sup>*\<^sup>* s t \<and> receiving t \<and> channel t = [] \<and> senders t = senders s \<and> accepted t = accepted s"
proof (induction "channel s" arbitrary: s)
  case Nil
  then show ?case by (intro exI [of _ s]) simp
next
  case (Cons m ms)
  fix c :: Call
  note next_state = hub_receive_sound [OF Cons.prems(1) Cons.hyps(2) [symmetric], of M c]
  have "hub_step M E R s (hub_receive M c s)"
    using Cons.prems(2) Cons.hyps(2) by (intro hub_step.receive) auto
  then show ?case
    using Cons.hyps(1) [of "hub_receive M c s"] next_state Cons.prems(2) by (metis converse_rtranclp_into_rtranclp)
qed

text \<open>The flush loop finishes once it is told to.\<close>

lemma flusher_finishes:
  assumes "shutdown_flag s" and "0 < runner_batch_size R"
  shows "\<exists>t. (hub_step M E R)\<^sup>*\<^sup>* s t \<and> flusher t = Finished \<and> accepted t = accepted s"
  using assms(1)
proof (induction "flush_measure (runner_emitters R) s" arbitrary: s rule: less_induct)
  case less
  show ?case
  proof (cases "flusher s = Finished")
    case False
    let ?t = "flush_step E (runner_emitters R) (runner_batch_size R) s"
    have "accepted ?t = accepted s"
      by (simp add: flush_step_def Let_def case_prod_beta split: flush_pc.splits)
    with less False assms(2) show ?thesis
      using flush_measure_decreases [of s "runner_batch_size R" "runner_emitters R" E]
      by (metis converse_rtranclp_into_rtranclp flush_frame(3) hub_step.flush)
  qed auto
qed

text \<open>C3. The hub can always come to its end: with a positive buffer capacity, a positive batch size and well-formed middlewares,
  the receive loop never panics, and from every state the hub can reach, without a further
  message, it can drain its channel and its buffer and finish; then every accepted message has
  been received, and nothing is left in the channel or in the buffer.\<close>

theorem hub_can_finish:
  assumes "0 < hub_buffer_capacity hub" and "0 < hub_batch_size hub" and "list_all mw_wf (hub_middleware hub)"
    and "(hub_step M E (hub_build hub))\<^sup>*\<^sup>* (hub_start register (hub_build hub) registered w) s"
  shows "\<not> run_panicked s \<and>
    (\<exists>t. (hub_step M E (hub_build hub))\<^sup>*\<^sup>* s t \<and> flusher t = Finished \<and> accepted t = accepted s \<and>
       map snd (received t) = accepted s \<and> channel t = [] \<and> messages (hub_buffer t) = [])"
proof -
  let ?R = "hub_build hub" and ?start = "hub_start register (hub_build hub) registered w"
  have R: "0 < runner_batch_size ?R" "0 < rb_capacity (runner_buffer ?R)" "messages (runner_buffer ?R) = []"
    using assms(1,2) by (simp_all add: hub_build_def ring_buffer_new_def)
  have "sound ?start" using assms(3) by (simp add: sound_def hub_start_def hub_build_def Let_def)
  then have s: "sound s" using sound_steps assms(4) by blast
  obtain u where u: "(hub_step M E ?R)\<^sup>*\<^sup>* s u" "shutdown_flag u" "accepted u = accepted s"
  proof (cases "receiving s")
    case True
    have "sound (s\<lparr>senders := False\<rparr>)" using sound_step [OF hub_step.close s] .
    then obtain v where v: "(hub_step M E ?R)\<^sup>*\<^sup>* (s\<lparr>senders := False\<rparr>) v" "receiving v" "channel v = []"
      "\<not> senders v" "accepted v = accepted s"
      using channel_drains [of "s\<lparr>senders := False\<rparr>" M E ?R] True by auto
    have "hub_step M E ?R s (s\<lparr>senders := False\<rparr>)" and "hub_step M E ?R v (hub_finish v)"
      using hub_step.close hub_step.finish v(2-4) by blast+
    with v that [of "hub_finish v"] show ?thesis
      by (simp add: hub_finish_def converse_rtranclp_into_rtranclp rtranclp.rtrancl_into_rtrancl)
  next
    case False
    with s that [of s] show ?thesis by (simp add: sound_def)
  qed
  obtain t where t: "(hub_step M E ?R)\<^sup>*\<^sup>* u t" "flusher t = Finished" "accepted t = accepted s"
    using flusher_finishes [OF u(2) R(1)] u(3) by metis
  have run: "(hub_step M E ?R)\<^sup>*\<^sup>* s t" using u(1) t(1) by simp
  then have "hub_inv M E ?R t"
    using hub_steps_inv [OF _ hub_inv_start [OF R(2,3)]] assms(4) rtranclp_trans by metis
  then have "map snd (received t) = accepted s" "channel t = []" "messages (hub_buffer t) = []"
    using t(2,3) by (auto simp: hub_inv_def shutdown_inv_def chain_inv_def)
  with run t s show ?thesis by (auto simp: sound_def)
qed

theorem hub_can_finish_witness:
  "\<exists>t. (hub_step sample_mw_env ok_env (hub_build small_hub))\<^sup>*\<^sup>*
      (hub_start (\<lambda>_. None) (hub_build small_hub) None idle_world) t \<and>
    flusher t = Finished \<and> accepted t = [sample_message ''m'']"
proof -
  let ?M = sample_mw_env and ?R = "hub_build small_hub" and ?m = "sample_message ''m''"
  let ?start = "hub_start (\<lambda>_. None) ?R None idle_world"
  have "hub_step ?M ok_env ?R ?start (snd (try_send ([], []) ?m ?start))"
    by (rule hub_step.send [of _ "([], [])" ?m]) (simp_all add: try_send_def hub_start_def Let_def)
  then have sent: "(hub_step ?M ok_env ?R)\<^sup>*\<^sup>* ?start (snd (try_send ([], []) ?m ?start))" by (rule r_into_rtranclp)
  have hub: "0 < hub_buffer_capacity small_hub" "0 < hub_batch_size small_hub" "list_all mw_wf (hub_middleware small_hub)"
    by (simp_all add: small_hub_defs)
  have "accepted (snd (try_send ([], []) ?m ?start)) = [?m]"
    by (simp add: try_send_def hub_start_def Let_def)
  moreover obtain t where "(hub_step ?M ok_env ?R)\<^sup>*\<^sup>* (snd (try_send ([], []) ?m ?start)) t" "flusher t = Finished"
    "accepted t = accepted (snd (try_send ([], []) ?m ?start))"
    using hub_can_finish [OF hub sent] by blast
  ultimately show ?thesis using rtranclp_trans [OF sent] by (intro exI [of _ t] conjI) simp_all
qed

end
