(* ===== verification/Delivery_Tests.thy ===== *)
theory Delivery_Tests
  imports Service_Tests Hub_Progress Grpc_Emitter Webhook_Emitter
begin

text \<open>
  The unit tests of the hub and of the gRPC and HTTP destinations, run on the model. A test that runs the hub has the schedule
  of its two loops as an argument and asserts at the end of the run; the lemmas show that it holds for every schedule and
  that some schedule does end. The servers that the tests start on a local port are the gateway service of this
  development and a small HTTP server; the calls that reach them take effect in an order that is an argument. Left
  out are \<open>test_hub_with_middleware\<close>, which stops the hub by a timeout of 100 ms, and \<open>test_webhook_emitter_connection_reset\<close>,
  which times the network.
\<close>

section \<open>Running a hub\<close>

text \<open>A schedule: \<open>Some c\<close> is a turn of the receive loop, \<open>None\<close> a step of the flush loop.\<close>

fun run_hub :: "'j MwEnv \<Rightarrow> 'x Env \<Rightarrow> HubRunner \<Rightarrow> Call option list \<Rightarrow> 'x HubSys \<Rightarrow> 'x HubSys" where
  "run_hub M E R [] s = s"
| "run_hub M E R (Some c # sched) s =
     run_hub M E R sched
       (if receiving s then
          (if channel s \<noteq> [] then hub_receive M c s else if senders s then s else hub_finish s)
        else s)"
| "run_hub M E R (None # sched) s = run_hub M E R sched (flush_step E (runner_emitters R) (runner_batch_size R) s)"

fun send_each :: "string \<times> string \<Rightarrow> Message list \<Rightarrow> 'x HubSys \<Rightarrow> bool \<times> 'x HubSys" where
  "send_each texts [] s = (True, s)"
| "send_each texts (msg # msgs) s =
     (case try_send texts msg s of (r, s) \<Rightarrow> (case send_each texts msgs s of (ok, s) \<Rightarrow> (is_ok r \<and> ok, s)))"

lemma run_hub_steps: "(hub_step M E R)\<^sup>*\<^sup>* s (run_hub M E R sched s)"
proof (induction sched arbitrary: s)
  case (Cons turn sched)
  let ?next = "run_hub M E R [turn] s"
  have "hub_step M E R s ?next \<or> ?next = s"
  proof (cases turn)
    case None
    have "flusher s = Finished \<Longrightarrow> flush_step E (runner_emitters R) (runner_batch_size R) s = s"
      by (simp add: flush_step_def)
    with None show ?thesis using hub_step.flush [of s M E R] by auto
  qed (auto intro: hub_step.receive hub_step.finish)
  moreover have "run_hub M E R (turn # sched) s = run_hub M E R sched ?next" by (cases turn) simp_all
  ultimately show ?case using Cons.IH [of ?next] by (auto intro: converse_rtranclp_into_rtranclp)
qed simp

lemma send_each_steps:
  assumes "senders s" and "\<not> run_panicked s" and "length (channel s) + length msgs \<le> 1024"
  shows "fst (send_each texts msgs s)" and "snd (send_each texts msgs s) =
      s\<lparr>channel := channel s @ msgs, accepted := accepted s @ msgs\<rparr>"
    and "(hub_step M E R)\<^sup>*\<^sup>* s (snd (send_each texts msgs s))"
proof -
  have "fst (send_each texts msgs s) \<and> snd (send_each texts msgs s) =
      s\<lparr>channel := channel s @ msgs, accepted := accepted s @ msgs\<rparr> \<and> (hub_step M E R)\<^sup>*\<^sup>* s (snd (send_each texts msgs s))"
    using assms
  proof (induction msgs arbitrary: s)
    case (Cons msg msgs)
    let ?s = "s\<lparr>channel := channel s @ [msg], accepted := accepted s @ [msg]\<rparr>"
    have sent: "try_send texts msg s = (Inr (), ?s)" using Cons.prems by (simp add: try_send_def)
    have "hub_step M E R s ?s" by (rule hub_step.send [OF Cons.prems(1) sent])
    moreover have "fst (send_each texts msgs ?s) \<and> snd (send_each texts msgs ?s) =
        ?s\<lparr>channel := channel ?s @ msgs, accepted := accepted ?s @ msgs\<rparr> \<and>
        (hub_step M E R)\<^sup>*\<^sup>* ?s (snd (send_each texts msgs ?s))"
      by (rule Cons.IH) (use Cons.prems in simp_all)
    ultimately show ?case
      by (auto simp: sent case_prod_beta intro: converse_rtranclp_into_rtranclp)
  qed simp
  then show "fst (send_each texts msgs s)" and "snd (send_each texts msgs s) =
      s\<lparr>channel := channel s @ msgs, accepted := accepted s @ msgs\<rparr>"
    and "(hub_step M E R)\<^sup>*\<^sup>* s (snd (send_each texts msgs s))" by blast+
qed

text \<open>Once the senders are gone, the schedules are all there is; so a hub that can finish has a schedule that does.\<close>

lemma run_hub_append: "run_hub M E R (xs @ ys) s = run_hub M E R ys (run_hub M E R xs s)"
  by (induction M E R xs s rule: run_hub.induct) simp_all

lemma steps_run_hub:
  "(hub_step M E R)\<^sup>*\<^sup>* s t \<Longrightarrow> \<not> senders s \<Longrightarrow> \<not> senders t \<and> (\<exists>sched. t = run_hub M E R sched s)"
proof (induction rule: rtranclp_induct)
  case base
  then show ?case by (metis run_hub.simps(1))
next
  case (step t u)
  then obtain sched where sched: "\<not> senders t" "t = run_hub M E R sched s" by blast
  have "\<exists>turns. u = run_hub M E R turns t \<and> \<not> senders u"
    using step.hyps(2)
  proof cases
    case close
    then show ?thesis using sched(1) by (intro exI [of _ "[]"]) simp
  next
    case (receive c)
    then show ?thesis using sched(1)
      by (intro exI [of _ "[Some c]"])
        (auto simp: hub_receive_def Let_def case_prod_beta split: list.splits sum.splits option.splits)
  next
    case finish
    fix c :: Call
    show ?thesis using finish by (intro exI [of _ "[Some c]"]) (simp add: hub_finish_def)
  next
    case flush
    then show ?thesis using sched(1)
      by (intro exI [of _ "[None]"]) (auto simp: flush_step_def Let_def case_prod_beta split: flush_pc.splits)
  qed (use sched(1) in simp)
  then show ?case using sched(2) run_hub_append by metis
qed

lemma run_hub_can_finish:
  assumes "sound s" and "\<not> senders s" and "0 < runner_batch_size R"
  shows "\<exists>sched. flusher (run_hub M E R sched s) = Finished"
proof -
  obtain u where u: "(hub_step M E R)\<^sup>*\<^sup>* s u" "shutdown_flag u"
  proof (cases "receiving s")
    case True
    then obtain v where v: "(hub_step M E R)\<^sup>*\<^sup>* s v" "receiving v" "channel v = []" "\<not> senders v"
      using channel_drains [of s M E R] assms(1,2) by auto
    then have "hub_step M E R v (hub_finish v)" by (intro hub_step.finish)
    with v(1) that [of "hub_finish v"] show ?thesis
      by (simp add: hub_finish_def rtranclp.rtrancl_into_rtrancl)
  next
    case False
    with assms(1) that [of s] show ?thesis by (simp add: sound_def)
  qed
  obtain t where "(hub_step M E R)\<^sup>*\<^sup>* u t" "flusher t = Finished"
    using flusher_finishes [OF u(2) assms(3)] by blast
  with u(1) assms(2) show ?thesis using steps_run_hub by (metis rtranclp_trans)
qed

section \<open>A hub with one counting emitter\<close>

definition counting_emitter :: "u64 leaf" where
  "counting_emitter =
     \<lparr>leaf_name = ''counter'', leaf_emit = (\<lambda>events t x. (Inr (), 0, x + of_nat (length events))),
      leaf_health = (\<lambda>t x. (True, 0, x)), leaf_shutdown = (\<lambda>t x. (Inr (), 0, x))\<rparr>"

definition counting_env :: "(real \<Rightarrow> real) \<Rightarrow> (f64 \<Rightarrow> int \<Rightarrow> f64) \<Rightarrow> u64 Env" where
  "counting_env fl pwi = mock_env fl pwi counting_emitter"

text \<open>What the counter shows is what the hub remembers to have delivered; before anything is lost the buffer must have been full.\<close>

definition counting_inv :: "u64 HubSys \<Rightarrow> bool" where
  "counting_inv s \<longleftrightarrow> backend (hub_world s) = of_nat (length (delivered_to 0 s)) \<and>
     (overflowed s = 0 \<or> rb_capacity (hub_buffer s) < length (passed_log s))"

lemma counting_inv_flush:
  assumes "counting_inv s"
  shows "counting_inv (flush_step (counting_env fl pwi) [Leaf 0] bs s)"
proof -
  have "backend (hub_world (emit_one (counting_env fl pwi) 0 (Leaf 0) events s)) =
      of_nat (length (delivered_to 0 (emit_one (counting_env fl pwi) 0 (Leaf 0) events s)))" for events
    using assms unfolding delivered_to_emit_one
    by (simp add: counting_inv_def emit_one_def counting_env_def mock_env_def counting_emitter_def Let_def)
  moreover have "delivered_to i (s1\<lparr>flusher := p\<rparr>) = delivered_to i s1" for i p and s1 :: "u64 HubSys"
    by (simp add: delivered_to_def)
  ultimately show ?thesis using assms
    by (auto simp: counting_inv_def flush_step_def delivered_to_def Let_def case_prod_beta nth_Cons' split: flush_pc.splits)
qed

lemma counting_inv_receive:
  assumes "counting_inv s" and "buffer_inv s"
  shows "counting_inv (hub_receive M c s)"
proof -
  have wf: "rb_wf (hub_buffer s)" and len: "length (messages (hub_buffer s)) \<le> length (passed_log s)"
    using assms(2) by (simp_all add: buffer_inv_def)
  have "fst (ring_buffer_push [m] (hub_buffer s)) = 0 \<or> rb_capacity (hub_buffer s) \<le> length (passed_log s)" for m
    using dropped_push [OF wf, of "[m]"] len by auto
  then show ?thesis using assms(1)
    by (auto simp: counting_inv_def hub_receive_def delivered_to_def Let_def case_prod_beta less_Suc_eq_le
        split: list.splits sum.splits option.splits)
qed

lemma counting_inv_step:
  assumes "hub_step M (counting_env fl pwi) R s t" and "counting_inv s" and "buffer_inv s" and "runner_emitters R = [Leaf 0]"
  shows "counting_inv t"
  using assms(1)
proof cases
  case (send texts msg)
  with assms(2) show ?thesis by (auto simp: try_send_def counting_inv_def delivered_to_def split: if_splits)
next
  case (receive c)
  with assms(2,3) show ?thesis by (simp add: counting_inv_receive)
next
  case flush
  with assms(2,4) show ?thesis by (simp add: counting_inv_flush)
qed (use assms(2) in \<open>simp_all add: hub_finish_def counting_inv_def delivered_to_def\<close>)

lemma counting_steps:
  "(hub_step M (counting_env fl pwi) R)\<^sup>*\<^sup>* s t \<Longrightarrow> counting_inv s \<Longrightarrow> hub_inv M (counting_env fl pwi) R s \<Longrightarrow>
   runner_emitters R = [Leaf 0] \<Longrightarrow> counting_inv t"
proof (induction rule: rtranclp_induct)
  case (step t u)
  then have "hub_inv M (counting_env fl pwi) R t" using hub_steps_inv by blast
  with step show ?case using counting_inv_step by (auto simp: hub_inv_def)
qed

lemma accepted_run: "accepted (run_hub M E R sched s) = accepted s"
proof (induction M E R sched s rule: run_hub.induct)
  case (3 M E R sched s)
  have "accepted (flush_step E (runner_emitters R) (runner_batch_size R) s) = accepted s"
    by (simp add: flush_step_def Let_def case_prod_beta split: flush_pc.splits)
  with 3 show ?case by simp
qed (auto simp: hub_receive_def hub_finish_def Let_def case_prod_beta split: list.splits sum.splits option.splits)

lemma buffer_capacity_steps: "(hub_step M E R)\<^sup>*\<^sup>* s t \<Longrightarrow> rb_capacity (hub_buffer t) = rb_capacity (hub_buffer s)"
proof (induction rule: rtranclp_induct)
  case (step t u)
  then show ?case
    by (auto elim!: hub_stepE simp: try_send_def hub_finish_def hub_receive_def flush_step_def Let_def case_prod_beta
        split: if_splits list.splits sum.splits option.splits flush_pc.splits)
qed simp

text \<open>
  The tests' run: the messages are sent, the sender is dropped, the loops take the turns of the schedule.
\<close>

definition ran :: "'j MwEnv \<Rightarrow> 'x Env \<Rightarrow> Hub \<Rightarrow> Message list \<Rightarrow> Call option list \<Rightarrow> 'x HubSys \<Rightarrow> bool \<times> 'x HubSys" where
  "ran M E hub msgs sched s =
     (case send_each ([], []) msgs s of (ok, s) \<Rightarrow> (ok, run_hub M E (hub_build hub) sched (s\<lparr>senders := False\<rparr>)))"

lemma counting_hub_run:
  assumes hub: "hub_emitters hub = [Leaf 0]" "length msgs \<le> hub_buffer_capacity hub" "0 < hub_buffer_capacity hub"
    and msgs: "length msgs \<le> 1024" "\<forall>m\<in>set msgs. route_to m = []" and w: "backend w = 0"
    and chain: "\<And>ms outs mws. mw_run (chain_process M) ms (hub_middleware hub) = Inr (outs, mws) \<Longrightarrow>
      passed outs = filter p (map snd ms)"
    and run_def: "run = ran M (counting_env fl pwi) hub msgs sched (hub_start register (hub_build hub) registered w)"
  shows "fst run"
    and "flusher (snd run) = Finished \<Longrightarrow> backend (hub_world (snd run)) = of_nat (length (filter p msgs))"
proof -
  let ?E = "counting_env fl pwi" and ?R = "hub_build hub"
  let ?start = "hub_start register ?R registered w"
  let ?sent = "snd (send_each ([], []) msgs ?start)"
  let ?s = "run_hub M ?E ?R sched (?sent\<lparr>senders := False\<rparr>)"
  have start: "senders ?start" "\<not> run_panicked ?start" "channel ?start = []" "accepted ?start = []"
    by (simp_all add: hub_start_def Let_def)
  have R: "runner_emitters ?R = [Leaf 0]" "rb_capacity (runner_buffer ?R) = hub_buffer_capacity hub"
    "messages (runner_buffer ?R) = []" "runner_middleware ?R = hub_middleware hub"
    using hub(1) by (simp_all add: hub_build_def ring_buffer_new_def)
  have room: "length (channel ?start) + length msgs \<le> 1024" using msgs(1) start(3) by simp
  note sent = send_each_steps(1,2) [OF start(1,2) room, of "([], [])"]
    send_each_steps(3) [OF start(1,2) room, of M ?E ?R "([], [])"]
  show "fst run" using sent(1) by (simp add: run_def ran_def case_prod_beta)
  assume fin: "flusher (snd run) = Finished"
  have run: "snd run = ?s" by (simp add: run_def ran_def case_prod_beta)
  have reach: "(hub_step M ?E ?R)\<^sup>*\<^sup>* ?start ?s"
    using sent(3) hub_step.close [of M ?E ?R ?sent] run_hub_steps [of M ?E ?R "?sent\<lparr>senders := False\<rparr>" sched]
    by (meson rtranclp.rtrancl_into_rtrancl rtranclp_trans)
  have start_inv: "hub_inv M ?E ?R ?start"
    by (rule hub_inv_start) (use hub R in simp_all)
  have "counting_inv ?start"
    using w by (simp add: counting_inv_def hub_start_def delivered_to_def Let_def)
  then have counted: "counting_inv ?s" by (rule counting_steps [OF reach _ start_inv R(1)])
  note inv = hub_steps_inv [OF reach start_inv]
  have cap: "rb_capacity (hub_buffer ?s) = hub_buffer_capacity hub"
    using buffer_capacity_steps [OF reach] R(2) by (simp add: hub_start_def Let_def)
  have acc: "accepted ?s = msgs" using sent(2) start(4) by (simp add: accepted_run)
  have rec: "map snd (received ?s) = msgs" and empty: "messages (hub_buffer ?s) = []"
    using inv fin acc by (auto simp: run hub_inv_def shutdown_inv_def chain_inv_def)
  obtain outs where outs: "mw_run (chain_process M) (received ?s) (hub_middleware hub) = Inr (outs, hub_chain ?s)"
    "passed outs = passed_log ?s"
    using inv R(4) by (auto simp: hub_inv_def chain_inv_def)
  have passed: "passed_log ?s = filter p msgs" using chain [OF outs(1)] outs(2) rec by simp
  then have "length (passed_log ?s) \<le> hub_buffer_capacity hub"
    using le_trans [OF length_filter_le hub(2)] by simp
  then have "overflowed ?s = 0" using counted cap by (simp add: counting_inv_def)
  then have "drained_log ?s = passed_log ?s"
    using inv empty by (simp add: hub_inv_def buffer_inv_def subseq_same_length)
  moreover have "delivered_to 0 ?s = filter (event_routed_to (name_of ?E (Leaf 0))) (map event_from_message (drained_log ?s))"
    using inv fin R(1) by (simp add: run hub_inv_def delivery_inv_def in_hand_def)
  ultimately have "delivered_to 0 ?s = map event_from_message (filter p msgs)"
    using msgs(2) passed by (auto simp: event_routed_to_iff intro!: filter_True)
  then show "backend (hub_world (snd run)) = of_nat (length (filter p msgs))"
    using counted by (simp add: counting_inv_def run)
qed

text \<open>A run of well-formed middlewares has a schedule that ends.\<close>

lemma run_can_finish:
  assumes "list_all mw_wf (hub_middleware hub)" and "0 < hub_batch_size hub" and "length msgs \<le> 1024"
  shows "\<exists>sched. flusher (snd (ran M E hub msgs sched (hub_start register (hub_build hub) registered w))) = Finished"
proof -
  let ?start = "hub_start register (hub_build hub) registered w"
  have start: "senders ?start" "\<not> run_panicked ?start" "channel ?start = []" "sound ?start"
    using assms(1) by (simp_all add: hub_start_def hub_build_def sound_def Let_def)
  have "sound ((snd (send_each ([], []) msgs ?start))\<lparr>senders := False\<rparr>)"
    using send_each_steps(2) [of ?start msgs "([], [])"] start assms(3) by (simp add: sound_def)
  then show ?thesis
    using run_hub_can_finish [of _ "hub_build hub" M E] assms(2)
    by (simp add: ran_def case_prod_beta hub_build_def)
qed

text \<open>What the chains of the tests let through.\<close>

lemma empty_chain_passes:
  "mw_run (chain_process M) ms chain_new = Inr (outs, mws) \<Longrightarrow> passed outs = filter (\<lambda>_. True) (map snd ms)"
  by (induction ms arbitrary: outs mws) (auto simp: chain_new_def split: sum.splits)

lemma filter_chain_passes:
  "mw_run (chain_process M) ms [Mw_Filter p] = Inr (outs, mws) \<Longrightarrow> passed outs = filter p (map snd ms)"
  by (induction ms arbitrary: outs mws) (auto simp: filter_process_def split: sum.splits prod.splits if_splits)

section \<open>\<open>hub.rs\<close>\<close>

definition test_hub_builder :: bool where
  "test_hub_builder \<longleftrightarrow>
     (let hub = emitter_arc (Leaf 0) (add_middleware (Mw_Transform (\<lambda>msg. msg)) (buffer_capacity 1000 hub_new))
      in hub_buffer_capacity hub = 1000 \<and> length (hub_emitters hub) = 1)"

definition test_hub_build :: bool where
  "test_hub_build \<longleftrightarrow> rb_capacity (runner_buffer (hub_build (emitter_arc (Leaf 0) hub_new))) = 10000"

text \<open>The start of a hub: the registration of the collectors, the collectors that are there and the world. The channel of the test
  is there, and empty, from the build on.\<close>

definition test_message_sender ::
    "(string \<Rightarrow> string option) \<Rightarrow> Metrics option \<Rightarrow> 'x World \<Rightarrow> string \<times> string \<Rightarrow> Call \<Rightarrow> bool" where
  "test_message_sender register registered w texts c \<longleftrightarrow>
     is_ok (fst (try_send texts (new_message c ''test'' ''evt'' ''payload'')
       (hub_start register (hub_build hub_new) registered w)))"

definition test_hub_filter ::
    "'j MwEnv \<Rightarrow> (real \<Rightarrow> real) \<Rightarrow> (f64 \<Rightarrow> int \<Rightarrow> f64) \<Rightarrow> (string \<Rightarrow> string option) \<Rightarrow> Metrics option \<Rightarrow>
     u64 World \<Rightarrow> Call \<Rightarrow> Call option list \<Rightarrow> bool" where
  "test_hub_filter M fl pwi register registered w c sched \<longleftrightarrow>
     (let hub = emitter_arc (Leaf 0) (add_middleware (Mw_Filter (\<lambda>msg. message_type msg = ''keep'')) hub_new);
          msgs = [new_message c ''test'' ''keep'' [], new_message c ''test'' ''drop'' [], new_message c ''test'' ''keep'' []];
          (_, s) = ran M (counting_env fl pwi) hub msgs sched (hub_start register (hub_build hub) registered (w\<lparr>backend := 0\<rparr>))
      in flusher s = Finished \<longrightarrow> backend (hub_world s) = 2)"

definition test_graceful_shutdown_drains_buffer ::
    "'j MwEnv \<Rightarrow> (real \<Rightarrow> real) \<Rightarrow> (f64 \<Rightarrow> int \<Rightarrow> f64) \<Rightarrow> (string \<Rightarrow> string option) \<Rightarrow> Metrics option \<Rightarrow>
     u64 World \<Rightarrow> Call \<Rightarrow> Call option list \<Rightarrow> bool" where
  "test_graceful_shutdown_drains_buffer M fl pwi register registered w c sched \<longleftrightarrow>
     (let hub = emitter_arc (Leaf 0) (buffer_capacity 1000 hub_new);
          msgs = map (\<lambda>i. new_message c ''test'' (''evt-'' @ show_nat i) []) [0..<100];
          (ok, s) = ran M (counting_env fl pwi) hub msgs sched (hub_start register (hub_build hub) registered (w\<lparr>backend := 0\<rparr>))
      in ok \<and> (flusher s = Finished \<longrightarrow> backend (hub_world s) = 100))"

lemma hub_builder_tests_pass: test_hub_builder test_hub_build "test_message_sender register registered w texts c"
  by (simp_all add: test_hub_builder_def test_hub_build_def test_message_sender_def hub_build_def hub_new_def
      emitter_arc_def add_middleware_def buffer_capacity_def ring_buffer_new_def try_send_def hub_start_def Let_def)

lemma route_to_new_message [simp]: "route_to (new_message c src ty p) = []"
  by (simp add: new_message_def message_new_def)

lemma hub_filter_test_passes: "test_hub_filter M fl pwi register registered w c sched"
proof -
  let ?p = "\<lambda>msg. message_type msg = ''keep''"
  let ?hub = "emitter_arc (Leaf 0) (add_middleware (Mw_Filter ?p) hub_new)"
  let ?msgs = "[new_message c ''test'' ''keep'' [], new_message c ''test'' ''drop'' [], new_message c ''test'' ''keep'' []]"
  have hub: "hub_emitters ?hub = [Leaf 0]" "hub_buffer_capacity ?hub = 10000" "hub_middleware ?hub = [Mw_Filter ?p]"
    by (simp_all add: emitter_arc_def add_middleware_def chain_add_def chain_new_def hub_new_def)
  show ?thesis
    using counting_hub_run(2) [where hub = ?hub and msgs = ?msgs and p = ?p and M = M and w = "w\<lparr>backend := 0\<rparr>",
        OF hub(1) _ _ _ _ _ _ refl]
    by (simp add: test_hub_filter_def case_prod_beta hub filter_chain_passes new_message_def message_new_def)
qed

lemma graceful_shutdown_test_passes: "test_graceful_shutdown_drains_buffer M fl pwi register registered w c sched"
proof -
  let ?hub = "emitter_arc (Leaf 0) (buffer_capacity 1000 hub_new)"
  let ?msgs = "map (\<lambda>i. new_message c ''test'' (''evt-'' @ show_nat i) []) [0..<100]"
  have hub: "hub_emitters ?hub = [Leaf 0]" "hub_buffer_capacity ?hub = 1000" "hub_middleware ?hub = chain_new"
    by (simp_all add: emitter_arc_def buffer_capacity_def chain_new_def hub_new_def)
  have msgs: "length ?msgs \<le> 1000" "length ?msgs \<le> 1024" "\<forall>m\<in>set ?msgs. route_to m = []" "length ?msgs = 100"
    by auto
  let ?run = "ran M (counting_env fl pwi) ?hub ?msgs sched (hub_start register (hub_build ?hub) registered (w\<lparr>backend := 0\<rparr>))"
  have cap: "0 < hub_buffer_capacity ?hub" "length ?msgs \<le> hub_buffer_capacity ?hub" "backend (w\<lparr>backend := 0\<rparr>) = 0"
    by (simp_all add: hub(2))
  have chain: "passed outs = filter (\<lambda>_. True) (map snd ms)"
    if "mw_run (chain_process M) ms (hub_middleware ?hub) = Inr (outs, mws)" for ms outs mws
    using that empty_chain_passes by (simp add: hub(3))
  note run = counting_hub_run [OF hub(1) cap(2,1) msgs(2,3) cap(3) _ refl]
  have "fst ?run" by (rule run(1)) (rule chain)
  moreover have "backend (hub_world (snd ?run)) = 100" if "flusher (snd ?run) = Finished"
  proof -
    have all: "filter (\<lambda>_. True) ?msgs = ?msgs" by (rule filter_True) blast
    have "backend (hub_world (snd ?run)) = of_nat (length (filter (\<lambda>_. True) ?msgs))"
      by (rule run(2) [OF _ that]) (rule chain)
    then show ?thesis unfolding all msgs(4) of_nat_numeral .
  qed
  ultimately show ?thesis
    unfolding test_graceful_shutdown_drains_buffer_def Let_def case_prod_beta by blast
qed

section \<open>\<open>grpc.rs\<close>\<close>

definition typed_event :: "string \<Rightarrow> string \<Rightarrow> Event" where
  "typed_event i ty =
     \<lparr>ev_id = i, timestamp_unix_ns = 1234567890, ev_source = ''test-source'', event_type = ty,
      ev_metadata = Map.empty, ev_payload = [CHR 0x01, CHR 0x02, CHR 0x03], ev_route_to = []\<rparr>"

text \<open>The server of the tests: a gateway with room for 100 messages, and a channel to it that works.\<close>

definition start_test_server :: "nat \<Rightarrow> GatewayService" where
  "start_test_server t = gateway_service_new t (ring_buffer_new 100)"

definition test_channel :: "'x Env \<Rightarrow> 'x World \<Rightarrow> (status \<Rightarrow> string) \<Rightarrow> GatewayService Rpc" where
  "test_channel E w show_status =
     \<lparr>endpoint_error = (\<lambda>_. None), rpc_connect = (\<lambda>_ _ _ g. (None, g)), rpc_send = send_event,
      rpc_health = (\<lambda>g. (Inr (fst (server_health E g w)), g)), rpc_show_status = show_status\<rparr>"

definition test_grpc_emitter_connects :: "GatewayService Rpc \<Rightarrow> string \<Rightarrow> nat \<Rightarrow> bool" where
  "test_grpc_emitter_connects C endpoint_str t \<longleftrightarrow> is_ok (fst (grpc_new C endpoint_str (start_test_server t)))"

definition test_grpc_emitter_emits_events :: "GatewayService Rpc \<Rightarrow> nat list \<Rightarrow> nat \<Rightarrow> bool" where
  "test_grpc_emitter_emits_events C order t \<longleftrightarrow>
     (let (r, g) = grpc_emit C order [typed_event ''e1'' ''test.created'', typed_event ''e2'' ''test.updated''] (start_test_server t)
      in is_ok r \<and> ring_buffer_len (svc_buffer g) = 2)"

definition test_grpc_emitter_health_check :: "GatewayService Rpc \<Rightarrow> nat \<Rightarrow> bool" where
  "test_grpc_emitter_health_check C t \<longleftrightarrow> fst (grpc_health C (start_test_server t))"

definition test_grpc_emitter_handles_empty_events :: "GatewayService Rpc \<Rightarrow> nat list \<Rightarrow> nat \<Rightarrow> bool" where
  "test_grpc_emitter_handles_empty_events C order t \<longleftrightarrow> is_ok (fst (grpc_emit C order [] (start_test_server t)))"

text \<open>A channel to an address where nobody listens: the text is that of the refused connection.\<close>

definition refused :: "string \<Rightarrow> 'x Rpc \<Rightarrow> 'x Rpc" where
  "refused e C = C\<lparr>rpc_connect := (\<lambda>_ _ _ x. (Some e, x))\<rparr>"

definition test_grpc_emitter_connect_failure :: "'x Rpc \<Rightarrow> string \<Rightarrow> 'x \<Rightarrow> bool" where
  "test_grpc_emitter_connect_failure C e x \<longleftrightarrow> \<not> is_ok (fst (grpc_new (refused e C) ''http://127.0.0.1:1'' x))"

text \<open>Five tasks, each with one event; \<open>order\<close> is that in which their calls take effect.\<close>

fun emit_in_order :: "GatewayService Rpc \<Rightarrow> nat list \<Rightarrow> GatewayService \<Rightarrow> bool \<times> GatewayService" where
  "emit_in_order C [] g = (True, g)"
| "emit_in_order C (i # order) g =
     (case grpc_emit C [0] [typed_event (''concurrent-'' @ show_nat i) ''test.concurrent''] g of
        (r, g) \<Rightarrow> (case emit_in_order C order g of (ok, g) \<Rightarrow> (is_ok r \<and> ok, g)))"

definition test_grpc_emitter_concurrent_emits :: "GatewayService Rpc \<Rightarrow> nat list \<Rightarrow> nat \<Rightarrow> bool" where
  "test_grpc_emitter_concurrent_emits C order t \<longleftrightarrow>
     (let (ok, g) = emit_in_order C order (start_test_server t) in ok \<and> ring_buffer_len (svc_buffer g) = 5)"

lemma send_with_room:
  assumes "rb_wf (svc_buffer g)" and "length (messages (svc_buffer g)) < rb_capacity (svc_buffer g)"
  shows "is_ok (fst (send_event (forward_request e) g))"
    and "rb_wf (svc_buffer (snd (send_event (forward_request e) g)))"
    and "length (messages (svc_buffer (snd (send_event (forward_request e) g)))) = Suc (length (messages (svc_buffer g)))"
    and "rb_capacity (svc_buffer (snd (send_event (forward_request e) g))) = rb_capacity (svc_buffer g)"
  using send_forwarded [OF assms(1), of e] assms by (auto simp: ring_buffer_is_full_def rb_wf_def)

lemma test_server_room:
  "rb_wf (svc_buffer (start_test_server t))" "messages (svc_buffer (start_test_server t)) = []"
  "rb_capacity (svc_buffer (start_test_server t)) = 100"
  by (simp_all add: start_test_server_def gateway_service_new_def) (simp add: ring_buffer_new_def)+

lemma rpc_send_test_channel [simp]: "rpc_send (test_channel E w show_status) = send_event"
  by (simp add: test_channel_def)

lemma join_ok: "is_ok r \<Longrightarrow> join_result C e (Called r) = Some (Inr ())"
  by (cases r) (simp_all add: join_result_def)

lemma grpc_emit_one:
  "is_ok (fst (send_event (forward_request e) g)) \<Longrightarrow>
   grpc_emit (test_channel E w show_status) [0] [e] g = (Inr (), snd (send_event (forward_request e) g))"
  by (simp add: grpc_emit_def case_prod_beta join_ok)

lemma emit_in_order_room:
  "rb_wf (svc_buffer g) \<Longrightarrow> length (messages (svc_buffer g)) + length order \<le> rb_capacity (svc_buffer g) \<Longrightarrow>
   fst (emit_in_order (test_channel E w show_status) order g) \<and>
   length (messages (svc_buffer (snd (emit_in_order (test_channel E w show_status) order g)))) =
     length (messages (svc_buffer g)) + length order"
proof (induction order arbitrary: g)
  case (Cons i order)
  let ?e = "typed_event (''concurrent-'' @ show_nat i) ''test.concurrent''"
  let ?g = "snd (send_event (forward_request ?e) g)"
  have room: "length (messages (svc_buffer g)) < rb_capacity (svc_buffer g)" using Cons.prems(2) by simp
  note sent = send_with_room [OF Cons.prems(1) room, of ?e]
  have "grpc_emit (test_channel E w show_status) [0] [?e] g = (Inr (), ?g)"
    by (rule grpc_emit_one [OF sent(1)])
  then show ?case using Cons.IH [of ?g] sent Cons.prems by (simp add: case_prod_beta)
qed simp

lemma grpc_tests_pass:
  "test_grpc_emitter_connects (test_channel E w show_status) endpoint_str t"
  "test_grpc_emitter_health_check (test_channel E w show_status) t"
  "test_grpc_emitter_handles_empty_events C order t" "test_grpc_emitter_connect_failure C2 e x"
  by (simp_all add: test_grpc_emitter_connects_def test_grpc_emitter_health_check_def
      test_grpc_emitter_handles_empty_events_def test_grpc_emitter_connect_failure_def grpc_new_def grpc_health_def
      grpc_emit_def test_channel_def refused_def server_health_def Let_def case_prod_beta split: option.splits)

lemma grpc_emits_test_passes:
  assumes "order = [0, 1] \<or> order = [1, 0]"
  shows "test_grpc_emitter_emits_events (test_channel E w show_status) order t"
proof -
  let ?g = "start_test_server t"
  note g = test_server_room [of t]
  have room: "is_ok (fst (send_event (forward_request e1) ?g)) \<and>
      is_ok (fst (send_event (forward_request e2) (snd (send_event (forward_request e1) ?g)))) \<and>
      length (messages (svc_buffer (snd (send_event (forward_request e2) (snd (send_event (forward_request e1) ?g)))))) = 2"
    for e1 e2
    using send_with_room [of ?g e1] send_with_room [of "snd (send_event (forward_request e1) ?g)" e2] g by simp
  show ?thesis
    using assms room
    by (auto simp: test_grpc_emitter_emits_events_def grpc_emit_def case_prod_beta join_ok ring_buffer_len_def numeral_2_eq_2)
qed

lemma grpc_concurrent_test_passes:
  assumes "mset order = mset [0..<5]"
  shows "test_grpc_emitter_concurrent_emits (test_channel E w show_status) order t"
proof -
  have "length order = 5" using arg_cong [OF assms, of size] by simp
  then show ?thesis
    using emit_in_order_room [of "start_test_server t" order E w show_status] test_server_room [of t]
    by (simp add: test_grpc_emitter_concurrent_emits_def case_prod_beta ring_buffer_len_def)
qed

section \<open>\<open>webhook.rs\<close>\<close>

text \<open>What the server of the tests decodes of an event, and its state.\<close>

record ReceivedJson =
  rj_id :: string
  rj_source :: string
  rj_event_type :: string

record MockServerState =
  received_events :: "ReceivedJson list"
  request_count :: nat

definition read_received :: "json \<Rightarrow> ReceivedJson option" where
  "read_received j =
     (case (Option.bind (json_get ''id'' j) as_string, Option.bind (json_get ''source'' j) as_string,
            Option.bind (json_get ''event_type'' j) as_string) of
        (Some i, Some src, Some ty) \<Rightarrow> Some \<lparr>rj_id = i, rj_source = src, rj_event_type = ty\<rparr>
      | _ \<Rightarrow> None)"

fun read_all :: "json list \<Rightarrow> ReceivedJson list option" where
  "read_all [] = Some []"
| "read_all (j # js) = Option.bind (read_received j) (\<lambda>r. map_option ((#) r) (read_all js))"

text \<open>\<open>handle_events\<close>: a body that cannot be decoded is refused by the extractor with status 422.\<close>

definition handle_events :: "json \<Rightarrow> MockServerState \<Rightarrow> HttpResponse \<times> MockServerState" where
  "handle_events body state =
     (case Option.bind (Option.bind (json_get ''events'' body) as_list) read_all of
        None \<Rightarrow> (\<lparr>http_status = 422, http_body = Some []\<rparr>, state)
      | Some events \<Rightarrow>
          (\<lparr>http_status = 200, http_body = Some []\<rparr>,
           state\<lparr>request_count := request_count state + 1, received_events := received_events state @ events\<rparr>))"

text \<open>The routes of the server, behind the client; \<open>dt\<close> is the time a request takes.\<close>

definition mock_http ::
    "(bytes \<Rightarrow> string) \<Rightarrow> ((string \<rightharpoonup> string) \<Rightarrow> (string \<times> string) list) \<Rightarrow> string \<Rightarrow> nat \<Rightarrow> MockServerState Http" where
  "mock_http base64 entries addr dt =
     \<lparr>http_build = (\<lambda>_. None),
      http_post = (\<lambda>_ url _ body t x.
        if url = ''http://'' @ addr @ ''/events''
        then (case handle_events body x of (response, x) \<Rightarrow> (Inr response, dt, x))
        else (Inr \<lparr>http_status = 404, http_body = Some []\<rparr>, dt, x)),
      http_head = (\<lambda>_ url t x.
        (Inr \<lparr>http_status = (if url = ''http://'' @ addr @ ''/events'' \<or> url = ''http://'' @ addr @ ''/health'' then 200 else 404),
           http_body = Some []\<rparr>, dt, x)),
      is_success = (\<lambda>n. 200 \<le> n \<and> n < 300), status_text = show_nat, base64_encode = base64, json_entries = entries\<rparr>"

definition start_mock_server :: MockServerState where
  "start_mock_server = \<lparr>received_events = [], request_count = 0\<rparr>"

definition test_webhook_emitter_creates :: "'x Http \<Rightarrow> bool" where
  "test_webhook_emitter_creates H \<longleftrightarrow>
     (case webhook_new H ''http://localhost:8080/events'' of
        Inl _ \<Rightarrow> False | Inr emitter \<Rightarrow> leaf_name (webhook_leaf H emitter) = ''webhook'')"

definition test_webhook_emitter_emits_events :: "MockServerState Http \<Rightarrow> string \<Rightarrow> nat \<Rightarrow> bool" where
  "test_webhook_emitter_emits_events H addr t \<longleftrightarrow>
     (case webhook_new H (''http://'' @ addr @ ''/events'') of
        Inl _ \<Rightarrow> False
      | Inr emitter \<Rightarrow>
          (case webhook_emit H emitter [typed_event ''e1'' ''user.created'', typed_event ''e2'' ''user.updated''] t start_mock_server of
             (r, dt, state) \<Rightarrow> is_ok r \<and> length (received_events state) = 2 \<and>
               rj_id (received_events state ! 0) = ''e1'' \<and> rj_id (received_events state ! 1) = ''e2''))"

definition test_webhook_emitter_health_check :: "MockServerState Http \<Rightarrow> string \<Rightarrow> nat \<Rightarrow> bool" where
  "test_webhook_emitter_health_check H addr t \<longleftrightarrow>
     (case webhook_new H (''http://'' @ addr @ ''/events'') of
        Inl _ \<Rightarrow> False | Inr emitter \<Rightarrow> fst (webhook_health H emitter t start_mock_server))"

definition test_webhook_emitter_handles_empty_events :: "MockServerState Http \<Rightarrow> string \<Rightarrow> nat \<Rightarrow> bool" where
  "test_webhook_emitter_handles_empty_events H addr t \<longleftrightarrow>
     (case webhook_new H (''http://'' @ addr @ ''/events'') of
        Inl _ \<Rightarrow> False
      | Inr emitter \<Rightarrow>
          (case webhook_emit H emitter [] t start_mock_server of (r, dt, state) \<Rightarrow> is_ok r \<and> request_count state = 0))"

definition test_webhook_emitter_with_custom_headers :: "'x Http \<Rightarrow> string \<Rightarrow> bool" where
  "test_webhook_emitter_with_custom_headers H addr \<longleftrightarrow>
     (case webhook_new H (''http://'' @ addr @ ''/events'') of
        Inl _ \<Rightarrow> False
      | Inr emitter \<Rightarrow>
          leaf_name (webhook_leaf H (header ''X-Custom'' ''value''
            (header ''Authorization'' ''Bearer test-token'' emitter))) = ''webhook'')"

definition test_webhook_emitter_custom_health_url :: "MockServerState Http \<Rightarrow> string \<Rightarrow> nat \<Rightarrow> bool" where
  "test_webhook_emitter_custom_health_url H addr t \<longleftrightarrow>
     (case webhook_new H (''http://'' @ addr @ ''/events'') of
        Inl _ \<Rightarrow> False
      | Inr emitter \<Rightarrow>
          fst (webhook_health H (health_url (''http://'' @ addr @ ''/health'') emitter) t start_mock_server))"

text \<open>A client whose requests find nobody: the text is that of the refused connection.\<close>

definition unreachable :: "string \<Rightarrow> nat \<Rightarrow> 'x Http \<Rightarrow> 'x Http" where
  "unreachable e dt H = H\<lparr>http_post := (\<lambda>_ _ _ _ t x. (Inl e, dt, x))\<rparr>"

definition test_webhook_emitter_failure_on_bad_url :: "'x Http \<Rightarrow> nat \<Rightarrow> 'x \<Rightarrow> bool" where
  "test_webhook_emitter_failure_on_bad_url H t x \<longleftrightarrow>
     (case webhook_new H ''http://127.0.0.1:1/events'' of
        Inl _ \<Rightarrow> False | Inr emitter \<Rightarrow> \<not> is_ok (fst (webhook_emit H emitter [typed_event ''e1'' ''test''] t x)))"

lemmas webhook_test_defs = webhook_new_def webhook_leaf_def header_def health_url_def webhook_emit_def webhook_health_def
  start_mock_server_def Let_def

lemma webhook_tests_pass:
  "test_webhook_emitter_health_check (mock_http base64 entries addr dt) addr t"
  "test_webhook_emitter_handles_empty_events (mock_http base64 entries addr dt) addr t"
  "test_webhook_emitter_custom_health_url (mock_http base64 entries addr dt) addr t"
  by (simp_all add: test_webhook_emitter_health_check_def test_webhook_emitter_handles_empty_events_def
      test_webhook_emitter_custom_health_url_def mock_http_def webhook_test_defs)

text \<open>The payload as the server decodes it.\<close>

lemma read_received_event:
  "read_received (serialize_event H (event_json_from e)) =
     Some \<lparr>rj_id = ev_id e, rj_source = ev_source e, rj_event_type = event_type e\<rparr>"
  by (simp add: read_received_def serialize_event_def event_json_from_def)

lemma webhook_emits_test_passes: "test_webhook_emitter_emits_events (mock_http base64 entries addr dt) addr t"
  by (simp add: test_webhook_emitter_emits_events_def webhook_test_defs mock_http_def handle_events_def
      serialize_payload_def read_received_event typed_event_def)

text \<open>The tests without a server hold for every client that can be built.\<close>

lemma webhook_client_tests_pass:
  assumes "\<And>client. http_build H client = None"
  shows "test_webhook_emitter_creates H" "test_webhook_emitter_with_custom_headers H addr"
    "test_webhook_emitter_failure_on_bad_url (unreachable e dt H) t x"
  using assms
  by (simp_all add: test_webhook_emitter_creates_def test_webhook_emitter_with_custom_headers_def
      test_webhook_emitter_failure_on_bad_url_def unreachable_def webhook_test_defs)

end
