(* ===== verification/Spec2Isabelle.thy ===== *)
theory Spec2Isabelle
  imports Hub_Metrics Hub_Panics Gateway_Main Destinations Metrics_Server Throttle_Atomics Dedup_Threads Server_Threads Stream_Task Grpc_Wire Build_Pipeline
    Hub_Capture Stateful_Middleware_Tests Delivery_Tests
begin

text \<open>
  A verification development for \<^bold>\<open>polku\<close>, an event gateway written in Rust (crate
  \<open>gateway\<close>). Events come in through a gRPC service or through the sender of a hub, pass a chain of middlewares, wait
  in a bounded ring buffer, and are handed in batches to emitters, which may be wrapped in retry,
  circuit-breaker and failure-capture layers. All paths below are under \<open>src/gateway/src\<close>.

  \<^bold>\<open>Parts, and where they are modelled\<close>

  \<^item> \<open>Polku_Prelude\<close>: machine integers and the operations of Rust's standard library that the sources
    use (saturating arithmetic, division that panics, decimal rendering, hash maps as association
    lists), with the lemma collections \<open>word_nat\<close> and \<open>frame\<close>.
  \<^item> \<open>Errors\<close> (\<open>error.rs\<close>) and \<open>Messages\<close> (\<open>message.rs\<close>, the message types of \<open>proto/polku.v1.rs\<close>): the
    error enums with their texts and conversions, the envelope, and its conversion to and from wire events.
  \<^item> \<open>Fifo\<close>: the interface of a queue that evicts its oldest elements (locale \<open>evicting_fifo\<close>) with a log as its
    specification. \<open>Ring_Buffer\<close> (\<open>buffer.rs\<close>) and \<open>Failure_Buffer\<close>
    (\<open>emit/resilience/failure_buffer.rs\<close>) interpret it.
  \<^item> \<open>Circuit_Breaker\<close> (\<open>emit/resilience/circuit_breaker.rs\<close>): the state machine under its lock, and its concurrent use as the step relation \<open>cb_step\<close>.
  \<^item> \<open>Xorshift\<close> and \<open>Backoff\<close> (\<open>emit/resilience/retry.rs\<close>): the lock-free random generator and the delays.
  \<^item> \<open>Emitters\<close> (\<open>emit/mod.rs\<close>, the wrappers and \<open>emit/resilience/config.rs\<close>): the trait as dispatch over a tree of
    wrappers whose leaves are parameters, on a store of cells (\<open>World\<close>), and the builder of
    resilient stacks. \<open>Resilience\<close> proves what the wrappers do, alone (locales \<open>breaker_host\<close>, \<open>retry_host\<close>) and stacked.
  \<^item> \<open>Utf8\<close> and \<open>Parsers\<close>: the characters of a string, and the integer and socket address parsers of the standard library. \<open>Config\<close>
    (\<open>config.rs\<close>): the defaults and the loading from the environment.
  \<^item> \<open>Stdout_Emitter\<close>, \<open>Webhook_Emitter\<close>, \<open>Grpc_Emitter\<close> (the files of \<open>emit\<close>): the three destinations as leaves of the
    emitter tree. The console with the text it prints, the webhook with its payload and error texts, the gRPC
    forwarder with its concurrent tasks as the step relation \<open>grpc_step\<close>, in which tasks may break and calls time out. \<open>Destinations\<close> states what the wrappers may rely on in a leaf (locale
    \<open>destination\<close>) and interprets it on them.
  \<^item> \<open>Middleware\<close> (the trait of \<open>middleware/mod.rs\<close>): the contract of a middleware as the locales \<open>middleware\<close> and
    \<open>deciding_middleware\<close>. Its implementations, each of which interprets one of them: \<open>Rate_Limiter\<close>, \<open>Throttle\<close>, \<open>Deduplicator\<close>,
    \<open>Sampler\<close>, \<open>Aggregator\<close> (the files of these names in \<open>middleware\<close>) and \<open>Transformers\<close> (router, enricher,
    validator, and the three of \<open>mod.rs\<close>). \<open>Middleware_Chain\<close> is the chain, itself an interpretation. \<open>Throttle_Threads\<close> and
    \<open>Dedup_Threads\<close> are the throttle and the deduplicator used by several threads, by critical section; \<open>Throttle_Atomics\<close> is the throttle at the
    grain of its atomic operations, with readers interleaved inside the read lock.
  \<^item> \<open>Registry\<close> (\<open>registry.rs\<close>, \<open>ingest/mod.rs\<close>), \<open>Gateway_Server\<close> (\<open>server.rs\<close>), \<open>Metrics\<close>
    (\<open>metrics.rs\<close>) and \<open>Hub\<close> (\<open>hub.rs\<close>): the registry of plugins, the three RPC handlers, the counters, and the pipeline
    with its receive loop and flush loop as the step relation \<open>hub_step\<close>. \<open>Hub_Metrics\<close> compares the counters with what the hub did,
    \<open>Hub_Progress\<close> shows that it can always come to its end, \<open>Hub_Capture\<close> joins it with the failure capture of the resilience layer,
    \<open>Hub_Panics\<close> is the hub with emitters that may panic (\<open>hp_step\<close>). \<open>Server_Threads\<close>
    are the handlers of the service running concurrently on one buffer, \<open>Stream_Task\<close> is the task of one stream with its bounded channel and its client (\<open>st_step\<close>).
  \<^item> \<open>Metrics_Server\<close> (\<open>metrics_server.rs\<close>): the handlers of the metrics endpoint and its task (\<open>ms_step\<close>). \<open>Gateway_Main\<close> (\<open>main.rs\<close>): the program, from its
    environment through serving, as the step relation \<open>main_step\<close>, to its shutdown.
  \<^item> \<open>Grpc_Stubs\<close>: the generated client and server of \<open>proto/polku.v1.rs\<close>, with the service of \<open>server.rs\<close> as an implementation of the generated
    trait. \<open>Grpc_Wire\<close> joins them: what \<open>tonic\<close> and \<open>prost\<close> document, as hypotheses on the parameters, and the remote calls, which the
    transport may lose. \<open>Wire_Codec\<close> says which messages the Rust types allow (UTF-8 strings, finite maps) and has a codec for them on byte strings, with which
    \<open>Grpc_Wire\<close> shows that its hypotheses can be met.
  \<^item> \<open>Build_Pipeline\<close>: the build script (\<open>gateway/build.rs\<close>) and the CI pipeline (\<open>ci/src/main.rs\<close>), both under \<open>src\<close>.
  \<^item> \<open>Resilience_Tests\<close>, \<open>Middleware_Tests\<close>, \<open>Stateful_Middleware_Tests\<close>, \<open>Service_Tests\<close>, \<open>Delivery_Tests\<close>: the unit tests
    beside the code, each as a truth value \<open>test_x\<close> named after its function, with lemmas that they hold on the model. What a test
    leaves to the machine (clock, identifiers, schedule, rounding, the outcome of a connection) is an argument.

  \<^bold>\<open>How the code is represented.\<close> A struct is a record with the fields of the source, an enum a datatype, a method a function that returns the updated
    record. \<open>u64\<close> and \<open>u32\<close> values and atomics are words that wrap; lengths are natural numbers. A
    \<open>Result\<close> is a sum with \<open>Inl\<close> the error; an operation that can panic returns \<open>panic + _\<close>. Clock readings, fresh identifiers and
    seeds are arguments; where one call reads the clock several times and it matters, as in the throttle, each reading is one (record \<open>Readings\<close>). Code of other crates is a parameter: the leaves of the emitter tree in general, ingestors, user closures,
    \<open>serde_json\<close> (record \<open>Json\<close>), the HTTP client and \<open>base64\<close> (record \<open>Http\<close>), the calls of the gRPC forwarder (record \<open>Rpc\<close>), \<open>tonic\<close> below the
    generated stubs (records \<open>ClientLib\<close>, \<open>ServerLib\<close>, \<open>Wire\<close>), the console (record \<open>Console\<close>), the \<open>prometheus\<close> registration, the rounding of \<open>f64\<close>, the iteration order of hash maps. What
    runs concurrently without a lock is a step relation over the loads, exchanges and critical sections of the code
    (\<open>rl_step\<close>, \<open>rng_step\<close>, \<open>cb_step\<close>, \<open>th_step\<close>, \<open>ta_step\<close>, \<open>dd_step\<close>, \<open>grpc_step\<close>, \<open>sv_step\<close>, \<open>hub_step\<close>, \<open>hp_step\<close>, \<open>st_step\<close>, \<open>main_step\<close>), weak exchanges failing spuriously.

  \<^bold>\<open>What is shown.\<close>
  \<^item> Buffers follow their log, lose messages only to counted evictions, and account for every message.
  \<^item> The hub hands to each emitter, in order, what was accepted, came through the chain and is routed to it;
    its shutdown drains and terminates (unless an emitter panics: then nothing is delivered any more and \<open>run\<close> still returns \<open>Ok\<close>), with an explicit bound on the steps (\<open>flush_measure\<close>); with a batch size of zero it does not.
    From every state that a hub with well-formed middlewares can reach it can be run to its end. A failure capture holds the last events that it kept of the
    failed batches, all their events or the first of each as it is configured; when it stores full batches and its buffer and the hub's suffice, every event was emitted or is held.
  \<^item> The circuit breaker keeps its invariant and takes only its documented edges under concurrency, fails fast, opens at its
    threshold, recovers when enough probes are allowed, and under the emissions of a single caller never recovers when the success threshold exceeds one
    and the number of probes, as in the default configuration. Retry returns the first success or the last error, counts exactly, and waits
    within bounds. Capture is transparent. The builder nests the layers as intended, and a wrapped emitter is no longer
    found by the name of its destination.
  \<^item> The rate limiter respects its rate sequentially and under every interleaving, and panics exactly for rates above
    \<open>10\<^sup>9\<close>; a client that waits one interval between its requests is always admitted; the throttle isolates its sources within its limit and bounds its memory, but evicts the source whose last request came soonest after the creation of its bucket, so that newcomers who take turns are never limited; the deduplicator
    lets through exactly the first message of an identifier per window; the sampler's share is exact; the aggregator loses nothing; chains
    compose and keep the contracts of their parts.
  \<^item> Threads that share a throttle keep the rate bound of every source and the bound on the sources, under every interleaving of their
    atomic operations; by critical section they get the answers of the sequential throttle. Threads that share a deduplicator keep its window, even with old
    clock readings.
  \<^item> Routed emission makes exactly the deliveries asked for, the same as the flush loop of the hub when no route is repeated; the unary call and the
    stream store what they accept, and handlers that run concurrently account for every event. A
    stream keeps the order and the answers of the sequential loop under back-pressure. The metrics of a hub count exactly what happened, in natural
    numbers, which the \<open>f64\<close> counters of the library show up to \<open>2 ^ 53\<close>.
  \<^item> The configuration loads exactly the well-formed configurations, with the error of the first wrong variable otherwise.
  \<^item> A webhook request can be read back into its events; its error texts stay valid UTF-8 within a bound; behind a retry it posts the same
    request until the first success. A gRPC emission sends each event at most once under any scheduling, always ends, and delivers every event
    to a gateway with room; retried into a full gateway it duplicates the event.
  \<^item> A call of the generated client returns the answer of the local handler with its effect, or an error, with that effect or none; which, is settled by
    the size limits and by whether the transport completes the call. The client of a completed stream reads
    answers up to the first status, while the service may store later batches. An emission through the stubs stores each event at most once
    downstream, all of them when it succeeds, and succeeds when nothing hinders it.
  \<^item> The program as built by \<open>main\<close> stores events and forwards none.
  \<^item> The unit tests of the repository hold on the model, those that run a hub under every schedule of its loops.

  \<^bold>\<open>Recursion and bounds.\<close> All functions are total by structural recursion; the retry loop counts
    its attempts down from \<open>max_attempts + 1\<close>, which is the number of rounds of the loop in the source. No fuel is used. The loops of
    compare-exchange attempts and the loops of the hub, which may run for ever, are step relations.

  \<^bold>\<open>Not modelled.\<close> Logging; \<open>tonic\<close>, \<open>prost\<close>, \<open>axum\<close> and \<open>reqwest\<close> themselves, of which the model has what the sources
    hand them and take from them: among this the compression of messages, request metadata and the timing of a network (a timeout is an outcome that a call may
    have at any time, not a clock; a call that takes effect only after its client has given it up does so in the step of the timeout); panics of
    emitters in the registry and behind wrappers (a panic inside the flush task of the hub is modelled); \<open>NaN\<close> and infinite floating-point values; the benchmarks and the integration tests, which are no part of the program. Of the unit tests: those that sample
    statistics, race threads on atomics, compare addresses or time the network, and the one that stops a hub by a timeout.

  \<^bold>\<open>Order of the plan.\<close> Buffers, resilience, middlewares, registry, service, hub, destinations, configuration, the program, its stubs,
    its build and its unit tests are done. What is left are the flow control
    and the interleaving of frames below the streams, which are those of \<open>tonic\<close>.
\<close>

text \<open>An event that a unary call stores comes back out of the buffer unchanged: draining what the buffer
  then holds gives, after the older messages, exactly the event that was sent, whatever the answer was.\<close>

theorem sent_event_roundtrip:
  assumes "rb_wf (svc_buffer self)" and "process_event ingest self = Inr event"
    and "send_event ingest self = (answer, self')"
  shows "map event_from_message (fst (ring_buffer_drain (ring_buffer_len (svc_buffer self')) (svc_buffer self'))) =
     map event_from_message
       (if ring_buffer_is_full (svc_buffer self) then tl (messages (svc_buffer self)) else messages (svc_buffer self)) @ [event]"
proof -
  let ?m = "[message_from_event event]" and ?b = "svc_buffer self"
  have "messages (svc_buffer self') = messages (rb_put ?m ?b)"
    using assms(2,3) by (auto simp: send_event_def Let_def case_prod_beta split: if_splits)
  moreover have "messages (rb_put ?m ?b) = (if ring_buffer_is_full ?b then tl (messages ?b) else messages ?b) @ ?m"
    by (rule messages_push_one [OF assms(1)])
  ultimately show ?thesis by (simp add: ring_buffer_len_def)
qed

theorem sent_event_roundtrip_witness:
  "let svc = gateway_service_new 0 (ring_buffer_new 1); e = event_from_message (sample_message ''m'');
       svc' = snd (send_event \<lparr>ie_source = ''s'', ie_cluster = ''c'', ie_format = [], ie_payload = Some (Event_Event e)\<rparr> svc)
   in map event_from_message (fst (ring_buffer_drain (ring_buffer_len (svc_buffer svc')) (svc_buffer svc'))) = [e]"
proof -
  let ?svc = "gateway_service_new 0 (ring_buffer_new 1)" and ?e = "event_from_message (sample_message ''m'')"
  let ?in = "\<lparr>ie_source = ''s'', ie_cluster = ''c'', ie_format = [], ie_payload = Some (Event_Event ?e)\<rparr>"
  have "rb_wf (svc_buffer ?svc)" "process_event ?in ?svc = Inr ?e" "messages (svc_buffer ?svc) = []"
    by (simp_all add: gateway_service_new_def process_event_def ring_buffer_new_def rb_wf_def)
  then show ?thesis
    using sent_event_roundtrip [of ?svc ?in ?e "fst (send_event ?in ?svc)" "snd (send_event ?in ?svc)"]
    by (simp add: Let_def)
qed

section \<open>Two ways of routing\<close>

lemma emit_one_flusher: "emit_one E i em events (s\<lparr>flusher := f\<rparr>) = (emit_one E i em events s)\<lparr>flusher := f\<rparr>"
  by (simp add: emit_one_def Let_def split: sum.splits prod.splits)

text \<open>The steps of the flush loop for one batch: every emitter in turn.\<close>

lemma flush_round:
  "flusher s = Emitting events 0 \<Longrightarrow> n \<le> length ems \<Longrightarrow>
   (flush_step E ems bs ^^ n) s = (fold (\<lambda>i. emit_one E i (ems ! i) events) [0..<n] s)\<lparr>flusher := Emitting events n\<rparr>"
proof (induction n)
  case (Suc n)
  then show ?case by (simp add: flush_step_def emit_one_flusher)
qed simp

lemma delivered_flush_round:
  assumes "flusher s = Emitting events 0" and "i < length ems"
  shows "delivered_to i ((flush_step E ems bs ^^ length ems) s) =
     delivered_to i s @ filter (event_routed_to (name_of E (ems ! i))) events"
proof -
  have "delivered_to i (fold (\<lambda>i. emit_one E i (ems ! i) events) [0..<n] s) =
      delivered_to i s @ (if i < n then filter (event_routed_to (name_of E (ems ! i))) events else [])" for n
    by (induction n) (auto simp: delivered_to_emit_one)
  then show ?thesis using assms(2) by (simp add: flush_round [OF assms(1)] delivered_to_def)
qed

lemma count_list_distinct: "distinct xs \<Longrightarrow> count_list xs x = (if x \<in> set xs then 1 else 0)"
  by (induction xs) auto

text \<open>C28. The two routing implementations agree: for events whose routes name no emitter twice, the flush loop of the hub and the
  routed emission of the registry hand each emitter the same events, each the same number of times; they differ in
  the order only, since the registry sends the events without routes first.\<close>

theorem routing_equivalent:
  fixes self :: PluginRegistry and E :: "'x Env" and events :: "Event list"
  defines "ems \<equiv> emitters self" and "p \<equiv> routing_plan E (emitters self) events"
  assumes "\<And>e. e \<in> set events \<Longrightarrow> distinct (ev_route_to e)" and "i < length ems" and "flusher s = Emitting events 0"
  shows "emit_with_routing E events self w = deliver E ems p w \<and>
    mset (delivered_to i ((flush_step E ems bs ^^ length ems) s)) = mset (delivered_to i s) + mset (received_by i p)"
proof -
  let ?name = "name_of E (ems ! i)"
  have "mset (filter (event_routed_to ?name) events) = mset (broadcast events @ addressed_to ?name events)"
    using assms(3)
  proof (induction events)
    case (Cons e events)
    have "count_list (ev_route_to e) ?name = (if ?name \<in> set (ev_route_to e) then 1 else 0)"
      using Cons.prems [of e] by (simp add: count_list_distinct)
    with Cons show ?case by (auto simp: broadcast_def addressed_to_def event_routed_to_iff)
  qed (simp add: broadcast_def addressed_to_def)
  then show ?thesis
    unfolding delivered_flush_round [OF assms(5,4)] p_def
    using received_by_plan [OF assms(4), of E events] emit_with_routing_deliver [of E events self w] by (simp add: ems_def)
qed

theorem routing_equivalent_witness:
  "let e = event_from_message (with_routes (sample_message ''a'') [''out'']); f = event_from_message (sample_message ''b'');
       s = (hub_start (\<lambda>_. None) (hub_build small_hub) None idle_world)\<lparr>flusher := Emitting [e, f] 0\<rparr> in
   mset (delivered_to 0 ((flush_step ok_env [Leaf 0] 1 ^^ 1) s)) = mset (received_by 0 (routing_plan ok_env [Leaf 0] [e, f]))"
proof -
  let ?e = "event_from_message (with_routes (sample_message ''a'') [''out''])" and ?f = "event_from_message (sample_message ''b'')"
  let ?s = "(hub_start (\<lambda>_. None) (hub_build small_hub) None idle_world)\<lparr>flusher := Emitting [?e, ?f] 0\<rparr>"
  let ?self = "register_emitter (Leaf 0) plugin_registry_new"
  have "distinct (ev_route_to x)" if "x \<in> set [?e, ?f]" for x
    using that by (auto simp: with_routes_def message_with_id_def)
  moreover have "delivered_to 0 ?s = []" by (simp add: delivered_to_def hub_start_def Let_def)
  moreover have "emitters ?self = [Leaf 0]" by (simp add: register_emitter_def plugin_registry_new_def)
  ultimately show ?thesis
    using routing_equivalent [of "[?e, ?f]" 0 ?self ?s ok_env idle_world 1] by (simp add: Let_def del: funpow.simps)
qed

end
